(* ===== verification/Float64.thy ===== *)
theory Float64
  imports Complex_Main
begin

text \<open>
  Binary64 arithmetic on finite values. A Python float is modelled by the rational number it
  denotes; every arithmetic operation computes the exact rational and rounds it to the nearest
  binary64 value, ties to even, the way IEEE 754 prescribes and CPython inherits. Infinities, NaN
  and the sign of zero are outside the model: an operation whose exact result leaves the binary64
  range has no counterpart here.

  The theory holds the rounding function \<open>rnd\<close>, the four operations, decimal literals, the three
  conversions the sources use (\<open>int(x)\<close>, \<open>math.ceil(x)\<close>, \<open>round(x)\<close> and \<open>round(x, n)\<close>), the
  compensated \<open>sum()\<close> of CPython 3.12 and the laws the components rest on, collected in the
  locale \<open>rounding\<close> and discharged for \<open>rnd\<close>.
\<close>

type_synonym pyfloat = rat

section \<open>Rounding a rational to an integer\<close>

text \<open>Python's \<open>round(x)\<close>: nearest integer, ties to the even one.\<close>

definition round_even :: "rat \<Rightarrow> int" where
  "round_even x =
     (let f = \<lfloor>x\<rfloor>; r = x - of_int f
      in if r < 1 / 2 then f else if 1 / 2 < r then f + 1 else if even f then f else f + 1)"

lemma round_even_of_int [simp]: "round_even (of_int n) = n"
  by (simp add: round_even_def Let_def)

lemma round_even_lower: "\<lfloor>x\<rfloor> \<le> round_even x"
  by (simp add: round_even_def Let_def)

lemma round_even_upper: "round_even x \<le> \<lceil>x\<rceil>"
proof (cases "x = of_int \<lfloor>x\<rfloor>")
  case True
  then have "round_even x = \<lfloor>x\<rfloor>" by (metis round_even_of_int)
  then show ?thesis by (simp add: floor_le_ceiling)
next
  case False
  then have "\<lceil>x\<rceil> = \<lfloor>x\<rfloor> + 1" by (simp add: ceiling_altdef)
  then show ?thesis by (simp add: round_even_def Let_def)
qed

lemma round_even_mono: "x \<le> y \<Longrightarrow> round_even x \<le> round_even y"
proof (cases "\<lfloor>x\<rfloor> = \<lfloor>y\<rfloor>")
  case True
  assume "x \<le> y"
  with True show ?thesis by (auto simp: round_even_def Let_def)
next
  case False
  assume "x \<le> y"
  then have "\<lfloor>x\<rfloor> \<le> \<lfloor>y\<rfloor>" by (rule floor_mono)
  with False have "\<lfloor>x\<rfloor> + 1 \<le> \<lfloor>y\<rfloor>" by simp
  moreover have "round_even x \<le> \<lfloor>x\<rfloor> + 1" by (simp add: round_even_def Let_def)
  ultimately show ?thesis using round_even_lower [of y] by linarith
qed

lemma round_even_minus: "round_even (- x) = - round_even x"
proof (cases "x = of_int \<lfloor>x\<rfloor>")
  case True
  then have "round_even x = \<lfloor>x\<rfloor>" "round_even (- x) = - \<lfloor>x\<rfloor>"
    by (metis round_even_of_int, metis of_int_minus round_even_of_int)
  then show ?thesis by simp
next
  case False
  then have c: "\<lceil>x\<rceil> = \<lfloor>x\<rfloor> + 1" by (simp add: ceiling_altdef)
  have f: "\<lfloor>- x\<rfloor> = - \<lfloor>x\<rfloor> - 1" using c by (simp add: floor_minus)
  show ?thesis unfolding round_even_def Let_def f by (auto simp: field_simps)
qed

lemma round_even_error: "\<bar>of_int (round_even x) - x\<bar> \<le> 1 / 2"
proof -
  have "of_int \<lfloor>x\<rfloor> \<le> x" "x < of_int \<lfloor>x\<rfloor> + 1" by linarith+
  then show ?thesis by (auto simp: round_even_def Let_def abs_le_iff)
qed

lemma round_even_bounds:
  "of_int n \<le> x \<Longrightarrow> n \<le> round_even x" "x \<le> of_int n \<Longrightarrow> round_even x \<le> n"
  using round_even_mono [of "of_int n" x] round_even_mono [of x "of_int n"] by simp_all

section \<open>The binary exponent of a positive rational\<close>

function bits :: "int \<Rightarrow> int" where
  "bits n = (if n \<le> 0 then 0 else 1 + bits (n div 2))"
  by pat_completeness auto
termination
  by (relation "measure nat") auto

declare bits.simps [simp del]

lemma bits_nonneg: "0 \<le> bits n"
proof (induction n rule: bits.induct)
  case (1 n)
  then show ?case by (cases "n \<le> 0") (simp_all add: bits.simps [of n])
qed

lemma bits_bound: "0 < n \<Longrightarrow> of_int n < (2 :: rat) powi bits n \<and> (2 :: rat) powi bits n \<le> 2 * of_int n"
proof (induction n rule: bits.induct)
  case (1 n)
  have eq: "bits n = 1 + bits (n div 2)" using 1(2) by (simp add: bits.simps [of n])
  show ?case
  proof (cases "n div 2 \<le> 0")
    case True
    then have "n = 1" using 1(2) by linarith
    moreover have "bits (n div 2) = 0" using True by (simp add: bits.simps)
    ultimately show ?thesis unfolding eq by simp
  next
    case False
    then have IH: "of_int (n div 2) < (2 :: rat) powi bits (n div 2)"
        "(2 :: rat) powi bits (n div 2) \<le> 2 * of_int (n div 2)"
      using 1 by auto
    have p: "(2 :: rat) powi bits n = 2 * 2 powi bits (n div 2)" by (simp add: eq power_int_add)
    define k where "k = nat (bits (n div 2))"
    have k: "(2 :: rat) powi bits (n div 2) = of_int (2 ^ k)"
      using bits_nonneg [of "n div 2"] by (simp add: k_def power_int_def)
    have "n div 2 < 2 ^ k" "2 ^ k \<le> 2 * (n div 2)"
      using IH unfolding k by (metis of_int_less_iff, metis of_int_le_iff of_int_mult of_int_numeral)
    then have "n < 2 * 2 ^ k" "2 * 2 ^ k \<le> 2 * n" by linarith+
    then have "(of_int n :: rat) < of_int (2 * 2 ^ k)" "(of_int (2 * 2 ^ k) :: rat) \<le> of_int (2 * n)"
      by (simp_all only: of_int_less_iff of_int_le_iff)
    then show ?thesis unfolding p k by simp
  qed
qed

definition ilog2 :: "rat \<Rightarrow> int" where
  "ilog2 x =
     (let (n, d) = quotient_of x; k = bits n - bits d
      in if 2 powi k \<le> x then k else k - 1)"

lemma powi_less_mono: "i < j \<Longrightarrow> (2 :: rat) powi i < 2 powi j"
  by (simp add: power_int_strict_increasing)

lemma powi_le_mono: "i \<le> j \<Longrightarrow> (2 :: rat) powi i \<le> 2 powi j"
  by (simp add: power_int_increasing)

lemma powi_pos [simp]: "(0 :: rat) < 2 powi i"
  by simp

lemma ilog2_bounds:
  assumes "0 < x"
  shows "2 powi (ilog2 x) \<le> x \<and> x < 2 powi (ilog2 x + 1)"
proof -
  obtain n d where q: "quotient_of x = (n, d)" by force
  have d: "0 < d" using q by (rule quotient_of_denom_pos)
  have x: "x = of_int n / of_int d" using q by (rule quotient_of_div)
  have n: "0 < n" using assms d unfolding x by (simp add: zero_less_divide_iff)
  define a where "a = bits n"
  define b where "b = bits d"
  define k where "k = a - b"
  have N: "of_int n < (2 :: rat) powi a" "(2 :: rat) powi a \<le> 2 * of_int n"
    and D: "of_int d < (2 :: rat) powi b" "(2 :: rat) powi b \<le> 2 * of_int d"
    using bits_bound [OF n] bits_bound [OF d] by (simp_all add: a_def b_def)
  have pk: "(2 :: rat) powi k = 2 powi a / 2 powi b" by (simp add: k_def power_int_diff)
  have up: "x < 2 powi (k + 1)"
  proof -
    have "of_int n * 2 powi b < (2 powi a :: rat) * (2 * of_int d)"
      by (rule mult_less_le_imp_less) (use N D n d in auto)
    then show ?thesis using d unfolding x by (simp add: power_int_add pk field_simps)
  qed
  have lo: "2 powi (k - 1) \<le> x"
  proof -
    have "(2 powi a :: rat) * of_int d \<le> (2 * of_int n) * 2 powi b"
      by (rule mult_mono) (use N D n d in auto)
    then show ?thesis using d unfolding x by (simp add: power_int_diff pk field_simps)
  qed
  have "ilog2 x = (if 2 powi k \<le> x then k else k - 1)"
    by (simp add: ilog2_def q Let_def k_def a_def b_def)
  then show ?thesis using up lo by auto
qed

lemma ilog2_less: "0 < x \<Longrightarrow> x < 2 powi k \<Longrightarrow> ilog2 x < k"
  using ilog2_bounds [of x] powi_le_mono [of k "ilog2 x"] by linarith

lemma ilog2_ge: "0 < x \<Longrightarrow> 2 powi k \<le> x \<Longrightarrow> k \<le> ilog2 x"
  using ilog2_bounds [of x] powi_le_mono [of "ilog2 x + 1" k] by linarith

lemma ilog2_mono: "0 < x \<Longrightarrow> x \<le> y \<Longrightarrow> ilog2 x \<le> ilog2 y"
  using ilog2_bounds [of x] by (auto intro: ilog2_ge)

section \<open>Rounding to binary64\<close>

text \<open>
  The unit in the last place of \<open>x\<close> is \<open>2 powi ulp_exp x\<close>: 53 significant bits, and no exponent
  below -1074 (gradual underflow).
\<close>

definition ulp_exp :: "rat \<Rightarrow> int" where
  "ulp_exp x = max (ilog2 \<bar>x\<bar> - 52) (- 1074)"

definition rnd :: "rat \<Rightarrow> rat" where
  "rnd x =
     (if x = 0 then 0
      else let e = ulp_exp x in of_int (round_even (x * 2 powi (- e))) * 2 powi e)"

definition is_f64 :: "rat \<Rightarrow> bool" where
  "is_f64 x \<longleftrightarrow> rnd x = x"

lemma rnd_0 [simp]: "rnd 0 = 0"
  by (simp add: rnd_def)

lemma rnd_minus: "rnd (- x) = - rnd x"
  by (simp add: rnd_def ulp_exp_def Let_def round_even_minus)

lemma powi_cancel: "(2 :: rat) powi e * 2 powi (- e) = 1" "(2 :: rat) powi (- e) * 2 powi e = 1"
  by (simp_all flip: power_int_add)

lemma rnd_nonneg: "0 \<le> x \<Longrightarrow> 0 \<le> rnd x"
proof -
  assume "0 \<le> x"
  then have "0 \<le> round_even (x * 2 powi (- ulp_exp x))"
    using round_even_bounds(1) [of 0] by simp
  then show ?thesis by (simp add: rnd_def Let_def)
qed

text \<open>A number with at most 53 significant bits above the smallest exponent is exact.\<close>

lemma rnd_dyadic:
  assumes "\<bar>m\<bar> < 2 ^ 53" "- 1074 \<le> e"
  shows "rnd (of_int m * 2 powi e) = of_int m * 2 powi e"
proof (cases "m = 0")
  case True
  then show ?thesis by simp
next
  case False
  define x where "x = (of_int m :: rat) * 2 powi e"
  have x0: "x \<noteq> 0" using False by (simp add: x_def)
  have "\<bar>of_int m :: rat\<bar> < 2 ^ 53"
    using assms(1) by (metis of_int_abs of_int_less_numeral_power_cancel_iff)
  then have "\<bar>x\<bar> < 2 ^ 53 * 2 powi e"
    by (simp add: x_def abs_mult)
  then have "\<bar>x\<bar> < 2 powi (53 + e)" by (simp add: power_int_add)
  then have "ilog2 \<bar>x\<bar> < 53 + e" using x0 by (simp add: ilog2_less)
  then have le: "ulp_exp x \<le> e" using assms(2) by (simp add: ulp_exp_def)
  define d where "d = nat (e - ulp_exp x)"
  have "x * 2 powi (- ulp_exp x) = of_int m * 2 powi (e - ulp_exp x)"
    by (simp add: x_def power_int_diff power_int_minus field_simps)
  also have "\<dots> = of_int (m * 2 ^ d)"
    using le by (simp add: d_def power_int_def)
  finally have eq: "x * 2 powi (- ulp_exp x) = of_int (m * 2 ^ d)" .
  have "rnd x = x * 2 powi (- ulp_exp x) * 2 powi ulp_exp x"
    unfolding rnd_def Let_def using x0 by (metis eq round_even_of_int)
  also have "\<dots> = x" by (simp add: mult.assoc powi_cancel)
  finally show ?thesis by (simp add: x_def)
qed

lemma rnd_of_int: "\<bar>n\<bar> < 2 ^ 53 \<Longrightarrow> rnd (of_int n) = of_int n"
  using rnd_dyadic [of n 0] by simp

lemma rnd_numeral_1 [simp]: "rnd 1 = 1"
  using rnd_of_int [of 1] by simp

text \<open>Monotonicity: within one binade by \<open>round_even_mono\<close>, across binades by their border.\<close>

lemma rnd_scaled_upper: "0 < x \<Longrightarrow> rnd x \<le> 2 powi (ulp_exp x + 53)"
proof -
  assume x: "0 < x"
  have "x < 2 powi (ilog2 x + 1)" using ilog2_bounds [OF x] by simp
  also have "\<dots> \<le> 2 powi (ulp_exp x + 53)" using x by (intro powi_le_mono) (simp add: ulp_exp_def)
  finally have "x * 2 powi (- ulp_exp x) \<le> of_int (2 ^ 53)"
    by (simp add: power_int_add power_int_minus field_simps)
  then have "round_even (x * 2 powi (- ulp_exp x)) \<le> 2 ^ 53" by (rule round_even_bounds(2))
  then have "(of_int (round_even (x * 2 powi (- ulp_exp x))) :: rat) \<le> 2 ^ 53"
    by (simp add: of_int_le_numeral_power_cancel_iff)
  then show ?thesis using x by (simp add: rnd_def Let_def power_int_add)
qed

lemma rnd_scaled_lower: "0 < x \<Longrightarrow> - 1074 < ulp_exp x \<Longrightarrow> 2 powi (ulp_exp x + 52) \<le> rnd x"
proof -
  assume x: "0 < x" and "- 1074 < ulp_exp x"
  then have "ulp_exp x = ilog2 x - 52" by (simp add: ulp_exp_def)
  then have "2 powi (ulp_exp x + 52) \<le> x" using ilog2_bounds [OF x] by simp
  then have "of_int (2 ^ 52) \<le> x * 2 powi (- ulp_exp x)"
    by (simp add: power_int_add power_int_minus field_simps)
  then have "2 ^ 52 \<le> round_even (x * 2 powi (- ulp_exp x))" by (rule round_even_bounds(1))
  then have "(2 ^ 52 :: rat) \<le> of_int (round_even (x * 2 powi (- ulp_exp x)))"
    by (simp add: numeral_power_le_of_int_cancel_iff)
  then show ?thesis using x by (simp add: rnd_def Let_def power_int_add)
qed

lemma rnd_mono_pos:
  assumes "0 < x" "x \<le> y"
  shows "rnd x \<le> rnd y"
proof -
  have y: "0 < y" using assms by simp
  have "ulp_exp x \<le> ulp_exp y"
    using ilog2_mono [OF assms] assms by (simp add: ulp_exp_def)
  then consider "ulp_exp x = ulp_exp y" | "ulp_exp x < ulp_exp y" by linarith
  then show ?thesis
  proof cases
    case 1
    have "x * 2 powi (- ulp_exp y) \<le> y * 2 powi (- ulp_exp y)"
      using assms by (intro mult_right_mono) simp_all
    then show ?thesis using 1 assms y
      by (simp add: rnd_def Let_def round_even_mono)
  next
    case 2
    have "rnd x \<le> 2 powi (ulp_exp x + 53)" using assms(1) by (rule rnd_scaled_upper)
    also have "\<dots> \<le> 2 powi (ulp_exp y + 52)" using 2 by (intro powi_le_mono) simp
    also have "\<dots> \<le> rnd y"
      using 2 y by (intro rnd_scaled_lower) (auto simp: ulp_exp_def)
    finally show ?thesis .
  qed
qed

lemma rnd_mono: "x \<le> y \<Longrightarrow> rnd x \<le> rnd y"
proof -
  assume le: "x \<le> y"
  consider "0 < x" | "x \<le> 0" "0 \<le> y" | "y < 0" by linarith
  then show ?thesis
  proof cases
    case 1
    then show ?thesis using le by (rule rnd_mono_pos)
  next
    case 2
    then have "rnd x \<le> 0" using rnd_nonneg [of "- x"] by (simp add: rnd_minus)
    then show ?thesis using rnd_nonneg [OF 2(2)] by linarith
  next
    case 3
    then have "rnd (- y) \<le> rnd (- x)" using le by (intro rnd_mono_pos) simp_all
    then show ?thesis by (simp add: rnd_minus)
  qed
qed

text \<open>Rounding a rounded value changes nothing.\<close>

lemma rnd_idem [simp]: "rnd (rnd x) = rnd x"
proof -
  have pos: "rnd (rnd x) = rnd x" if x: "0 < x" for x
  proof -
    define m where "m = round_even (x * 2 powi (- ulp_exp x))"
    define e where "e = ulp_exp x"
    have r: "rnd x = of_int m * 2 powi e" using x by (simp add: rnd_def Let_def m_def e_def)
    have e: "- 1074 \<le> e" by (simp add: e_def ulp_exp_def)
    have "of_int m * (2 :: rat) powi e \<le> 2 ^ 53 * 2 powi e"
      using rnd_scaled_upper [OF x] r by (simp add: e_def power_int_add)
    then have "(of_int m :: rat) \<le> 2 ^ 53" by simp
    then have "m \<le> 2 ^ 53" by (simp add: of_int_le_numeral_power_cancel_iff)
    moreover have "0 \<le> m" using x unfolding m_def by (intro round_even_bounds(1)) simp
    ultimately consider "\<bar>m\<bar> < 2 ^ 53" | "m = 2 ^ 53" by linarith
    then show ?thesis
    proof cases
      case 1
      then show ?thesis unfolding r using e by (rule rnd_dyadic)
    next
      case 2
      have "rnd x = of_int 1 * 2 powi (53 + e)" unfolding r 2 by (simp add: power_int_add)
      then show ?thesis using rnd_dyadic [of 1 "53 + e"] e by simp
    qed
  qed
  consider "x = 0" | "0 < x" | "0 < - x" by linarith
  then show ?thesis
    by cases (simp, rule pos, assumption, use pos [of "- x"] in \<open>simp add: rnd_minus\<close>)
qed

lemma is_f64_rnd [simp]: "is_f64 (rnd x)"
  by (simp add: is_f64_def)

lemma is_f64_of_int: "\<bar>n\<bar> < 2 ^ 53 \<Longrightarrow> is_f64 (of_int n)"
  by (simp add: is_f64_def rnd_of_int)

section \<open>The laws of a rounding\<close>

text \<open>
  What the components rely on when they compare floating-point results: the rounding is monotone,
  odd, idempotent and exact on the integers of magnitude below \<open>2 ^ 53\<close>.
\<close>

locale rounding =
  fixes rd :: "rat \<Rightarrow> rat"
  assumes rd_mono: "x \<le> y \<Longrightarrow> rd x \<le> rd y"
    and rd_minus: "rd (- x) = - rd x"
    and rd_idem: "rd (rd x) = rd x"
    and rd_int: "\<bar>n\<bar> < 2 ^ 53 \<Longrightarrow> rd (of_int n) = of_int n"
begin

lemma rd_zero: "rd 0 = 0"
  using rd_int [of 0] by simp

lemma rd_nonneg: "0 \<le> x \<Longrightarrow> 0 \<le> rd x"
  using rd_mono [of 0 x] by (simp add: rd_zero)

lemma rd_nonpos: "x \<le> 0 \<Longrightarrow> rd x \<le> 0"
  using rd_mono [of x 0] by (simp add: rd_zero)

lemma rd_pos_imp: "0 < rd x \<Longrightarrow> 0 < x"
  using rd_nonpos [of x] by linarith

lemma rd_le_fixed: "x \<le> y \<Longrightarrow> rd y = y \<Longrightarrow> rd x \<le> y"
  using rd_mono [of x y] by simp

lemma rd_ge_fixed: "y \<le> x \<Longrightarrow> rd y = y \<Longrightarrow> y \<le> rd x"
  using rd_mono [of y x] by simp

lemma rd_le_int: "x \<le> of_int n \<Longrightarrow> \<bar>n\<bar> < 2 ^ 53 \<Longrightarrow> rd x \<le> of_int n"
  by (rule rd_le_fixed) (simp_all add: rd_int)

lemma rd_ge_int: "of_int n \<le> x \<Longrightarrow> \<bar>n\<bar> < 2 ^ 53 \<Longrightarrow> of_int n \<le> rd x"
  by (rule rd_ge_fixed) (simp_all add: rd_int)

lemma rd_mult_mono: "0 \<le> c \<Longrightarrow> a \<le> b \<Longrightarrow> rd (c * a) \<le> rd (c * b)"
  by (rule rd_mono) (rule mult_left_mono)

lemma rd_divide_mono: "0 < c \<Longrightarrow> a \<le> b \<Longrightarrow> rd (a / c) \<le> rd (b / c)"
  by (rule rd_mono) (simp add: divide_right_mono)

lemma rd_mult_nonneg: "0 \<le> a \<Longrightarrow> 0 \<le> b \<Longrightarrow> 0 \<le> rd (a * b)"
  by (rule rd_nonneg) simp

lemma rd_divide_nonneg: "0 \<le> a \<Longrightarrow> 0 \<le> b \<Longrightarrow> 0 \<le> rd (a / b)"
  by (rule rd_nonneg) simp

end

interpretation f64: rounding rnd
  by unfold_locales (simp_all add: rnd_mono rnd_minus rnd_of_int)

section \<open>Operations\<close>

definition fadd :: "pyfloat \<Rightarrow> pyfloat \<Rightarrow> pyfloat" where "fadd x y = rnd (x + y)"
definition fsub :: "pyfloat \<Rightarrow> pyfloat \<Rightarrow> pyfloat" where "fsub x y = rnd (x - y)"
definition fmul :: "pyfloat \<Rightarrow> pyfloat \<Rightarrow> pyfloat" where "fmul x y = rnd (x * y)"
definition fdiv :: "pyfloat \<Rightarrow> pyfloat \<Rightarrow> pyfloat" where "fdiv x y = rnd (x / y)"

text \<open>\<open>lit n d\<close> is the float a decimal literal denotes: 0.07 is \<open>lit 7 100\<close>.\<close>

definition lit :: "int \<Rightarrow> int \<Rightarrow> pyfloat" where "lit n d = rnd (of_int n / of_int d)"

text \<open>\<open>float(n)\<close> for an integer, and the mixed operations Python promotes.\<close>

definition float_of :: "int \<Rightarrow> pyfloat" where "float_of n = rnd (of_int n)"

text \<open>\<open>int(x)\<close> truncates towards zero; \<open>math.ceil(x)\<close>; \<open>round(x, n)\<close> rounds the exact value to \<open>n\<close> decimals.\<close>

definition py_int :: "pyfloat \<Rightarrow> int" where
  "py_int x = (if 0 \<le> x then \<lfloor>x\<rfloor> else \<lceil>x\<rceil>)"

definition py_round_nd :: "pyfloat \<Rightarrow> nat \<Rightarrow> pyfloat" where
  "py_round_nd x n = rnd (of_int (round_even (x * 10 ^ n)) / 10 ^ n)"

lemmas f64_ops = fadd_def fsub_def fmul_def fdiv_def lit_def float_of_def

lemma float_of_exact: "\<bar>n\<bar> < 2 ^ 53 \<Longrightarrow> float_of n = of_int n"
  by (simp add: float_of_def rnd_of_int)

lemma fadd_int: "\<bar>m + n\<bar> < 2 ^ 53 \<Longrightarrow> fadd (of_int m) (of_int n) = of_int (m + n)"
  unfolding fadd_def using rnd_of_int [of "m + n"] by simp

lemma fsub_int: "\<bar>m - n\<bar> < 2 ^ 53 \<Longrightarrow> fsub (of_int m) (of_int n) = of_int (m - n)"
  unfolding fsub_def using rnd_of_int [of "m - n"] by simp

lemma py_int_nonneg: "0 \<le> x \<Longrightarrow> 0 \<le> py_int x \<and> of_int (py_int x) \<le> x"
  by (simp add: py_int_def)

lemma py_int_mono: "x \<le> y \<Longrightarrow> py_int x \<le> py_int y"
proof (cases "0 \<le> x \<or> y < 0")
  case True
  then show "x \<le> y \<Longrightarrow> py_int x \<le> py_int y"
    by (auto simp: py_int_def floor_mono ceiling_mono)
next
  case False
  then have "\<lceil>x\<rceil> \<le> 0" "0 \<le> \<lfloor>y\<rfloor>" by (simp_all add: ceiling_le_zero)
  then have "\<lceil>x\<rceil> \<le> \<lfloor>y\<rfloor>" by (rule order_trans)
  with False show "py_int x \<le> py_int y" by (simp add: py_int_def)
qed

lemma py_int_of_int [simp]: "py_int (of_int n) = n"
  by (simp add: py_int_def)

section \<open>sum()\<close>

text \<open>
  CPython 3.12 adds floats with Neumaier's compensation: the running total and the accumulated
  rounding error are kept apart and added once at the end.
\<close>

fun sum_loop :: "pyfloat \<Rightarrow> pyfloat \<Rightarrow> pyfloat list \<Rightarrow> pyfloat" where
  "sum_loop s c [] = (if c = 0 then s else fadd s c)"
| "sum_loop s c (x # xs) =
     (let t = fadd s x;
          c' = (if \<bar>x\<bar> \<le> \<bar>s\<bar> then fadd c (fadd (fsub s t) x) else fadd c (fadd (fsub x t) s))
      in sum_loop t c' xs)"

definition py_sum :: "pyfloat list \<Rightarrow> pyfloat" where
  "py_sum xs = sum_loop 0 0 xs"

lemma py_sum_Nil [simp]: "py_sum [] = 0"
  by (simp add: py_sum_def)

text \<open>On integers whose partial sums stay below \<open>2 ^ 53\<close> the sum is exact and order-independent.\<close>

definition int_valued :: "rat \<Rightarrow> bool" where
  "int_valued x \<longleftrightarrow> x = of_int \<lfloor>x\<rfloor>"

lemma int_valued_of_int [simp]: "int_valued (of_int n)"
  by (simp add: int_valued_def)

lemma sum_loop_ints:
  "0 \<le> s \<Longrightarrow> \<forall>n \<in> set ns. 0 \<le> n \<Longrightarrow> s + sum_list ns < 2 ^ 53 \<Longrightarrow>
     sum_loop (of_int s) 0 (map of_int ns) = of_int (s + sum_list ns)"
proof (induction ns arbitrary: s)
  case Nil
  then show ?case by simp
next
  case (Cons n ns)
  have nonneg: "0 \<le> sum_list ns" using Cons.prems(2) by (intro sum_list_nonneg) simp
  have b: "\<bar>s + n\<bar> < 2 ^ 53" "\<bar>s\<bar> < 2 ^ 53" "\<bar>n\<bar> < 2 ^ 53"
    using Cons.prems nonneg by auto
  have t: "fadd (of_int s) (of_int n) = of_int (s + n)" using b(1) by (rule fadd_int)
  have c1: "fadd 0 (fadd (fsub (of_int s) (of_int (s + n))) (of_int n)) = 0"
    using fsub_int [of s "s + n"] fadd_int [of "- n" n] b by (simp add: fadd_def)
  have c2: "fadd 0 (fadd (fsub (of_int n) (of_int (s + n))) (of_int s)) = 0"
    using fsub_int [of n "s + n"] fadd_int [of "- s" s] b by (simp add: fadd_def)
  have "sum_loop (of_int s) 0 (map of_int (n # ns)) = sum_loop (of_int (s + n)) 0 (map of_int ns)"
    by (simp add: Let_def t c1 c2 del: of_int_add)
  also have "\<dots> = of_int (s + n + sum_list ns)" using Cons by (intro Cons.IH) auto
  finally show ?case by (simp add: add.assoc)
qed

lemma py_sum_ints:
  "\<forall>n \<in> set ns. 0 \<le> n \<Longrightarrow> sum_list ns < 2 ^ 53 \<Longrightarrow> py_sum (map of_int ns) = of_int (sum_list ns)"
  using sum_loop_ints [of 0 ns] by (simp add: py_sum_def)

end
