(* ===== verification/Prelude.thy ===== *)
theory Prelude
  imports Float64
begin

text \<open>
  What the components share: names for the primitive types, Python's dictionary reads, the string
  operations the sources call, the decimal parser behind \<open>float(text)\<close>, SQL values, and the
  generic lemmas on time-ordered logs from which the rolling-window caps follow.

  Text is a list of 8-bit characters. Wall-clock milliseconds and monotonic nanoseconds are
  unbounded integers, as in Python.
\<close>

type_synonym ms = int
type_synonym ns = int
type_synonym ticker = string

section \<open>Exceptions\<close>

text \<open>
  The exception classes the modelled functions raise. The message text is left out except where a
  caller looks at it.
\<close>

datatype exc =
    ValueError | TypeError | KeyError | RuntimeError | AssertionError | IncompleteRead | StructError | OSError
  | AttributeError | OverflowError | UnsupportedFeeModelError | VenueExecutionError

text \<open>Going on with a result, or with the exception that was raised.\<close>

definition bind_exc :: "exc + 'a \<Rightarrow> ('a \<Rightarrow> exc + 'b) \<Rightarrow> exc + 'b" where
  "bind_exc r f = (case r of Inl e \<Rightarrow> Inl e | Inr a \<Rightarrow> f a)"

lemma bind_exc_simps [simp]: "bind_exc (Inl e) f = Inl e" "bind_exc (Inr a) f = f a"
  by (simp_all add: bind_exc_def)

lemma bind_exc_Inr: "bind_exc r f = Inr b \<longleftrightarrow> (\<exists>a. r = Inr a \<and> f a = Inr b)"
  by (cases r) simp_all

section \<open>Dictionaries\<close>

definition get_default :: "('k \<rightharpoonup> 'v) \<Rightarrow> 'k \<Rightarrow> 'v \<Rightarrow> 'v" where
  "get_default m k d = (case m k of None \<Rightarrow> d | Some v \<Rightarrow> v)"

lemma get_default_empty [simp]: "get_default Map.empty k d = d"
  by (simp add: get_default_def)

lemma get_default_upd [simp]:
  "get_default (m(k \<mapsto> v)) k' d = (if k' = k then v else get_default m k' d)"
  by (simp add: get_default_def)

section \<open>Time-ordered logs\<close>

named_theorems window_simps

text \<open>Popping the expired prefix of a time-ordered deque keeps exactly the unexpired entries.\<close>

lemma dropWhile_eq_filter:
  fixes f :: "'a \<Rightarrow> 'b::linorder"
  assumes "sorted (map f xs)"
  shows "dropWhile (\<lambda>x. f x < c) xs = filter (\<lambda>x. c \<le> f x) xs"
  using assms
proof (induction xs)
  case Nil
  then show ?case by simp
next
  case (Cons x xs)
  show ?case
  proof (cases "f x < c")
    case True
    then show ?thesis using Cons by simp
  next
    case False
    then have "\<forall>y \<in> set xs. c \<le> f y" using Cons.prems by force
    then show ?thesis using False by (auto simp: not_less intro!: filter_True [symmetric])
  qed
qed

lemma sorted_map_dropWhile: "sorted (map f xs) \<Longrightarrow> sorted (map f (dropWhile P xs))"
proof (induction xs)
  case (Cons x xs)
  then show ?case by (cases "P x") simp_all
qed simp

lemma sorted_map_snoc:
  fixes f :: "'a \<Rightarrow> 'b::linorder"
  shows "sorted (map f (xs @ [x])) \<longleftrightarrow> sorted (map f xs) \<and> (\<forall>y \<in> set xs. f y \<le> f x)"
  by (auto simp: sorted_append)

lemma length_filter_mono:
  "(\<And>x. x \<in> set xs \<Longrightarrow> P x \<Longrightarrow> Q x) \<Longrightarrow> length (filter P xs) \<le> length (filter Q xs)"
  by (induction xs) (auto simp: le_SucI)

text \<open>
  The number of entries of a log that satisfy \<open>P\<close> and lie in the closed window of length \<open>w\<close>
  starting at \<open>h\<close>.
\<close>

definition in_window :: "('a \<Rightarrow> int) \<Rightarrow> ('a \<Rightarrow> bool) \<Rightarrow> int \<Rightarrow> int \<Rightarrow> 'a list \<Rightarrow> nat" where
  "in_window f P w h xs = length (filter (\<lambda>x. h \<le> f x \<and> f x \<le> h + w \<and> P x) xs)"

lemma in_window_Nil [simp]: "in_window f P w h [] = 0"
  by (simp add: in_window_def)

text \<open>
  The step all rolling caps share: when an entry is appended at \<open>t'\<close> only after the entries of
  the window ending at the earlier check time \<open>t\<close> were counted and found below the cap, no window
  of that length holds more than the cap.
\<close>

lemma in_window_snoc_le:
  assumes "in_window f P w h xs \<le> cap"
    and "P x \<Longrightarrow> length (filter (\<lambda>y. t - w \<le> f y \<and> P y) xs) < cap"
    and "t \<le> f x"
  shows "in_window f P w h (xs @ [x]) \<le> cap"
proof (cases "h \<le> f x \<and> f x \<le> h + w \<and> P x")
  case False
  then show ?thesis using assms(1) by (auto simp: in_window_def)
next
  case True
  then have "t - w \<le> h" using assms(3) by simp
  then have "in_window f P w h xs \<le> length (filter (\<lambda>y. t - w \<le> f y \<and> P y) xs)"
    unfolding in_window_def by (intro length_filter_mono) auto
  then show ?thesis using True assms(2) by (simp add: in_window_def)
qed

section \<open>Strings\<close>

text \<open>\<open>s.rsplit(c, 1)[0]\<close>, defined for a string that contains \<open>c\<close>: all before its last \<open>c\<close>.\<close>

definition rsplit_head :: "char \<Rightarrow> string \<Rightarrow> string" where
  "rsplit_head c s = rev (tl (dropWhile (\<lambda>x. x \<noteq> c) (rev s)))"

lemma rsplit_head_append:
  "c \<notin> set b \<Longrightarrow> rsplit_head c (a @ c # b) = a"
  by (simp add: rsplit_head_def dropWhile_append dropWhile_eq_Nil_conv)

definition is_space :: "char \<Rightarrow> bool" where
  "is_space c \<longleftrightarrow> c \<in> {CHR '' '', CHR 0x09, CHR 0x0A, CHR 0x0B, CHR 0x0C, CHR 0x0D,
     CHR 0x1C, CHR 0x1D, CHR 0x1E, CHR 0x1F, CHR 0x85, CHR 0xA0}"

definition strip :: "string \<Rightarrow> string" where
  "strip s = rev (dropWhile is_space (rev (dropWhile is_space s)))"

definition is_digit :: "char \<Rightarrow> bool" where
  "is_digit c \<longleftrightarrow> c \<in> set ''0123456789''"

definition digit_value :: "char \<Rightarrow> int" where
  "digit_value c = of_char c - 48"

text \<open>The decimal digits of a nonnegative integer, and \<open>f"{x:.4f}"\<close>: the exact value to four decimals.\<close>

function decimal_text :: "int \<Rightarrow> string" where
  "decimal_text n =
     (if n < 10 then [char_of (48 + n)] else decimal_text (n div 10) @ [char_of (48 + n mod 10)])"
  by pat_completeness auto
termination
  by (relation "measure nat") auto

declare decimal_text.simps [simp del]

definition int_text :: "int \<Rightarrow> string" where
  "int_text n = (if n < 0 then ''-'' @ decimal_text (- n) else decimal_text n)"

definition fixed4 :: "pyfloat \<Rightarrow> string" where
  "fixed4 x =
     (let n = round_even (\<bar>x\<bar> * 10000);
          frac = decimal_text (n mod 10000)
      in (if x < 0 then ''-'' else []) @ decimal_text (n div 10000) @ ''.'' @
         replicate (4 - length frac) (CHR ''0'') @ frac)"

section \<open>\<open>float(text)\<close>\<close>

text \<open>
  The decimal syntax \<open>float()\<close> accepts: surrounding blanks, a sign, digits with single
  underscores between them, a point, an exponent. The spellings of infinity and NaN denote no
  finite float and are left out with them.
\<close>

text \<open>Reads a run of digits: the value, how many digits, and the rest of the text.\<close>

fun read_digits :: "int \<Rightarrow> nat \<Rightarrow> string \<Rightarrow> int \<times> nat \<times> string" where
  "read_digits v n [] = (v, n, [])"
| "read_digits v n (c # cs) =
     (if is_digit c then read_digits (10 * v + digit_value c) (Suc n) cs
      else if c = CHR ''_'' \<and> n \<noteq> 0 \<and> (case cs of [] \<Rightarrow> False | d # _ \<Rightarrow> is_digit d)
        then read_digits v n cs
      else (v, n, c # cs))"

definition read_sign :: "string \<Rightarrow> int \<times> string" where
  "read_sign s =
     (case s of [] \<Rightarrow> (1, [])
      | c # cs \<Rightarrow> if c = CHR ''-'' then (- 1, cs) else if c = CHR ''+'' then (1, cs) else (1, s))"

definition read_exponent :: "string \<Rightarrow> int option" where
  "read_exponent s =
     (case s of [] \<Rightarrow> Some 0
      | c # cs \<Rightarrow>
          if c = CHR ''e'' \<or> c = CHR ''E'' then
            (let (sg, cs') = read_sign cs; (v, n, rest) = read_digits 0 0 cs'
             in if n \<noteq> 0 \<and> rest = [] then Some (sg * v) else None)
          else None)"

definition float_of_text :: "string \<Rightarrow> pyfloat option" where
  "float_of_text s =
     (let (sg, s1) = read_sign (strip s);
          (iv, ni, s2) = read_digits 0 0 s1;
          (fv, nf, s3) =
            (case s2 of [] \<Rightarrow> (0, 0, [])
             | c # cs \<Rightarrow> if c = CHR ''.'' then read_digits 0 0 cs else (0, 0, s2))
      in if ni + nf = 0 then None
         else map_option
           (\<lambda>e. rnd (of_int (sg * (iv * 10 ^ nf + fv)) / 10 ^ nf * 10 powi e))
           (read_exponent s3))"

section \<open>SQL values and rows\<close>

datatype sqlval = SNull | SInt int | SReal pyfloat | SText string

type_synonym sqlrow = "string \<rightharpoonup> sqlval"

text \<open>\<open>row.get(column)\<close>: an absent key binds NULL.\<close>

definition row_get :: "sqlrow \<Rightarrow> string \<Rightarrow> sqlval" where
  "row_get r c = get_default r c SNull"

text \<open>\<open>float(value)\<close> for a value read from the database; \<open>None\<close> where Python raises.\<close>

fun float_of_sql :: "sqlval \<Rightarrow> pyfloat option" where
  "float_of_sql SNull = None"
| "float_of_sql (SInt n) = Some (float_of n)"
| "float_of_sql (SReal x) = Some x"
| "float_of_sql (SText s) = float_of_text s"

section \<open>JSON scalars\<close>

datatype json = JNull | JBool bool | JInt int | JFloat pyfloat | JStr string

text \<open>Nested values; an object is the dictionary's items in insertion order.\<close>

datatype jvalue = JScalar json | JArray "jvalue list" | JObject "(string \<times> jvalue) list"

text \<open>
  \<open>str()\<close> of a float is the shortest decimal that reads back as the same float, the closest one
  when several are equally short. \<open>repr_digits x e n\<close> searches upwards from \<open>n\<close> significant digits
  for a positive \<open>x\<close> below \<open>10 powi e\<close>; 17 digits always suffice.
\<close>

fun decade :: "nat \<Rightarrow> rat \<Rightarrow> int \<Rightarrow> int" where
  "decade 0 x e = e"
| "decade (Suc k) x e =
     (if 10 powi e \<le> x then decade k x (e + 1)
      else if x < 10 powi (e - 1) then decade k x (e - 1) else e)"

fun repr_digits :: "nat \<Rightarrow> rat \<Rightarrow> int \<Rightarrow> nat \<Rightarrow> int \<times> nat" where
  "repr_digits 0 x e n = (round_even (x * 10 powi (int n - e)), n)"
| "repr_digits (Suc k) x e n =
     (let y = x * 10 powi (int n - e); lo = \<lfloor>y\<rfloor>; hi = \<lceil>y\<rceil>;
          back = (\<lambda>d. rnd (of_int d * 10 powi (e - int n)) = x)
      in if back lo \<and> back hi then (round_even y, n)
         else if back lo then (lo, n) else if back hi then (hi, n) else repr_digits k x e (Suc n))"

definition float_text :: "pyfloat \<Rightarrow> string" where
  "float_text x =
     (if x = 0 then ''0.0''
      else let e = decade 400 \<bar>x\<bar> 0;
               (d, n) = repr_digits 17 \<bar>x\<bar> e 1;
               (e, n, ds) = (if decimal_text d = ''1'' @ replicate n (CHR ''0'') then (e + 1, n, decimal_text d)
                             else (e, n, decimal_text d));
               digits = rev (dropWhile (\<lambda>c. c = CHR ''0'') (rev ds));
               m = length digits
      in (if x < 0 then ''-'' else []) @
         (if - 4 < e \<and> e \<le> 16 then
            (if e \<le> 0 then ''0.'' @ replicate (nat (- e)) (CHR ''0'') @ digits
             else if int m \<le> e then digits @ replicate (nat e - m) (CHR ''0'') @ ''.0''
             else take (nat e) digits @ ''.'' @ drop (nat e) digits)
          else (if m = 1 then digits else take 1 digits @ ''.'' @ drop 1 digits) @ ''e'' @
            (if e - 1 < 0 then ''-'' else ''+'') @
            (let t = decimal_text \<bar>e - 1\<bar> in if length t = 1 then ''0'' @ t else t)))"

text \<open>\<open>str(value)\<close> and \<open>float(value)\<close> of a decoded JSON scalar; \<open>None\<close> where \<open>float\<close> raises.\<close>

fun json_text :: "json \<Rightarrow> string" where
  "json_text JNull = ''None''"
| "json_text (JBool b) = (if b then ''True'' else ''False'')"
| "json_text (JInt n) = int_text n"
| "json_text (JFloat x) = float_text x"
| "json_text (JStr s) = s"

fun float_of_json :: "json \<Rightarrow> pyfloat option" where
  "float_of_json JNull = None"
| "float_of_json (JBool b) = Some (if b then 1 else 0)"
| "float_of_json (JInt n) = Some (float_of n)"
| "float_of_json (JFloat x) = Some x"
| "float_of_json (JStr s) = float_of_text s"

text \<open>The value \<open>sqlite3\<close> binds for a scalar.\<close>

fun sql_of_json :: "json \<Rightarrow> sqlval" where
  "sql_of_json JNull = SNull"
| "sql_of_json (JBool b) = SInt (if b then 1 else 0)"
| "sql_of_json (JInt n) = SInt n"
| "sql_of_json (JFloat x) = SReal x"
| "sql_of_json (JStr s) = SText s"

end
