(* ===== verification/Risk_Gate.thy ===== *)
theory Risk_Gate
  imports Prelude
begin

text \<open>
  \<open>execution/risk.py\<close>: the risk gate, the last check between a wake message and a real order. Its
  state is the deque of wire attempts, the time of the last attempt per ticker and direction, the
  fills not yet covered by a reconciliation, the reconciled positions and the number of dispatches
  in flight. The record \<open>gate\<close> has one field per attribute of \<open>RiskGate\<close>, and every method is a
  function from the old gate to the new one.
\<close>

section \<open>Limits\<close>

definition hour_ms :: ms where "hour_ms = 3600000"
definition day_ms :: ms where "day_ms = 86400000"

text \<open>\<open>event_ticker_of\<close>: drop the strike suffix of a market ticker.\<close>

definition event_ticker_of :: "ticker \<Rightarrow> string" where
  "event_ticker_of market_ticker =
     (if CHR ''-'' \<notin> set market_ticker then market_ticker
      else rsplit_head (CHR ''-'') market_ticker)"

record risk_limits =
  allowed_exchange_indexes :: "int set"
  max_attempts_per_hour :: int
  max_attempts_per_day :: int
  max_attempts_per_ticker_per_day :: int
  max_notional_per_day_dollars :: pyfloat
  max_concurrent_dispatches :: int
  max_position_contracts_per_ticker :: pyfloat
  max_attempts_per_correlation_group_per_day :: int
  max_position_contracts_per_correlation_group :: pyfloat
  max_attempts_per_event_per_day :: int
  max_position_contracts_per_event :: pyfloat
  refire_cooldown_seconds :: pyfloat

text \<open>The dataclass defaults, and \<open>RiskLimits.from_config\<close> over the \<open>risk_*\<close> attributes it reads.\<close>

definition default_limits :: "int set \<Rightarrow> risk_limits" where
  "default_limits allowed =
     \<lparr>allowed_exchange_indexes = allowed,
      max_attempts_per_hour = 10,
      max_attempts_per_day = 50,
      max_attempts_per_ticker_per_day = 5,
      max_notional_per_day_dollars = 50,
      max_concurrent_dispatches = 2,
      max_position_contracts_per_ticker = 5,
      max_attempts_per_correlation_group_per_day = 10,
      max_position_contracts_per_correlation_group = 10,
      max_attempts_per_event_per_day = 6,
      max_position_contracts_per_event = 6,
      refire_cooldown_seconds = 60\<rparr>"

record risk_config =
  risk_max_attempts_per_hour :: int
  risk_max_attempts_per_day :: int
  risk_max_attempts_per_ticker_per_day :: int
  risk_max_notional_per_day_dollars :: pyfloat
  risk_max_concurrent_dispatches :: int
  risk_max_position_contracts_per_ticker :: pyfloat
  risk_max_attempts_per_correlation_group_per_day :: int
  risk_max_position_contracts_per_correlation_group :: pyfloat
  risk_max_attempts_per_event_per_day :: int
  risk_max_position_contracts_per_event :: pyfloat
  risk_refire_cooldown_seconds :: pyfloat

definition from_config :: "risk_config \<Rightarrow> int set \<Rightarrow> risk_limits" where
  "from_config config allowed =
     \<lparr>allowed_exchange_indexes = allowed,
      max_attempts_per_hour = risk_max_attempts_per_hour config,
      max_attempts_per_day = risk_max_attempts_per_day config,
      max_attempts_per_ticker_per_day = risk_max_attempts_per_ticker_per_day config,
      max_notional_per_day_dollars = risk_max_notional_per_day_dollars config,
      max_concurrent_dispatches = risk_max_concurrent_dispatches config,
      max_position_contracts_per_ticker = risk_max_position_contracts_per_ticker config,
      max_attempts_per_correlation_group_per_day =
        risk_max_attempts_per_correlation_group_per_day config,
      max_position_contracts_per_correlation_group =
        risk_max_position_contracts_per_correlation_group config,
      max_attempts_per_event_per_day = risk_max_attempts_per_event_per_day config,
      max_position_contracts_per_event = risk_max_position_contracts_per_event config,
      refire_cooldown_seconds = risk_refire_cooldown_seconds config\<rparr>"

section \<open>The gate\<close>

record attempt =
  attempt_ms :: ms
  attempt_ticker :: ticker
  attempt_group :: string
  attempt_notional :: pyfloat

record fill =
  fill_ms :: ms
  fill_ticker :: ticker
  fill_group :: string
  fill_contracts :: pyfloat

record gate =
  limits :: risk_limits
  attempts :: "attempt list"
  last_attempt_ms :: "ticker \<times> string \<rightharpoonup> ms"
  fills :: "fill list"
  group_by_ticker :: "ticker \<rightharpoonup> string"
  reconciled_by_ticker :: "ticker \<rightharpoonup> pyfloat"
  reconciled_by_group :: "string \<rightharpoonup> pyfloat"
  reconciled_by_event :: "string \<rightharpoonup> pyfloat"
  reconciled_at_ms :: ms
  in_flight :: int

definition new_gate :: "risk_limits \<Rightarrow> gate" where
  "new_gate lims =
     \<lparr>limits = lims, attempts = [], last_attempt_ms = Map.empty, fills = [],
      group_by_ticker = Map.empty, reconciled_by_ticker = Map.empty,
      reconciled_by_group = Map.empty, reconciled_by_event = Map.empty,
      reconciled_at_ms = 0, in_flight = 0\<rparr>"

text \<open>The parameters of \<open>check\<close> that describe the order.\<close>

record order_request =
  rq_ticker :: ticker
  rq_direction :: string
  rq_exchange_index :: int
  rq_count :: int
  rq_price_dollars :: pyfloat
  rq_group :: string

text \<open>
  The rejection reasons of \<open>check\<close>, in the order it tries them, with the values their messages
  print.
\<close>

datatype rejection =
    ShardNotAllowed int
  | TooManyInFlight int
  | CoolingDown string ticker ms
  | HourCap int
  | DayCap int
  | TickerCap ticker int
  | EventCap string int
  | GroupCap string int
  | NotionalCap pyfloat
  | TickerPosition ticker pyfloat
  | EventPosition string pyfloat
  | GroupPosition string pyfloat

section \<open>Counting and positions\<close>

definition count_if :: "('a \<Rightarrow> bool) \<Rightarrow> 'a list \<Rightarrow> int" where
  "count_if P xs = int (length (filter P xs))"

text \<open>\<open>_prune\<close>: pop expired entries off the left ends.\<close>

definition prune :: "ms \<Rightarrow> gate \<Rightarrow> gate" where
  "prune now g =
     (let floor = now - day_ms
      in g\<lparr>attempts := dropWhile (\<lambda>a. attempt_ms a < floor) (attempts g),
           fills := dropWhile (\<lambda>f. fill_ms f < floor) (fills g)\<rparr>)"

definition unconfirmed :: "(fill \<Rightarrow> bool) \<Rightarrow> gate \<Rightarrow> ms \<Rightarrow> pyfloat" where
  "unconfirmed P g now =
     (let window_start = max (reconciled_at_ms g) (now - day_ms)
      in py_sum (map fill_contracts (filter (\<lambda>f. P f \<and> window_start \<le> fill_ms f) (fills g))))"

definition position_for_ticker :: "ticker \<Rightarrow> ms \<Rightarrow> gate \<Rightarrow> pyfloat" where
  "position_for_ticker t now g =
     fadd (get_default (reconciled_by_ticker g) t 0) (unconfirmed (\<lambda>f. fill_ticker f = t) g now)"

definition position_for_event :: "string \<Rightarrow> ms \<Rightarrow> gate \<Rightarrow> pyfloat" where
  "position_for_event e now g =
     fadd (get_default (reconciled_by_event g) e 0)
       (unconfirmed (\<lambda>f. event_ticker_of (fill_ticker f) = e) g now)"

definition position_for_group :: "string \<Rightarrow> ms \<Rightarrow> gate \<Rightarrow> pyfloat" where
  "position_for_group c now g =
     fadd (get_default (reconciled_by_group g) c 0) (unconfirmed (\<lambda>f. fill_group f = c) g now)"

section \<open>\<open>check\<close>\<close>

definition cooldown_reason :: "order_request \<Rightarrow> ms \<Rightarrow> gate \<Rightarrow> rejection option" where
  "cooldown_reason rq now g =
     (case last_attempt_ms g (rq_ticker rq, rq_direction rq) of
        None \<Rightarrow> None
      | Some prev \<Rightarrow>
          if of_int (now - prev) < fmul (refire_cooldown_seconds (limits g)) 1000
          then Some (CoolingDown (rq_direction rq) (rq_ticker rq) (now - prev)) else None)"

text \<open>The attempt caps, on the pruned gate.\<close>

definition attempt_reason :: "order_request \<Rightarrow> ms \<Rightarrow> gate \<Rightarrow> rejection option" where
  "attempt_reason rq now g =
     (let lims = limits g;
          log = attempts g;
          event = event_ticker_of (rq_ticker rq);
          hour = count_if (\<lambda>a. now - hour_ms \<le> attempt_ms a) log;
          day = int (length log);
          tick = count_if (\<lambda>a. attempt_ticker a = rq_ticker rq) log;
          ev = count_if (\<lambda>a. event_ticker_of (attempt_ticker a) = event) log;
          grp = count_if (\<lambda>a. attempt_group a = rq_group rq) log
      in if max_attempts_per_hour lims \<le> hour then Some (HourCap hour)
         else if max_attempts_per_day lims \<le> day then Some (DayCap day)
         else if max_attempts_per_ticker_per_day lims \<le> tick then Some (TickerCap (rq_ticker rq) tick)
         else if max_attempts_per_event_per_day lims \<le> ev then Some (EventCap event ev)
         else if rq_group rq \<noteq> [] \<and> max_attempts_per_correlation_group_per_day lims \<le> grp
           then Some (GroupCap (rq_group rq) grp)
         else None)"

text \<open>The notional and position caps, on the pruned gate.\<close>

definition exposure_reason :: "order_request \<Rightarrow> ms \<Rightarrow> gate \<Rightarrow> rejection option" where
  "exposure_reason rq now g =
     (let lims = limits g;
          event = event_ticker_of (rq_ticker rq);
          count = float_of (rq_count rq);
          notional = fadd (py_sum (map attempt_notional (attempts g)))
                          (fmul count (rq_price_dollars rq));
          tick = fadd (position_for_ticker (rq_ticker rq) now g) count;
          ev = fadd (position_for_event event now g) count;
          grp = fadd (position_for_group (rq_group rq) now g) count
      in if max_notional_per_day_dollars lims < notional then Some (NotionalCap notional)
         else if max_position_contracts_per_ticker lims < tick
           then Some (TickerPosition (rq_ticker rq) tick)
         else if max_position_contracts_per_event lims < ev then Some (EventPosition event ev)
         else if rq_group rq \<noteq> [] \<and> max_position_contracts_per_correlation_group lims < grp
           then Some (GroupPosition (rq_group rq) grp)
         else None)"

text \<open>
  \<open>check\<close> returns the reason for a refusal, if any, and the gate with expired entries pruned; the
  first three tests come before the pruning.
\<close>

definition check :: "order_request \<Rightarrow> ms \<Rightarrow> gate \<Rightarrow> rejection option \<times> gate" where
  "check rq now g =
     (if rq_exchange_index rq \<notin> allowed_exchange_indexes (limits g)
        then (Some (ShardNotAllowed (rq_exchange_index rq)), g)
      else if max_concurrent_dispatches (limits g) \<le> in_flight g
        then (Some (TooManyInFlight (in_flight g)), g)
      else case cooldown_reason rq now g of
        Some r \<Rightarrow> (Some r, g)
      | None \<Rightarrow>
          (let g' = prune now g
           in case attempt_reason rq now g' of
                Some r \<Rightarrow> (Some r, g')
              | None \<Rightarrow> (exposure_reason rq now g', g')))"

section \<open>Recording\<close>

definition record_attempt :: "order_request \<Rightarrow> ms \<Rightarrow> gate \<Rightarrow> gate" where
  "record_attempt rq now g =
     (let g1 = g\<lparr>attempts := attempts g @
                   [\<lparr>attempt_ms = now, attempt_ticker = rq_ticker rq, attempt_group = rq_group rq,
                     attempt_notional = fmul (float_of (rq_count rq)) (rq_price_dollars rq)\<rparr>],
                 last_attempt_ms := (last_attempt_ms g)((rq_ticker rq, rq_direction rq) \<mapsto> now)\<rparr>
      in if rq_group rq \<noteq> []
         then g1\<lparr>group_by_ticker := (group_by_ticker g1)(rq_ticker rq \<mapsto> rq_group rq)\<rparr> else g1)"

definition record_fill :: "ticker \<Rightarrow> pyfloat \<Rightarrow> ms \<Rightarrow> gate \<Rightarrow> gate" where
  "record_fill t fill_count now g =
     (if fill_count \<le> 0 then g
      else g\<lparr>fills := fills g @
               [\<lparr>fill_ms = now, fill_ticker = t,
                 fill_group = get_default (group_by_ticker g) t [],
                 fill_contracts = fill_count\<rparr>]\<rparr>)"

text \<open>
  \<open>reconcile_open_positions\<close>: \<open>open_positions\<close> is the dictionary's items in insertion order, the
  order in which the code adds a group's or an event's contracts up.
\<close>

definition add_to :: "('k \<rightharpoonup> pyfloat) \<Rightarrow> 'k \<Rightarrow> pyfloat \<Rightarrow> ('k \<rightharpoonup> pyfloat)" where
  "add_to m k x = m(k \<mapsto> fadd (get_default m k 0) x)"

fun totals_by :: "(ticker \<Rightarrow> string option) \<Rightarrow> (ticker \<times> pyfloat) list \<Rightarrow>
    (string \<rightharpoonup> pyfloat) \<Rightarrow> (string \<rightharpoonup> pyfloat)" where
  "totals_by key [] m = m"
| "totals_by key ((t, count) # rest) m =
     totals_by key rest (case key t of None \<Rightarrow> m | Some k \<Rightarrow> add_to m k count)"

definition reconcile_open_positions :: "(ticker \<times> pyfloat) list \<Rightarrow> ms \<Rightarrow> gate \<Rightarrow> gate" where
  "reconcile_open_positions open_positions snapshot_at g =
     g\<lparr>reconciled_by_ticker := map_of open_positions,
       reconciled_by_group :=
         totals_by
           (\<lambda>t. let grp = get_default (group_by_ticker g) t [] in if grp = [] then None else Some grp)
           open_positions Map.empty,
       reconciled_by_event := totals_by (\<lambda>t. Some (event_ticker_of t)) open_positions Map.empty,
       reconciled_at_ms := snapshot_at\<rparr>"

definition begin_dispatch :: "gate \<Rightarrow> gate" where
  "begin_dispatch g = g\<lparr>in_flight := in_flight g + 1\<rparr>"

definition end_dispatch :: "gate \<Rightarrow> gate" where
  "end_dispatch g = g\<lparr>in_flight := max 0 (in_flight g - 1)\<rparr>"

section \<open>Warm start\<close>

text \<open>
  A row of \<open>orders_fired\<close> as \<open>warm_start\<close> selects it. Garbage in the numeric text columns counts as
  zero (\<open>_as_float\<close>).
\<close>

record order_summary =
  sel_ticker :: ticker
  sel_group :: "string option"
  sel_side :: string
  sel_count :: sqlval
  sel_price :: sqlval
  sel_fill_count :: sqlval
  sel_requested_at :: ms
  sel_status :: string

definition as_float :: "sqlval \<Rightarrow> pyfloat" where
  "as_float v = (case float_of_sql v of None \<Rightarrow> 0 | Some x \<Rightarrow> x)"

definition select_recent :: "ms \<Rightarrow> order_summary list \<Rightarrow> order_summary list" where
  "select_recent now rows =
     sort_key sel_requested_at
       (filter (\<lambda>r. now - day_ms \<le> sel_requested_at r \<and> sel_status r \<noteq> ''rejected'') rows)"

definition replay_row :: "order_summary \<Rightarrow> gate \<Rightarrow> gate" where
  "replay_row r g =
     (let grp = (case sel_group r of None \<Rightarrow> [] | Some c \<Rightarrow> c);
          ts = sel_requested_at r;
          key = (sel_ticker r, sel_side r);
          g1 = g\<lparr>attempts := attempts g @
                   [\<lparr>attempt_ms = ts, attempt_ticker = sel_ticker r, attempt_group = grp,
                     attempt_notional = fmul (as_float (sel_count r)) (as_float (sel_price r))\<rparr>],
                 last_attempt_ms :=
                   (last_attempt_ms g)(key \<mapsto> max (get_default (last_attempt_ms g) key 0) ts)\<rparr>;
          g2 = (if grp \<noteq> [] then g1\<lparr>group_by_ticker := (group_by_ticker g1)(sel_ticker r \<mapsto> grp)\<rparr>
                else g1);
          fc = as_float (sel_fill_count r)
      in if sel_fill_count r \<noteq> SNull \<and> 0 < fc
         then g2\<lparr>fills := fills g2 @
                   [\<lparr>fill_ms = ts, fill_ticker = sel_ticker r, fill_group = grp,
                     fill_contracts = fc\<rparr>]\<rparr>
         else g2)"

definition warm_start :: "risk_limits \<Rightarrow> order_summary list \<Rightarrow> ms \<Rightarrow> gate" where
  "warm_start lims rows now = fold replay_row (select_recent now rows) (new_gate lims)"

end
