(* ===== verification/Risk_Replay.thy ===== *)
theory Risk_Replay
  imports Risk_Gate
begin

text \<open>
  What \<open>RiskGate.warm_start\<close> makes of the audit trail: one attempt per row of the last day that is
  not a rejection, in time order, and the time of the latest one per ticker and side. A history of
  orders with the times they were recorded at says the same of a gate that is running.
\<close>

section \<open>Histories\<close>

definition attempt_of :: "order_request \<times> ms \<Rightarrow> attempt" where
  "attempt_of x =
     \<lparr>attempt_ms = snd x, attempt_ticker = rq_ticker (fst x), attempt_group = rq_group (fst x),
      attempt_notional = fmul (float_of (rq_count (fst x))) (rq_price_dollars (fst x))\<rparr>"

lemma attempt_of_simps [simp]:
  "attempt_ms (attempt_of x) = snd x"
  "attempt_ticker (attempt_of x) = rq_ticker (fst x)"
  "attempt_group (attempt_of x) = rq_group (fst x)"
  by (simp_all add: attempt_of_def)

definition fire_key :: "order_request \<times> ms \<Rightarrow> ticker \<times> string" where
  "fire_key x = (rq_ticker (fst x), rq_direction (fst x))"

text \<open>The time stored for a ticker and direction is that of its latest entry in the history.\<close>

definition last_of :: "(order_request \<times> ms) list \<Rightarrow> ticker \<times> string \<rightharpoonup> ms" where
  "last_of hist = map_of (rev (map (\<lambda>x. (fire_key x, snd x)) hist))"

lemma last_of_Nil [simp]: "last_of [] = Map.empty"
  by (simp add: last_of_def)

lemma last_of_snoc [simp]: "last_of (hist @ [x]) = (last_of hist)(fire_key x \<mapsto> snd x)"
  by (simp add: last_of_def)

lemma last_of_upper:
  "sorted (map snd hist) \<Longrightarrow> x \<in> set hist \<Longrightarrow> \<exists>prev. last_of hist (fire_key x) = Some prev \<and> snd x \<le> prev"
proof (induction hist rule: rev_induct)
  case (snoc y hist)
  then show ?case by (cases "x = y") (auto simp: sorted_append)
qed simp

lemma last_of_entry: "last_of hist k = Some m \<Longrightarrow> \<exists>x \<in> set hist. fire_key x = k \<and> snd x = m"
  unfolding last_of_def by (drule map_of_SomeD) auto

section \<open>Rows\<close>

definition row_group :: "order_summary \<Rightarrow> string" where
  "row_group r = (case sel_group r of None \<Rightarrow> [] | Some c \<Rightarrow> c)"

definition row_attempt :: "order_summary \<Rightarrow> attempt" where
  "row_attempt r =
     \<lparr>attempt_ms = sel_requested_at r, attempt_ticker = sel_ticker r, attempt_group = row_group r,
      attempt_notional = fmul (as_float (sel_count r)) (as_float (sel_price r))\<rparr>"

definition row_key :: "order_summary \<Rightarrow> ticker \<times> string" where
  "row_key r = (sel_ticker r, sel_side r)"

lemma row_attempt_simps [simp]:
  "attempt_ms (row_attempt r) = sel_requested_at r"
  "attempt_ticker (row_attempt r) = sel_ticker r"
  "attempt_group (row_attempt r) = row_group r"
  by (simp_all add: row_attempt_def)

lemma replay_row_simps [simp]:
  "attempts (replay_row r g) = attempts g @ [row_attempt r]"
  "limits (replay_row r g) = limits g"
  "in_flight (replay_row r g) = in_flight g"
  "reconciled_at_ms (replay_row r g) = reconciled_at_ms g"
  "last_attempt_ms (replay_row r g) = (last_attempt_ms g)
     (row_key r \<mapsto> max (get_default (last_attempt_ms g) (row_key r) 0) (sel_requested_at r))"
  by (simp_all add: replay_row_def row_attempt_def row_key_def row_group_def Let_def)

lemma fold_replay_simps [simp]:
  "attempts (fold replay_row rs g) = attempts g @ map row_attempt rs"
  "limits (fold replay_row rs g) = limits g"
  "in_flight (fold replay_row rs g) = in_flight g"
  by (induction rs arbitrary: g) simp_all

lemma fold_replay_last:
  "(\<exists>r \<in> set rs. row_key r = k \<and> prev \<le> sel_requested_at r) \<or>
     (\<exists>m. last_attempt_ms g k = Some m \<and> prev \<le> m) \<Longrightarrow>
   \<exists>m. last_attempt_ms (fold replay_row rs g) k = Some m \<and> prev \<le> m"
proof (induction rs arbitrary: g)
  case (Cons r rs)
  have "(\<exists>r \<in> set rs. row_key r = k \<and> prev \<le> sel_requested_at r) \<or>
      (\<exists>m. last_attempt_ms (replay_row r g) k = Some m \<and> prev \<le> m)"
    using Cons.prems by (auto simp: get_default_def)
  then show ?case using Cons.IH by simp
qed auto

lemma set_select_recent:
  "set (select_recent now rows) =
     {r \<in> set rows. now - day_ms \<le> sel_requested_at r \<and> sel_status r \<noteq> ''rejected''}"
  by (auto simp: select_recent_def)

lemma sorted_select_recent: "sorted (map sel_requested_at (select_recent now rows))"
  by (simp add: select_recent_def)

text \<open>A fresh gate has nothing to prune: the query has already cut the window.\<close>

lemma warm_attempts:
  "attempts (warm_start lims rows now) = map row_attempt (select_recent now rows)"
  by (simp add: warm_start_def new_gate_def)

lemma warm_pruned:
  "attempts (prune now (warm_start lims rows now)) = map row_attempt (select_recent now rows)"
proof -
  have "\<forall>a \<in> set (attempts (warm_start lims rows now)). now - day_ms \<le> attempt_ms a"
    by (auto simp: warm_attempts set_select_recent)
  then have "dropWhile (\<lambda>a. attempt_ms a < now - day_ms) (attempts (warm_start lims rows now)) =
      attempts (warm_start lims rows now)"
    by (cases "attempts (warm_start lims rows now)") auto
  then show ?thesis by (simp add: prune_def Let_def warm_attempts)
qed

lemma length_filter_sort_key: "length (filter P (sort_key f xs)) = length (filter P xs)"
  by (simp add: filter_sort)

text \<open>
  The orders a gate is restarted from: the rows it selects, each with the order that wrote it,
  stamped by a clock that does not run backwards over the restart.
\<close>

definition wrote :: "order_request \<times> ms \<Rightarrow> order_summary \<Rightarrow> bool" where
  "wrote x r \<longleftrightarrow> row_attempt r = attempt_of x \<and> row_key r = fire_key x"

definition restored :: "(order_request \<times> ms) list \<Rightarrow> order_summary list \<Rightarrow> ms \<Rightarrow> bool" where
  "restored past rows t \<longleftrightarrow>
     list_all2 wrote past (select_recent t rows) \<and> (\<forall>x \<in> set past. 0 \<le> snd x \<and> snd x \<le> t)"

lemma warm_start_nothing [simp]: "warm_start lims [] t = new_gate lims"
  by (simp add: warm_start_def select_recent_def)

lemma restored_nothing [simp]: "restored [] [] t"
  by (simp add: restored_def select_recent_def)

lemma wrote_time: "wrote x r \<Longrightarrow> snd x = sel_requested_at r"
  by (metis attempt_of_simps(1) row_attempt_simps(1) wrote_def)

lemma wrote_all:
  "list_all2 wrote past rs \<Longrightarrow> map attempt_of past = map row_attempt rs \<and> map snd past = map sel_requested_at rs"
  by (induction rule: list_all2_induct) (auto simp: wrote_time, simp_all add: wrote_def)

lemma replay_last_of:
  "list_all2 wrote past rs \<Longrightarrow> sorted (map snd past) \<Longrightarrow> \<forall>x \<in> set past. 0 \<le> snd x \<Longrightarrow>
     last_attempt_ms (fold replay_row rs (new_gate lims)) = last_of past"
proof (induction rs arbitrary: past rule: rev_induct)
  case (snoc r rs)
  then obtain xs x where p: "past = xs @ [x]" "list_all2 wrote xs rs" "wrote x r"
    by (auto simp: list_all2_append2 list_all2_Cons2)
  have IH: "last_attempt_ms (fold replay_row rs (new_gate lims)) = last_of xs"
    using snoc p by (simp add: sorted_append)
  have "get_default (last_of xs) (fire_key x) 0 \<le> snd x"
    using snoc.prems(2,3) last_of_entry [of xs "fire_key x"]
    by (cases "last_of xs (fire_key x)") (fastforce simp: get_default_def p(1) sorted_append)+
  moreover have "row_key r = fire_key x" using p(3) by (simp add: wrote_def)
  ultimately show ?case using p(1) wrote_time [OF p(3)] by (simp add: IH max_absorb2)
qed (simp add: new_gate_def)

lemma restored_sorted: "restored past rows t \<Longrightarrow> sorted (map snd past)"
  using wrote_all sorted_select_recent unfolding restored_def by metis

lemma restored_attempts: "restored past rows t \<Longrightarrow> attempts (warm_start lims rows t) = map attempt_of past"
  using wrote_all unfolding restored_def warm_attempts by metis

lemma restored_last: "restored past rows t \<Longrightarrow> last_attempt_ms (warm_start lims rows t) = last_of past"
  using replay_last_of [OF _ restored_sorted] unfolding restored_def warm_start_def by blast

lemma warm_start_simps [simp]:
  "limits (warm_start lims rows t) = lims"
  "in_flight (warm_start lims rows t) = 0"
  by (simp_all add: warm_start_def new_gate_def)

end
