(* ===== verification/Risk_Invariants.thy ===== *)
theory Risk_Invariants
  imports Risk_Replay
begin

text \<open>
  What the risk gate guarantees. First a declarative reading of \<open>check\<close> over the unpruned state,
  then the runs of a gate as a step relation with the log of admitted orders as history, and from
  it the rolling caps, the cooldown and the concurrency bound for every reachable gate.
\<close>

section \<open>Admission, declaratively\<close>

text \<open>Deques are kept oldest first; pruning is only meaningful on such a gate.\<close>

definition time_ordered :: "gate \<Rightarrow> bool" where
  "time_ordered g \<longleftrightarrow> sorted (map attempt_ms (attempts g)) \<and> sorted (map fill_ms (fills g))"

definition recent :: "ms \<Rightarrow> gate \<Rightarrow> attempt list" where
  "recent now g = filter (\<lambda>a. now - day_ms \<le> attempt_ms a) (attempts g)"

text \<open>Everything that has to hold for an order to go out, with no reference to pruning.\<close>

definition within_caps :: "order_request \<Rightarrow> ms \<Rightarrow> gate \<Rightarrow> bool" where
  "within_caps rq now g \<longleftrightarrow>
     (let lims = limits g; count = float_of (rq_count rq); event = event_ticker_of (rq_ticker rq) in
      rq_exchange_index rq \<in> allowed_exchange_indexes lims \<and>
      in_flight g < max_concurrent_dispatches lims \<and>
      (\<forall>prev. last_attempt_ms g (rq_ticker rq, rq_direction rq) = Some prev \<longrightarrow>
         fmul (refire_cooldown_seconds lims) 1000 \<le> of_int (now - prev)) \<and>
      count_if (\<lambda>a. now - hour_ms \<le> attempt_ms a) (attempts g) < max_attempts_per_hour lims \<and>
      int (length (recent now g)) < max_attempts_per_day lims \<and>
      count_if (\<lambda>a. attempt_ticker a = rq_ticker rq) (recent now g)
        < max_attempts_per_ticker_per_day lims \<and>
      count_if (\<lambda>a. event_ticker_of (attempt_ticker a) = event) (recent now g)
        < max_attempts_per_event_per_day lims \<and>
      (rq_group rq \<noteq> [] \<longrightarrow>
         count_if (\<lambda>a. attempt_group a = rq_group rq) (recent now g)
           < max_attempts_per_correlation_group_per_day lims) \<and>
      fadd (py_sum (map attempt_notional (recent now g))) (fmul count (rq_price_dollars rq))
        \<le> max_notional_per_day_dollars lims \<and>
      fadd (position_for_ticker (rq_ticker rq) now g) count
        \<le> max_position_contracts_per_ticker lims \<and>
      fadd (position_for_event event now g) count \<le> max_position_contracts_per_event lims \<and>
      (rq_group rq \<noteq> [] \<longrightarrow>
         fadd (position_for_group (rq_group rq) now g) count
           \<le> max_position_contracts_per_correlation_group lims))"

lemma day_hour: "hour_ms \<le> day_ms" "0 < hour_ms" "0 < day_ms"
  by (simp_all add: hour_ms_def day_ms_def)

lemma prune_simps [simp]:
  "limits (prune now g) = limits g"
  "last_attempt_ms (prune now g) = last_attempt_ms g"
  "group_by_ticker (prune now g) = group_by_ticker g"
  "reconciled_by_ticker (prune now g) = reconciled_by_ticker g"
  "reconciled_by_group (prune now g) = reconciled_by_group g"
  "reconciled_by_event (prune now g) = reconciled_by_event g"
  "reconciled_at_ms (prune now g) = reconciled_at_ms g"
  "in_flight (prune now g) = in_flight g"
  by (simp_all add: prune_def Let_def)

lemma attempts_prune: "time_ordered g \<Longrightarrow> attempts (prune now g) = recent now g"
  by (simp add: time_ordered_def prune_def recent_def Let_def dropWhile_eq_filter)

lemma fills_prune:
  "time_ordered g \<Longrightarrow> fills (prune now g) = filter (\<lambda>f. now - day_ms \<le> fill_ms f) (fills g)"
  by (simp add: time_ordered_def prune_def Let_def dropWhile_eq_filter)

lemma time_ordered_prune: "time_ordered g \<Longrightarrow> time_ordered (prune now g)"
  by (simp add: time_ordered_def prune_def Let_def sorted_map_dropWhile)

lemma unconfirmed_prune: "time_ordered g \<Longrightarrow> unconfirmed P (prune now g) now = unconfirmed P g now"
proof -
  assume "time_ordered g"
  then have "filter (\<lambda>f. P f \<and> max (reconciled_at_ms g) (now - day_ms) \<le> fill_ms f) (fills (prune now g))
      = filter (\<lambda>f. P f \<and> max (reconciled_at_ms g) (now - day_ms) \<le> fill_ms f) (fills g)"
    by (auto simp: fills_prune intro: filter_cong)
  then show ?thesis by (simp add: unconfirmed_def Let_def)
qed

lemma position_prune:
  assumes "time_ordered g"
  shows "position_for_ticker t now (prune now g) = position_for_ticker t now g"
    and "position_for_event e now (prune now g) = position_for_event e now g"
    and "position_for_group c now (prune now g) = position_for_group c now g"
  using unconfirmed_prune [OF assms]
  by (simp_all add: position_for_ticker_def position_for_event_def position_for_group_def)

lemma count_if_recent_hour:
  "count_if (\<lambda>a. now - hour_ms \<le> attempt_ms a) (recent now g) =
   count_if (\<lambda>a. now - hour_ms \<le> attempt_ms a) (attempts g)"
proof -
  have "filter (\<lambda>a. now - hour_ms \<le> attempt_ms a) (recent now g) =
      filter (\<lambda>a. now - hour_ms \<le> attempt_ms a) (attempts g)"
    using day_hour unfolding recent_def filter_filter by (intro filter_cong) auto
  then show ?thesis by (simp add: count_if_def)
qed

lemma check_None_iff:
  "fst (check rq now g) = None \<longleftrightarrow>
     rq_exchange_index rq \<in> allowed_exchange_indexes (limits g) \<and>
     in_flight g < max_concurrent_dispatches (limits g) \<and>
     cooldown_reason rq now g = None \<and>
     attempt_reason rq now (prune now g) = None \<and>
     exposure_reason rq now (prune now g) = None"
  by (auto simp: check_def Let_def split: option.splits)

lemma cooldown_None_iff:
  "cooldown_reason rq now g = None \<longleftrightarrow>
     (\<forall>prev. last_attempt_ms g (rq_ticker rq, rq_direction rq) = Some prev \<longrightarrow>
        fmul (refire_cooldown_seconds (limits g)) 1000 \<le> of_int (now - prev))"
  by (auto simp: cooldown_reason_def not_less split: option.splits)

lemma attempt_None_iff:
  "attempt_reason rq now g = None \<longleftrightarrow>
     count_if (\<lambda>a. now - hour_ms \<le> attempt_ms a) (attempts g) < max_attempts_per_hour (limits g) \<and>
     int (length (attempts g)) < max_attempts_per_day (limits g) \<and>
     count_if (\<lambda>a. attempt_ticker a = rq_ticker rq) (attempts g)
       < max_attempts_per_ticker_per_day (limits g) \<and>
     count_if (\<lambda>a. event_ticker_of (attempt_ticker a) = event_ticker_of (rq_ticker rq)) (attempts g)
       < max_attempts_per_event_per_day (limits g) \<and>
     (rq_group rq \<noteq> [] \<longrightarrow>
        count_if (\<lambda>a. attempt_group a = rq_group rq) (attempts g)
          < max_attempts_per_correlation_group_per_day (limits g))"
  by (auto simp: attempt_reason_def Let_def not_le)

lemma exposure_None_iff:
  "exposure_reason rq now g = None \<longleftrightarrow>
     fadd (py_sum (map attempt_notional (attempts g)))
       (fmul (float_of (rq_count rq)) (rq_price_dollars rq)) \<le> max_notional_per_day_dollars (limits g) \<and>
     fadd (position_for_ticker (rq_ticker rq) now g) (float_of (rq_count rq))
       \<le> max_position_contracts_per_ticker (limits g) \<and>
     fadd (position_for_event (event_ticker_of (rq_ticker rq)) now g) (float_of (rq_count rq))
       \<le> max_position_contracts_per_event (limits g) \<and>
     (rq_group rq \<noteq> [] \<longrightarrow>
        fadd (position_for_group (rq_group rq) now g) (float_of (rq_count rq))
          \<le> max_position_contracts_per_correlation_group (limits g))"
  by (auto simp: exposure_reason_def Let_def not_less)

text \<open>A concrete order for the witnesses, and the equations that evaluate the gate on it.\<close>

definition sample_order :: order_request where
  "sample_order =
     \<lparr>rq_ticker = ''BTC-26-T1'', rq_direction = ''yes'', rq_exchange_index = 0, rq_count = 1,
      rq_price_dollars = 1 / 2, rq_group = ''btc''\<rparr>"

lemma rnd_half: "rnd (1 / 2) = 1 / 2"
  by code_simp

lemma rnd_ints: "rnd 2 = 2" "rnd 60000 = 60000" "rnd (- 1) = - 1"
  using rnd_of_int [of 2] rnd_of_int [of 60000] rnd_of_int [of "- 1"] by simp_all

lemmas sample_simps = sample_order_def begin_dispatch_def end_dispatch_def record_attempt_def
  record_fill_def new_gate_def default_limits_def check_def cooldown_reason_def attempt_reason_def
  exposure_reason_def prune_def count_if_def unconfirmed_def position_for_ticker_def
  position_for_event_def position_for_group_def py_sum_def f64_ops rnd_half rnd_ints
  event_ticker_of_def rsplit_head_def hour_ms_def day_ms_def Let_def get_default_def

lemma sample_check: "fst (check sample_order 100000 (new_gate (default_limits {0}))) = None"
  by (simp add: sample_simps)

text \<open>C4. On a gate whose deques are in time order, check() allows an order exactly when every cap
  holds of the unpruned state: the shard is allowed, fewer dispatches are in flight than the
  limit, the cooldown of the ticker and direction has passed, and each attempt, notional and
  position cap has room. Pruning and the order of the tests change nothing.\<close>
theorem check_allows_iff_within_caps:
  assumes "time_ordered g"
  shows "fst (check rq now g) = None \<longleftrightarrow> within_caps rq now g"
  using assms
  by (simp add: check_None_iff cooldown_None_iff attempt_None_iff exposure_None_iff
      within_caps_def Let_def attempts_prune position_prune count_if_recent_hour)

theorem check_allows_iff_within_caps_witness:
  "time_ordered (new_gate (default_limits {0})) \<and>
   within_caps sample_order 100000 (new_gate (default_limits {0}))"
proof -
  have o: "time_ordered (new_gate (default_limits {0}))" by (simp add: time_ordered_def new_gate_def)
  show ?thesis using check_allows_iff_within_caps [OF o] sample_check o by blast
qed

section \<open>Runs of the gate\<close>

text \<open>
  The executor drives the gate in steps: an order is checked and, when admitted, recorded and
  counted in flight before anything else runs; a refusal only prunes; a dispatch resolves, with or
  without a fill; the account monitor reconciles. It starts with the gate \<open>warm_start\<close> builds from
  the rows of the orders \<open>past\<close>. The log is the list of orders admitted since, with the time they were
  recorded at, oldest first; the last argument is the clock, which never runs backwards.
\<close>

definition admit :: "order_request \<Rightarrow> ms \<Rightarrow> gate \<Rightarrow> gate" where
  "admit rq now g = begin_dispatch (record_attempt rq now g)"

inductive gate_run ::
    "risk_limits \<Rightarrow> (order_request \<times> ms) list \<Rightarrow> gate \<Rightarrow> (order_request \<times> ms) list \<Rightarrow> ms \<Rightarrow> bool"
  for lims past where
  boot: "restored past rows t \<Longrightarrow> gate_run lims past (warm_start lims rows t) [] t"
| admitted: "gate_run lims past g hist t \<Longrightarrow> t \<le> now \<Longrightarrow> now \<le> now' \<Longrightarrow> check rq now g = (None, g') \<Longrightarrow>
     gate_run lims past (admit rq now' g') (hist @ [(rq, now')]) now'"
| refused: "gate_run lims past g hist t \<Longrightarrow> t \<le> now \<Longrightarrow> check rq now g = (Some r, g') \<Longrightarrow>
     gate_run lims past g' hist now"
| filled: "gate_run lims past g hist t \<Longrightarrow> t \<le> now \<Longrightarrow>
     gate_run lims past (end_dispatch (record_fill tk fc now g)) hist now"
| failed: "gate_run lims past g hist t \<Longrightarrow> gate_run lims past (end_dispatch g) hist t"
| reconciled: "gate_run lims past g hist t \<Longrightarrow>
     gate_run lims past (reconcile_open_positions ps snap g) hist t"

lemma run_boot: "gate_run lims [] (new_gate lims) [] t"
  using gate_run.boot [of "[]" "[]" t lims] by simp

lemma admit_simps [simp]:
  "limits (admit rq now g) = limits g"
  "attempts (admit rq now g) = attempts g @ [attempt_of (rq, now)]"
  "last_attempt_ms (admit rq now g) = (last_attempt_ms g)((rq_ticker rq, rq_direction rq) \<mapsto> now)"
  "fills (admit rq now g) = fills g"
  "in_flight (admit rq now g) = in_flight g + 1"
  "reconciled_at_ms (admit rq now g) = reconciled_at_ms g"
  "reconciled_by_ticker (admit rq now g) = reconciled_by_ticker g"
  "reconciled_by_event (admit rq now g) = reconciled_by_event g"
  by (simp_all add: admit_def begin_dispatch_def record_attempt_def attempt_of_def Let_def)

lemma record_fill_simps [simp]:
  "limits (record_fill tk fc now g) = limits g"
  "attempts (record_fill tk fc now g) = attempts g"
  "last_attempt_ms (record_fill tk fc now g) = last_attempt_ms g"
  "in_flight (record_fill tk fc now g) = in_flight g"
  "reconciled_by_ticker (record_fill tk fc now g) = reconciled_by_ticker g"
  "reconciled_by_event (record_fill tk fc now g) = reconciled_by_event g"
  "reconciled_by_group (record_fill tk fc now g) = reconciled_by_group g"
  "reconciled_at_ms (record_fill tk fc now g) = reconciled_at_ms g"
  by (simp_all add: record_fill_def)

lemma end_dispatch_simps [simp]:
  "limits (end_dispatch g) = limits g"
  "attempts (end_dispatch g) = attempts g"
  "last_attempt_ms (end_dispatch g) = last_attempt_ms g"
  "fills (end_dispatch g) = fills g"
  "in_flight (end_dispatch g) = max 0 (in_flight g - 1)"
  by (simp_all add: end_dispatch_def)

lemma reconcile_simps [simp]:
  "limits (reconcile_open_positions ps snap g) = limits g"
  "attempts (reconcile_open_positions ps snap g) = attempts g"
  "last_attempt_ms (reconcile_open_positions ps snap g) = last_attempt_ms g"
  "fills (reconcile_open_positions ps snap g) = fills g"
  "in_flight (reconcile_open_positions ps snap g) = in_flight g"
  by (simp_all add: reconcile_open_positions_def)

lemma check_gate: "snd (check rq now g) = g \<or> snd (check rq now g) = prune now g"
  by (auto simp: check_def Let_def split: option.splits)

lemma check_None_gate: "check rq now g = (None, g') \<Longrightarrow> g' = prune now g"
  by (auto simp: check_def Let_def split: option.splits if_splits)

lemma check_frame:
  assumes "check rq now g = (r, g')"
  shows "limits g' = limits g" "last_attempt_ms g' = last_attempt_ms g" "in_flight g' = in_flight g"
  using check_gate [of rq now g] assms by auto

text \<open>
  The history invariant. The deque agrees with the log on everything not yet expired, which is all
  the caps look at; what was pruned is older than a day.
\<close>

definition follows :: "gate \<Rightarrow> (order_request \<times> ms) list \<Rightarrow> ms \<Rightarrow> bool" where
  "follows g hist t \<longleftrightarrow>
     sorted (map attempt_ms (attempts g)) \<and> sorted (map snd hist) \<and> (\<forall>x \<in> set hist. snd x \<le> t) \<and>
     (\<forall>c \<ge> t - day_ms. filter (\<lambda>a. c \<le> attempt_ms a) (attempts g) =
        map attempt_of (filter (\<lambda>x. c \<le> snd x) hist))"

lemma follows_later: "follows g hist t \<Longrightarrow> t \<le> t' \<Longrightarrow> follows g hist t'"
  by (fastforce simp: follows_def)

lemma follows_attempts: "follows g hist t \<Longrightarrow> attempts g' = attempts g \<Longrightarrow> follows g' hist t"
  by (simp add: follows_def)

lemma follows_prune:
  assumes "follows g hist t" "t \<le> now"
  shows "follows (prune now g) hist now"
    and "attempts (prune now g) = map attempt_of (filter (\<lambda>x. now - day_ms \<le> snd x) hist)"
proof -
  note F = follows_later [OF assms, unfolded follows_def]
  have eq: "attempts (prune now g) = filter (\<lambda>a. now - day_ms \<le> attempt_ms a) (attempts g)"
    using F by (simp add: prune_def Let_def dropWhile_eq_filter)
  with F show "attempts (prune now g) = map attempt_of (filter (\<lambda>x. now - day_ms \<le> snd x) hist)"
    by simp
  have "filter (\<lambda>a. c \<le> attempt_ms a) (attempts (prune now g)) = filter (\<lambda>a. c \<le> attempt_ms a) (attempts g)"
    if "now - day_ms \<le> c" for c
    unfolding eq filter_filter using that by (intro filter_cong) auto
  moreover have "sorted (map attempt_ms (attempts (prune now g)))"
    using F by (simp add: prune_def Let_def sorted_map_dropWhile)
  ultimately show "follows (prune now g) hist now" using F by (simp add: follows_def)
qed

lemma follows_admit:
  assumes "follows g hist t" "t \<le> now"
  shows "follows (admit rq now g) (hist @ [(rq, now)]) now"
proof -
  note F = assms(1)[unfolded follows_def]
  have le_now: "\<forall>a \<in> set (attempts g). attempt_ms a \<le> now"
  proof
    fix a assume a: "a \<in> set (attempts g)"
    show "attempt_ms a \<le> now"
    proof (cases "t - day_ms \<le> attempt_ms a")
      case True
      then have "a \<in> set (filter (\<lambda>a. t - day_ms \<le> attempt_ms a) (attempts g))"
        using a by simp
      then have "a \<in> set (map attempt_of (filter (\<lambda>x. t - day_ms \<le> snd x) hist))"
        using F by (metis order_refl)
      then show ?thesis using F assms(2) by fastforce
    next
      case False
      then show ?thesis using assms(2) day_hour by linarith
    qed
  qed
  show ?thesis unfolding follows_def
    using F le_now assms(2) by (fastforce simp: sorted_append)
qed

lemma gate_run_limits: "gate_run lims past g hist t \<Longrightarrow> limits g = lims"
  by (induction rule: gate_run.induct) (auto simp: check_frame)

lemma gate_run_follows: "gate_run lims past g hist t \<Longrightarrow> follows g (past @ hist) t"
proof (induction rule: gate_run.induct)
  case (boot rows t)
  then show ?case using wrote_all restored_sorted [OF boot] sorted_select_recent
    by (fastforce simp: follows_def restored_attempts [OF boot] filter_map comp_def restored_def)
next
  case (admitted g hist t now now' rq g')
  then have "follows g' (past @ hist) now" using follows_prune(1) check_None_gate by blast
  then show ?case using admitted follows_admit by fastforce
next
  case (refused g hist t now rq r g')
  then have "follows g (past @ hist) now" "follows (prune now g) (past @ hist) now"
    using follows_later follows_prune(1) by blast+
  then show ?case using check_gate [of rq now g] refused by auto
next
  case (filled g hist t now tk fc)
  then have "follows g (past @ hist) now" by (auto intro: follows_later)
  then show ?case by (rule follows_attempts) simp
qed (auto intro: follows_attempts)

definition sample_gate1 :: gate where
  "sample_gate1 = admit sample_order 100000 (snd (check sample_order 100000 (new_gate (default_limits {0}))))"

definition sample_gate2 :: gate where
  "sample_gate2 = end_dispatch (record_fill ''BTC-26-T1'' 1 100900 sample_gate1)"

definition sample_gate3 :: gate where
  "sample_gate3 = admit sample_order 200000 (snd (check sample_order 200000 sample_gate2))"

lemma run_admit:
  "gate_run lims past g hist t \<Longrightarrow> t \<le> now \<Longrightarrow> now \<le> now' \<Longrightarrow> fst (check rq now g) = None \<Longrightarrow>
     gate_run lims past (admit rq now' (snd (check rq now g))) (hist @ [(rq, now')]) now'"
  by (erule gate_run.admitted) (auto intro: prod_eqI)

lemma sample_pruned: "snd (check sample_order 100000 (new_gate lims)) = new_gate lims"
  using check_gate [of sample_order 100000 "new_gate lims"] by (auto simp: prune_def new_gate_def)

lemma sample_checks:
  "fst (check sample_order 200000 sample_gate2) = None"
  unfolding sample_gate2_def sample_gate1_def sample_pruned admit_def by (simp add: sample_simps)

lemma sample_run1: "gate_run (default_limits {0}) [] sample_gate1 [(sample_order, 100000)] 100000"
  unfolding sample_gate1_def
  using run_admit [OF run_boot [of "default_limits {0}" 0] _ order_refl sample_check] by simp

lemma sample_run:
  "gate_run (default_limits {0}) [] sample_gate3 [(sample_order, 100000), (sample_order, 200000)] 200000"
proof -
  have "gate_run (default_limits {0}) [] sample_gate2 [(sample_order, 100000)] 100900"
    unfolding sample_gate2_def by (rule gate_run.filled [OF sample_run1]) simp
  then show ?thesis unfolding sample_gate3_def
    using run_admit [OF _ _ order_refl sample_checks] by fastforce
qed

lemmas gate_run_history = gate_run_follows gate_run_limits

section \<open>Rolling caps\<close>

text \<open>What an admission says of the log: each count over the trailing window is below its cap.\<close>

lemma count_log:
  assumes "follows g hist t" "t \<le> now"
  shows "count_if Q (attempts (prune now g)) =
    int (length (filter (\<lambda>x. now - day_ms \<le> snd x \<and> Q (attempt_of x)) hist))"
  unfolding count_if_def follows_prune(2) [OF assms] filter_map length_map filter_filter
  by (simp add: o_def conj_commute)

lemma admitted_counts:
  assumes "gate_run lims past g hist t" "t \<le> now" "check rq now g = (None, g')"
  shows "int (length (filter (\<lambda>x. now - hour_ms \<le> snd x) (past @ hist))) < max_attempts_per_hour lims"
    and "int (length (filter (\<lambda>x. now - day_ms \<le> snd x) (past @ hist))) < max_attempts_per_day lims"
    and "int (length (filter (\<lambda>x. now - day_ms \<le> snd x \<and> rq_ticker (fst x) = rq_ticker rq) (past @ hist)))
      < max_attempts_per_ticker_per_day lims"
    and "int (length (filter (\<lambda>x. now - day_ms \<le> snd x \<and>
        event_ticker_of (rq_ticker (fst x)) = event_ticker_of (rq_ticker rq)) (past @ hist)))
      < max_attempts_per_event_per_day lims"
    and "rq_group rq \<noteq> [] \<Longrightarrow>
      int (length (filter (\<lambda>x. now - day_ms \<le> snd x \<and> rq_group (fst x) = rq_group rq) (past @ hist)))
      < max_attempts_per_correlation_group_per_day lims"
proof -
  note F = gate_run_follows [OF assms(1)] and L = gate_run_limits [OF assms(1)]
  have R: "attempt_reason rq now (prune now g) = None"
    using assms(3) check_None_iff [of rq now g] by simp
  note A = R [unfolded attempt_None_iff count_log [OF F assms(2)] prune_simps L]
  have hour: "filter (\<lambda>x. now - day_ms \<le> snd x \<and> now - hour_ms \<le> attempt_ms (attempt_of x)) (past @ hist)
      = filter (\<lambda>x. now - hour_ms \<le> snd x) (past @ hist)"
    using day_hour by (intro filter_cong) auto
  show "int (length (filter (\<lambda>x. now - hour_ms \<le> snd x) (past @ hist))) < max_attempts_per_hour lims"
    using A unfolding hour by simp
  show "int (length (filter (\<lambda>x. now - day_ms \<le> snd x) (past @ hist))) < max_attempts_per_day lims"
    using A by (simp add: follows_prune(2) [OF F assms(2)])
  show "int (length (filter (\<lambda>x. now - day_ms \<le> snd x \<and> rq_ticker (fst x) = rq_ticker rq) (past @ hist)))
      < max_attempts_per_ticker_per_day lims" using A by simp
  show "int (length (filter (\<lambda>x. now - day_ms \<le> snd x \<and>
        event_ticker_of (rq_ticker (fst x)) = event_ticker_of (rq_ticker rq)) (past @ hist)))
      < max_attempts_per_event_per_day lims" using A by simp
  show "rq_group rq \<noteq> [] \<Longrightarrow>
      int (length (filter (\<lambda>x. now - day_ms \<le> snd x \<and> rq_group (fst x) = rq_group rq) (past @ hist)))
      < max_attempts_per_correlation_group_per_day lims" using A by simp
qed

text \<open>
  A cap is kept over a restart: no window, wherever it starts, holds more orders than the cap,
  those of the earlier process included; where the earlier process left more than that, nothing is
  added.
\<close>

definition keeps_cap ::
    "(order_request \<times> ms) list \<Rightarrow> (order_request \<times> ms \<Rightarrow> bool) \<Rightarrow> ms \<Rightarrow> int \<Rightarrow> (order_request \<times> ms) list \<Rightarrow> bool" where
  "keeps_cap past P w cap new \<longleftrightarrow>
     (\<forall>h. in_window snd P w h (past @ new) \<le> max (nat cap) (in_window snd P w h past))"

lemma keeps_cap_alone: "keeps_cap [] P w cap new \<Longrightarrow> in_window snd P w h new \<le> nat cap"
  by (simp add: keeps_cap_def)

text \<open>From one admission to all windows: rule induction with the step of the prelude.\<close>

lemma rolling_cap:
  assumes "gate_run lims past g hist t"
    and step: "\<And>g hist t rq now now' g'. gate_run lims past g hist t \<Longrightarrow> t \<le> now \<Longrightarrow>
      check rq now g = (None, g') \<Longrightarrow> P (rq, now') \<Longrightarrow>
      int (length (filter (\<lambda>y. now - w \<le> snd y \<and> P y) (past @ hist))) < cap"
  shows "keeps_cap past P w cap hist"
  using assms(1)
proof (induction rule: gate_run.induct)
  case (admitted g hist t now now' rq g')
  show ?case unfolding keeps_cap_def append_assoc [symmetric]
  proof
    fix h
    show "in_window snd P w h ((past @ hist) @ [(rq, now')]) \<le> max (nat cap) (in_window snd P w h past)"
    proof (rule in_window_snoc_le [where t = now])
      show "in_window snd P w h (past @ hist) \<le> max (nat cap) (in_window snd P w h past)"
        using admitted.IH by (simp add: keeps_cap_def)
      show "length (filter (\<lambda>y. now - w \<le> snd y \<and> P y) (past @ hist)) < max (nat cap) (in_window snd P w h past)"
        if "P (rq, now')" using step [OF admitted.hyps(1,2,4) that] by simp
    qed (use admitted.hyps in simp)
  qed
qed (simp_all add: keeps_cap_def)

lemma run_hour_cap:
  assumes "gate_run lims past g hist t"
  shows "keeps_cap past (\<lambda>_. True) hour_ms (max_attempts_per_hour lims) hist"
  by (rule rolling_cap [OF assms]) (use admitted_counts(1) in simp)

lemma run_day_caps:
  assumes "gate_run lims past g hist t"
  shows "keeps_cap past (\<lambda>_. True) day_ms (max_attempts_per_day lims) hist \<and>
    keeps_cap past (\<lambda>x. rq_ticker (fst x) = tk) day_ms (max_attempts_per_ticker_per_day lims) hist \<and>
    keeps_cap past (\<lambda>x. event_ticker_of (rq_ticker (fst x)) = ev) day_ms (max_attempts_per_event_per_day lims) hist \<and>
    (grp = [] \<or> keeps_cap past (\<lambda>x. rq_group (fst x) = grp) day_ms
      (max_attempts_per_correlation_group_per_day lims) hist)"
proof (intro conjI)
  show "keeps_cap past (\<lambda>_. True) day_ms (max_attempts_per_day lims) hist"
    by (rule rolling_cap [OF assms]) (use admitted_counts(2) in simp)
  show "keeps_cap past (\<lambda>x. rq_ticker (fst x) = tk) day_ms (max_attempts_per_ticker_per_day lims) hist"
    by (rule rolling_cap [OF assms]) (use admitted_counts(3) in force)
  show "keeps_cap past (\<lambda>x. event_ticker_of (rq_ticker (fst x)) = ev) day_ms (max_attempts_per_event_per_day lims) hist"
    by (rule rolling_cap [OF assms]) (use admitted_counts(4) in force)
  show "grp = [] \<or> keeps_cap past (\<lambda>x. rq_group (fst x) = grp) day_ms
      (max_attempts_per_correlation_group_per_day lims) hist"
  proof (cases "grp = []")
    case False
    have "keeps_cap past (\<lambda>x. rq_group (fst x) = grp) day_ms (max_attempts_per_correlation_group_per_day lims) hist"
      by (rule rolling_cap [OF assms]) (use False admitted_counts(5) in force)
    then show ?thesis ..
  qed simp
qed

text \<open>In every run of the gate no window of one hour, wherever it starts, holds more admitted
  orders than max_attempts_per_hour, those it was restarted from included.\<close>
theorem hour_cap_rolling:
  assumes "gate_run lims past g hist t"
  shows "keeps_cap past (\<lambda>_. True) hour_ms (max_attempts_per_hour lims) hist"
  using assms by (rule run_hour_cap)

theorem hour_cap_rolling_witness:
  "in_window snd (\<lambda>_. True) hour_ms 0 [(sample_order, 100000), (sample_order, 200000)] \<le>
     nat (max_attempts_per_hour (default_limits {0})) \<and>
   in_window snd (\<lambda>_. True) hour_ms 0 [(sample_order, 100000), (sample_order, 200000)] = 2"
  using keeps_cap_alone [OF hour_cap_rolling [OF sample_run], of 0] by (simp add: in_window_def hour_ms_def)

text \<open>In every run of the gate no window of 24 hours holds more admitted orders than the daily
  cap, nor more on one ticker, across one event or, for a known group, across one correlation
  group than the respective caps, those it was restarted from included.\<close>
theorem day_caps_rolling:
  assumes "gate_run lims past g hist t"
  shows "keeps_cap past (\<lambda>_. True) day_ms (max_attempts_per_day lims) hist \<and>
    keeps_cap past (\<lambda>x. rq_ticker (fst x) = tk) day_ms (max_attempts_per_ticker_per_day lims) hist \<and>
    keeps_cap past (\<lambda>x. event_ticker_of (rq_ticker (fst x)) = ev) day_ms (max_attempts_per_event_per_day lims) hist \<and>
    (grp = [] \<or> keeps_cap past (\<lambda>x. rq_group (fst x) = grp) day_ms
      (max_attempts_per_correlation_group_per_day lims) hist)"
  using assms by (rule run_day_caps)

theorem day_caps_rolling_witness:
  "in_window snd (\<lambda>x. rq_ticker (fst x) = ''BTC-26-T1'') day_ms 0
     [(sample_order, 100000), (sample_order, 200000)] \<le> 5"
  using day_caps_rolling [OF sample_run, where tk = "''BTC-26-T1''"]
    keeps_cap_alone [of "\<lambda>x. rq_ticker (fst x) = ''BTC-26-T1''" day_ms 5] by (simp add: default_limits_def)

section \<open>Cooldown and concurrency\<close>

lemma gate_run_last: "gate_run lims past g hist t \<Longrightarrow> last_attempt_ms g = last_of (past @ hist)"
proof (induction rule: gate_run.induct)
  case (boot rows t)
  then show ?case by (simp add: restored_last)
next
  case (admitted g hist t now now' rq g')
  then show ?case using last_of_snoc [of "past @ hist"] by (simp add: fire_key_def check_frame)
next
  case (refused g hist t now rq r g')
  then show ?case using check_gate [of rq now g] by auto
qed simp_all

lemma gate_run_sorted: "gate_run lims past g hist t \<Longrightarrow> sorted (map snd (past @ hist))"
  using gate_run_follows unfolding follows_def by blast

definition spaced :: "pyfloat \<Rightarrow> order_request \<times> ms \<Rightarrow> order_request \<times> ms \<Rightarrow> bool" where
  "spaced seconds x y \<longleftrightarrow>
     fire_key x \<noteq> fire_key y \<or> fmul seconds 1000 \<le> of_int (snd y - snd x)"

lemma run_cooldown:
  assumes "gate_run lims past g hist t"
  shows "sorted_wrt (spaced (refire_cooldown_seconds lims)) hist \<and>
    (\<forall>x \<in> set past. \<forall>y \<in> set hist. spaced (refire_cooldown_seconds lims) x y)"
  using assms
proof (induction rule: gate_run.induct)
  case (admitted g hist t now now' rq g')
  have "spaced (refire_cooldown_seconds lims) x (rq, now')" if x: "x \<in> set (past @ hist)" for x
  proof (cases "fire_key x = (rq_ticker rq, rq_direction rq)")
    case True
    obtain prev where "last_of (past @ hist) (fire_key x) = Some prev" "snd x \<le> prev"
      using last_of_upper [OF gate_run_sorted x] admitted.hyps(1) by blast
    moreover have "fst (check rq now g) = None" using admitted.hyps by simp
    ultimately have "fmul (refire_cooldown_seconds lims) 1000 \<le> of_int (now - prev)"
      using True gate_run_last [OF admitted.hyps(1)] gate_run_limits [OF admitted.hyps(1)]
      by (simp add: check_None_iff cooldown_None_iff)
    also have "(of_int (now - prev) :: rat) \<le> of_int (now' - snd x)"
      using \<open>snd x \<le> prev\<close> admitted.hyps by (simp only: of_int_le_iff)
    finally show ?thesis by (simp add: spaced_def)
  qed (simp add: spaced_def fire_key_def)
  then show ?case using admitted.IH by (auto simp: sorted_wrt_append)
qed simp_all

text \<open>In every run of the gate two admitted orders on the same ticker and direction are at least
  the cooldown apart, however many other orders lie between them and whether or not a restart does.\<close>
theorem cooldown_spacing:
  assumes "gate_run lims past g hist t"
  shows "sorted_wrt (spaced (refire_cooldown_seconds lims)) hist \<and>
    (\<forall>x \<in> set past. \<forall>y \<in> set hist. spaced (refire_cooldown_seconds lims) x y)"
  using assms by (rule run_cooldown)

theorem cooldown_spacing_witness:
  "sorted_wrt (spaced 60) [(sample_order, 100000), (sample_order, 200000)]"
  using cooldown_spacing [OF sample_run] by (simp add: default_limits_def)

lemma run_in_flight:
  assumes "gate_run lims past g hist t"
  shows "0 \<le> in_flight g \<and> in_flight g \<le> max 0 (max_concurrent_dispatches lims)"
  using assms
proof (induction rule: gate_run.induct)
  case (admitted g hist t now now' rq g')
  have "fst (check rq now g) = None" using admitted.hyps by simp
  then have "in_flight g < max_concurrent_dispatches lims"
    using gate_run_limits [OF admitted.hyps(1)] by (simp add: check_None_iff)
  then show ?case using admitted by (simp add: check_frame)
next
  case (refused g hist t now rq r g')
  then show ?case using check_gate [of rq now g] by auto
qed auto

text \<open>The number of dispatches in flight is never negative and never above
  max_concurrent_dispatches, whatever order dispatches begin and end in.\<close>
theorem in_flight_bounds:
  assumes "gate_run lims past g hist t"
  shows "0 \<le> in_flight g \<and> in_flight g \<le> max 0 (max_concurrent_dispatches lims)"
  using assms by (rule run_in_flight)

theorem in_flight_bounds_witness: "in_flight sample_gate3 \<le> 2 \<and> in_flight sample_gate3 = 1"
proof -
  have "in_flight sample_gate3 = 1"
    using check_gate [of sample_order 200000 sample_gate2] check_gate [of sample_order 100000 "new_gate (default_limits {0})"]
    by (auto simp: sample_gate3_def sample_gate2_def sample_gate1_def new_gate_def)
  then show ?thesis using in_flight_bounds [OF sample_run] by (simp add: default_limits_def)
qed

end
