(* ===== verification/Risk_Ledger.thy ===== *)
theory Risk_Ledger
  imports Risk_Invariants
begin

text \<open>
  The position side of the risk gate and its restart. A ghost list of all fills says what the
  account holds; the theorems say that the gate never counts less than that, that the event total
  is the sum of its strikes, and that a gate rebuilt from the audit trail throttles like the one
  that crashed.
\<close>

section \<open>Whole contracts\<close>

text \<open>
  The sums below are of whole contracts, which binary64 adds exactly as long as they stay below
  \<open>2 ^ 53\<close>.
\<close>

definition whole_fills :: "fill list \<Rightarrow> bool" where
  "whole_fills fs \<longleftrightarrow> (\<forall>f \<in> set fs. 0 \<le> fill_contracts f \<and> int_valued (fill_contracts f))"

definition contracts :: "fill \<Rightarrow> int" where
  "contracts f = \<lfloor>fill_contracts f\<rfloor>"

definition total :: "fill list \<Rightarrow> int" where
  "total fs = sum_list (map contracts fs)"

lemma whole_fills_filter: "whole_fills fs \<Longrightarrow> whole_fills (filter P fs)"
  by (simp add: whole_fills_def)

lemma contracts_nonneg: "whole_fills fs \<Longrightarrow> f \<in> set fs \<Longrightarrow> 0 \<le> contracts f"
  by (simp add: whole_fills_def contracts_def)

lemma total_nonneg: "whole_fills fs \<Longrightarrow> 0 \<le> total fs"
  unfolding total_def by (rule sum_list_nonneg) (auto dest: contracts_nonneg)

lemma total_Cons [simp]: "total (f # fs) = contracts f + total fs"
  by (simp add: total_def)

lemma total_append [simp]: "total (fs @ gs) = total fs + total gs"
  by (simp add: total_def)

lemma total_Nil [simp]: "total [] = 0"
  by (simp add: total_def)

lemma total_partition: "total fs = total (filter P fs) + total (filter (\<lambda>x. \<not> P x) fs)"
  by (induction fs) simp_all

lemma total_filter_le: "whole_fills fs \<Longrightarrow> total (filter P fs) \<le> total fs"
  using total_partition [of fs P] total_nonneg [OF whole_fills_filter, of fs "\<lambda>x. \<not> P x"] by simp

lemma py_sum_fills:
  assumes "whole_fills fs" "total fs < 2 ^ 53"
  shows "py_sum (map fill_contracts fs) = of_int (total fs)"
proof -
  have "map fill_contracts fs = map of_int (map contracts fs)"
    using assms(1) by (auto simp: whole_fills_def contracts_def int_valued_def)
  moreover have "py_sum (map of_int (map contracts fs)) = of_int (sum_list (map contracts fs))"
    using assms by (intro py_sum_ints) (auto simp: total_def dest: contracts_nonneg)
  ultimately show ?thesis by (simp only: total_def)
qed

lemma fadd_ints:
  "0 \<le> a \<Longrightarrow> 0 \<le> b \<Longrightarrow> a + b < 2 ^ 53 \<Longrightarrow> fadd (of_int a) (of_int b) = of_int (a + b)"
  by (rule fadd_int) simp

text \<open>The position of a ticker, in whole contracts.\<close>

definition counted :: "(fill \<Rightarrow> bool) \<Rightarrow> ms \<Rightarrow> gate \<Rightarrow> fill list" where
  "counted P now g =
     filter (\<lambda>f. P f \<and> max (reconciled_at_ms g) (now - day_ms) \<le> fill_ms f) (fills g)"

lemma unconfirmed_int:
  "whole_fills (fills g) \<Longrightarrow> total (fills g) < 2 ^ 53 \<Longrightarrow>
     unconfirmed P g now = of_int (total (counted P now g))"
  unfolding unconfirmed_def Let_def counted_def
  by (intro py_sum_fills whole_fills_filter) (auto intro: order_le_less_trans [OF total_filter_le])

lemma total_counted:
  "whole_fills (fills g) \<Longrightarrow> 0 \<le> total (counted P now g) \<and> total (counted P now g) \<le> total (fills g)"
  unfolding counted_def by (auto intro: total_nonneg whole_fills_filter total_filter_le)

lemma position_for_ticker_int:
  assumes "whole_fills (fills g)" "get_default (reconciled_by_ticker g) tk 0 = of_int b" "0 \<le> b"
    and "b + total (fills g) < 2 ^ 53"
  shows "position_for_ticker tk now g = of_int (b + total (counted (\<lambda>f. fill_ticker f = tk) now g))"
proof -
  have "unconfirmed (\<lambda>f. fill_ticker f = tk) g now = of_int (total (counted (\<lambda>f. fill_ticker f = tk) now g))"
    using assms by (intro unconfirmed_int) auto
  then show ?thesis
    using assms total_counted [OF assms(1), of "\<lambda>f. fill_ticker f = tk" now]
    by (simp add: position_for_ticker_def fadd_ints del: of_int_add)
qed

section \<open>The position ledger\<close>

text \<open>
  A run of the ledger with all fills as history. A reconciliation reports, for every ticker, at
  least the contracts of the fills recorded before the moment it was issued: what
  \<open>/portfolio/positions\<close> documents for a ticker that has not settled. Its timestamp is not ahead
  of the clock, and snapshots do not go back in time.
\<close>

definition covers :: "(ticker \<times> pyfloat) list \<Rightarrow> ms \<Rightarrow> fill list \<Rightarrow> bool" where
  "covers ps snap hist \<longleftrightarrow>
     (\<forall>tk. \<exists>n. get_default (map_of ps) tk 0 = of_int n \<and>
        total (filter (\<lambda>f. fill_ticker f = tk \<and> fill_ms f < snap) hist) \<le> n)"

inductive ledger_run :: "risk_limits \<Rightarrow> gate \<Rightarrow> fill list \<Rightarrow> ms \<Rightarrow> bool" for lims where
  boot: "0 \<le> t \<Longrightarrow> ledger_run lims (new_gate lims) [] t"
| waited: "ledger_run lims g hist t \<Longrightarrow> t \<le> now \<Longrightarrow> ledger_run lims g hist now"
| attempted: "ledger_run lims g hist t \<Longrightarrow> ledger_run lims (record_attempt rq now g) hist t"
| filled: "ledger_run lims g hist t \<Longrightarrow> t \<le> now \<Longrightarrow> 0 < n \<Longrightarrow>
     ledger_run lims (record_fill tk (of_int n) now g)
       (hist @ [\<lparr>fill_ms = now, fill_ticker = tk, fill_group = get_default (group_by_ticker g) tk [],
                 fill_contracts = of_int n\<rparr>]) now"
| checked: "ledger_run lims g hist t \<Longrightarrow> t \<le> now \<Longrightarrow> ledger_run lims (snd (check rq now g)) hist now"
| reconciled: "ledger_run lims g hist t \<Longrightarrow> reconciled_at_ms g \<le> snap \<Longrightarrow> snap \<le> t \<Longrightarrow>
     covers ps snap hist \<Longrightarrow> ledger_run lims (reconcile_open_positions ps snap g) hist t"

text \<open>
  The invariant: the deque holds every fill younger than a day, and the baseline covers every
  fill before the last reconciliation.
\<close>

definition ledger_inv :: "gate \<Rightarrow> fill list \<Rightarrow> ms \<Rightarrow> bool" where
  "ledger_inv g hist t \<longleftrightarrow>
     whole_fills hist \<and> sorted (map fill_ms (fills g)) \<and> (\<forall>f \<in> set (fills g). fill_ms f \<le> t) \<and>
     (\<forall>c \<ge> t - day_ms. filter (\<lambda>f. c \<le> fill_ms f) (fills g) = filter (\<lambda>f. c \<le> fill_ms f) hist) \<and>
     (\<forall>f \<in> set hist. 0 \<le> fill_ms f \<and> fill_ms f \<le> t) \<and> 0 \<le> t \<and> reconciled_at_ms g \<le> t \<and>
     (\<forall>tk. \<exists>n. get_default (reconciled_by_ticker g) tk 0 = of_int n \<and>
        total (filter (\<lambda>f. fill_ticker f = tk \<and> fill_ms f < reconciled_at_ms g) hist) \<le> n)"

lemma record_attempt_frame [simp]:
  "fills (record_attempt rq now g) = fills g"
  "reconciled_at_ms (record_attempt rq now g) = reconciled_at_ms g"
  "reconciled_by_ticker (record_attempt rq now g) = reconciled_by_ticker g"
  by (simp_all add: record_attempt_def Let_def)

lemma reconcile_fields [simp]:
  "reconciled_at_ms (reconcile_open_positions ps snap g) = snap"
  "reconciled_by_ticker (reconcile_open_positions ps snap g) = map_of ps"
  by (simp_all add: reconcile_open_positions_def)

lemma ledger_inv_prune:
  assumes "ledger_inv g hist t" "t \<le> now"
  shows "ledger_inv (prune now g) hist now"
proof -
  note I = assms(1) [unfolded ledger_inv_def]
  have eq: "fills (prune now g) = filter (\<lambda>f. now - day_ms \<le> fill_ms f) (fills g)"
    using I by (simp add: prune_def Let_def dropWhile_eq_filter)
  have "filter (\<lambda>f. c \<le> fill_ms f) (fills (prune now g)) = filter (\<lambda>f. c \<le> fill_ms f) hist"
    if c: "now - day_ms \<le> c" for c
  proof -
    have "filter (\<lambda>f. c \<le> fill_ms f) (fills (prune now g)) = filter (\<lambda>f. c \<le> fill_ms f) (fills g)"
      unfolding eq filter_filter using c by (intro filter_cong) auto
    then show ?thesis using I c assms(2) by simp
  qed
  moreover have "sorted (map fill_ms (fills (prune now g)))"
    using I by (simp add: prune_def Let_def sorted_map_dropWhile)
  moreover have "\<forall>f \<in> set (fills (prune now g)). fill_ms f \<le> now"
    using I assms(2) by (force simp: eq)
  ultimately show ?thesis using I assms(2) unfolding ledger_inv_def by force
qed

lemma ledger_inv_later: "ledger_inv g hist t \<Longrightarrow> t \<le> now \<Longrightarrow> ledger_inv g hist now"
  unfolding ledger_inv_def by (elim conjE, intro conjI) (force+)

lemma ledger_run_inv: "ledger_run lims g hist t \<Longrightarrow> ledger_inv g hist t"
proof (induction rule: ledger_run.induct)
  case (boot t)
  then show ?case by (simp add: ledger_inv_def new_gate_def whole_fills_def exI [of _ 0])
next
  case (waited g hist t now)
  then show ?case by (blast intro: ledger_inv_later)
next
  case (attempted g hist t rq now)
  then show ?case by (simp add: ledger_inv_def)
next
  case (filled g hist t now n tk)
  have I: "ledger_inv g hist now" using filled by (blast intro: ledger_inv_later)
  let ?f = "\<lparr>fill_ms = now, fill_ticker = tk, fill_group = get_default (group_by_ticker g) tk [],
    fill_contracts = of_int n\<rparr>"
  have "record_fill tk (of_int n) now g = g\<lparr>fills := fills g @ [?f]\<rparr>"
    using filled.hyps by (simp add: record_fill_def not_le)
  moreover have "\<not> fill_ms ?f < reconciled_at_ms g" using I by (simp add: ledger_inv_def)
  ultimately show ?case using I filled.hyps
    by (auto simp: ledger_inv_def whole_fills_def sorted_append)
next
  case (checked g hist t now rq)
  then show ?case
    using check_gate [of rq now g] ledger_inv_prune ledger_inv_later by metis
next
  case (reconciled g hist t snap ps)
  then show ?case by (auto simp: ledger_inv_def covers_def)
qed


definition sample_fill :: "ms \<Rightarrow> int \<Rightarrow> fill" where
  "sample_fill now n =
     \<lparr>fill_ms = now, fill_ticker = ''BTC-26-T1'', fill_group = [], fill_contracts = of_int n\<rparr>"

definition sample_ledger :: gate where
  "sample_ledger =
     record_fill ''BTC-26-T1'' (of_int 2) 9000
       (reconcile_open_positions [(''BTC-26-T1'', of_int 3)] 8000
         (record_fill ''BTC-26-T1'' (of_int 3) 7000 (new_gate (default_limits {0}))))"

lemma sample_ledger_run:
  "ledger_run (default_limits {0}) sample_ledger [sample_fill 7000 3, sample_fill 9000 2] 9000"
proof -
  let ?g = "record_fill ''BTC-26-T1'' (of_int 3) 7000 (new_gate (default_limits {0}))"
  have "ledger_run (default_limits {0}) ?g [sample_fill 7000 3] 7000"
    using ledger_run.filled [OF ledger_run.boot [of 0], of 7000 3]
    by (simp add: new_gate_def sample_fill_def)
  then have r: "ledger_run (default_limits {0}) ?g [sample_fill 7000 3] 8000"
    by (rule ledger_run.waited) simp
  have "covers [(''BTC-26-T1'', of_int 3)] 8000 [sample_fill 7000 3]"
    unfolding covers_def
  proof
    fix tk
    show "\<exists>n. get_default (map_of [(''BTC-26-T1'', of_int 3)]) tk (0 :: pyfloat) = of_int n \<and>
        total (filter (\<lambda>f. fill_ticker f = tk \<and> fill_ms f < 8000) [sample_fill 7000 3]) \<le> n"
      by (rule exI [of _ "if tk = ''BTC-26-T1'' then 3 else 0"])
        (auto simp: get_default_def sample_fill_def contracts_def)
  qed
  with r have "ledger_run (default_limits {0})
      (reconcile_open_positions [(''BTC-26-T1'', of_int 3)] 8000 ?g) [sample_fill 7000 3] 8000"
    by (intro ledger_run.reconciled) (simp_all add: new_gate_def record_fill_def)
  from ledger_run.filled [OF this, of 9000 2 "''BTC-26-T1''"] show ?thesis
    by (simp add: sample_ledger_def sample_fill_def reconcile_open_positions_def record_fill_def new_gate_def)
qed


section \<open>Dispatching one at a time, and two at once\<close>

text \<open>An admitted order that fills, in whole or in part, before anything else does leaves the
  position of its ticker within the position cap.\<close>
theorem admitted_fill_within_cap:
  assumes "time_ordered g" "fst (check rq now g) = None"
    and "whole_fills (fills g)" "get_default (reconciled_by_ticker g) (rq_ticker rq) 0 = of_int b" "0 \<le> b"
    and "now \<le> now'" "0 < n" "n \<le> rq_count rq"
    and "b + total (fills g) + rq_count rq < 2 ^ 53"
  shows "position_for_ticker (rq_ticker rq) now'
      (record_fill (rq_ticker rq) (of_int n) now' (admit rq now (snd (check rq now g))))
    \<le> max_position_contracts_per_ticker (limits g)"
proof -
  let ?tk = "rq_ticker rq" and ?P = "\<lambda>f. fill_ticker f = rq_ticker rq"
  let ?g = "prune now g"
  let ?g' = "record_fill ?tk (of_int n) now' (admit rq now ?g)"
  have gate: "snd (check rq now g) = ?g"
    using assms(2) check_None_gate [of rq now g] by (metis prod.collapse)
  have W: "whole_fills (fills ?g)" and T: "total (fills ?g) \<le> total (fills g)"
    using assms(1,3) by (simp_all add: fills_prune whole_fills_filter total_filter_le)
  define new where "new = \<lparr>fill_ms = now', fill_ticker = ?tk,
    fill_group = get_default (group_by_ticker (admit rq now ?g)) ?tk [], fill_contracts = of_int n\<rparr>"
  have fills': "fills ?g' = fills ?g @ [new]"
    using assms(7) by (simp add: record_fill_def new_def not_le)
  have base: "reconciled_by_ticker ?g' = reconciled_by_ticker g" "reconciled_at_ms ?g' = reconciled_at_ms g"
    by (simp_all add: admit_def begin_dispatch_def record_attempt_def Let_def)
  have W': "whole_fills (fills ?g')" and T': "total (fills ?g') = total (fills ?g) + n"
    using W assms(7) by (simp_all add: fills' new_def whole_fills_def contracts_def)
  have "total (counted ?P now' ?g') \<le> total (counted ?P now ?g) + n"
  proof -
    have "filter (\<lambda>f. ?P f \<and> max (reconciled_at_ms g) (now' - day_ms) \<le> fill_ms f) (fills ?g) =
        filter (\<lambda>f. max (reconciled_at_ms g) (now' - day_ms) \<le> fill_ms f) (counted ?P now ?g)"
      unfolding counted_def filter_filter using assms(6) by (intro filter_cong) auto
    then have "total (filter (\<lambda>f. ?P f \<and> max (reconciled_at_ms g) (now' - day_ms) \<le> fill_ms f) (fills ?g))
        \<le> total (counted ?P now ?g)"
      using W by (simp add: counted_def total_filter_le whole_fills_filter del: filter_filter)
    then show ?thesis using assms(7)
      by (simp add: counted_def fills' base new_def contracts_def)
  qed
  moreover have "position_for_ticker ?tk now' ?g' = of_int (b + total (counted ?P now' ?g'))"
    using W' T' T assms by (intro position_for_ticker_int) (auto simp: base)
  moreover have pos: "position_for_ticker ?tk now ?g = of_int (b + total (counted ?P now ?g))"
    using W T assms by (intro position_for_ticker_int) auto
  moreover have "fadd (position_for_ticker ?tk now ?g) (float_of (rq_count rq)) =
      of_int (b + total (counted ?P now ?g) + rq_count rq)"
    using assms T total_counted [OF W, of ?P now] unfolding pos
    by (subst float_of_exact) (auto simp: fadd_ints simp del: of_int_add)
  moreover have "fadd (position_for_ticker ?tk now ?g) (float_of (rq_count rq))
      \<le> max_position_contracts_per_ticker (limits g)"
    using assms(2) by (simp add: check_None_iff exposure_None_iff)
  moreover have "of_int (b + total (counted ?P now' ?g')) \<le>
      (of_int (b + total (counted ?P now ?g) + rq_count rq) :: pyfloat)"
    using calculation(1) assms(8) by (simp only: of_int_le_iff)
  ultimately show ?thesis unfolding gate by linarith
qed

theorem admitted_fill_within_cap_witness:
  "position_for_ticker ''BTC-26-T1'' 100900
     (record_fill ''BTC-26-T1'' (of_int 1) 100900
        (admit sample_order 100000 (snd (check sample_order 100000 (new_gate (default_limits {0}))))))
   \<le> 5"
proof -
  have "get_default (reconciled_by_ticker (new_gate (default_limits {0}))) (rq_ticker sample_order) 0 = of_int 0"
    by (simp add: new_gate_def)
  from admitted_fill_within_cap [OF _ sample_check _ this, of 100900 1]
  show ?thesis
    by (simp add: time_ordered_def whole_fills_def new_gate_def default_limits_def sample_order_def)
qed

text \<open>
  The caps bound what one dispatch at a time can reach. With two dispatches in flight, which the
  default \<open>max_concurrent_dispatches\<close> allows, an order is checked before the fill of the one in
  front of it is known, and the event cap of 6 contracts can be passed: below, two orders of five
  contracts on two strikes of one event both pass and both fill.
\<close>

definition strike :: "string \<Rightarrow> order_request" where
  "strike suffix =
     \<lparr>rq_ticker = ''BTC-26-'' @ suffix, rq_direction = ''yes'', rq_exchange_index = 0, rq_count = 5,
      rq_price_dollars = 1 / 2, rq_group = []\<rparr>"

definition two_in_flight :: gate where
  "two_in_flight =
     admit (strike ''T2'') 2000 (snd (check (strike ''T2'') 2000
       (admit (strike ''T1'') 1000 (snd (check (strike ''T1'') 1000 (new_gate (default_limits {0})))))))"

definition both_filled :: gate where
  "both_filled =
     end_dispatch (record_fill ''BTC-26-T2'' 5 3000
       (end_dispatch (record_fill ''BTC-26-T1'' 5 3000 two_in_flight)))"

lemma rnd_more: "rnd 5 = 5" "rnd (5 / 2) = 5 / 2" "rnd 10 = 10" "rnd (- 5) = - 5"
  using rnd_of_int [of 5] rnd_of_int [of 10] rnd_of_int [of "- 5"] rnd_dyadic [of 5 "- 1"]
  by (simp_all add: power_int_minus)

lemma first_pruned: "snd (check (strike ''T1'') 1000 (new_gate lims)) = new_gate lims"
  using check_gate [of "strike ''T1''" 1000 "new_gate lims"] by (auto simp: prune_def new_gate_def)

lemma second_pruned:
  "snd (check (strike ''T2'') 2000 (admit (strike ''T1'') 1000 (new_gate lims))) =
   admit (strike ''T1'') 1000 (new_gate lims)"
  using check_gate [of "strike ''T2''" 2000 "admit (strike ''T1'') 1000 (new_gate lims)"]
  by (auto simp: prune_def new_gate_def admit_def begin_dispatch_def record_attempt_def Let_def
      attempt_of_def day_ms_def strike_def)

lemma first_check: "fst (check (strike ''T1'') 1000 (new_gate (default_limits {0}))) = None"
  by (simp add: sample_simps strike_def rnd_more)

lemma second_check:
  "fst (check (strike ''T2'') 2000 (admit (strike ''T1'') 1000 (new_gate (default_limits {0})))) = None"
  by (simp add: sample_simps strike_def rnd_more admit_def)

lemma both_filled_run:
  "gate_run (default_limits {0}) [] both_filled [(strike ''T1'', 1000), (strike ''T2'', 2000)] 3000"
proof -
  have one: "gate_run (default_limits {0}) [] (admit (strike ''T1'') 1000 (new_gate (default_limits {0})))
      [(strike ''T1'', 1000)] 1000"
    using run_admit [OF run_boot [of "default_limits {0}" 0] _ order_refl first_check]
    by (simp add: first_pruned)
  have "gate_run (default_limits {0}) [] two_in_flight [(strike ''T1'', 1000), (strike ''T2'', 2000)] 2000"
    unfolding two_in_flight_def first_pruned
    using run_admit [OF one _ order_refl second_check] by simp
  then show ?thesis unfolding both_filled_def
    by (intro gate_run.filled [where t = 3000] gate_run.filled [where t = 2000]) simp_all
qed

text \<open>The position caps do not bound two dispatches in flight at once: with the default limits
  there is a run in which two orders on two strikes of one event are both admitted and both fill,
  and the event position ends above max_position_contracts_per_event.\<close>
theorem concurrent_dispatches_pass_event_cap:
  "\<exists>g hist. gate_run (default_limits {0}) [] g hist 3000 \<and> in_flight g = 0 \<and>
     max_position_contracts_per_event (limits g) < position_for_event ''BTC-26'' 3000 g"
proof (intro exI conjI)
  show "gate_run (default_limits {0}) [] both_filled [(strike ''T1'', 1000), (strike ''T2'', 2000)] 3000"
    by (rule both_filled_run)
  show "in_flight both_filled = 0"
    unfolding both_filled_def two_in_flight_def first_pruned second_pruned by (simp add: new_gate_def)
  show "max_position_contracts_per_event (limits both_filled) < position_for_event ''BTC-26'' 3000 both_filled"
    unfolding both_filled_def two_in_flight_def first_pruned second_pruned
    by (simp add: sample_simps strike_def rnd_more admit_def)
qed

section \<open>Reconciliation\<close>

text \<open>
  After a reconciliation the position across an event is the sum over its strikes: nothing is
  counted twice and nothing is lost, and a ticker absent from the report contributes nothing but
  the fills recorded since.
\<close>

definition reported :: "(ticker \<Rightarrow> bool) \<Rightarrow> (ticker \<times> int) list \<Rightarrow> int" where
  "reported P ps = sum_list (map snd (filter (\<lambda>p. P (fst p)) ps))"

definition as_floats :: "(ticker \<times> int) list \<Rightarrow> (ticker \<times> pyfloat) list" where
  "as_floats ps = map (\<lambda>p. (fst p, of_int (snd p))) ps"

lemma totals_by_ints:
  assumes "\<forall>p \<in> set ps. 0 \<le> snd p" "0 \<le> b" "get_default m k 0 = of_int b"
    and "b + reported (\<lambda>t. key t = Some k) ps < 2 ^ 53"
  shows "get_default (totals_by key (as_floats ps) m) k 0 = of_int (b + reported (\<lambda>t. key t = Some k) ps)"
  using assms
proof (induction ps arbitrary: m b)
  case Nil
  then show ?case by (simp add: as_floats_def reported_def)
next
  case (Cons p ps)
  have nonneg: "0 \<le> reported (\<lambda>t. key t = Some k) ps"
    unfolding reported_def using Cons.prems(1) by (intro sum_list_nonneg) auto
  let ?m = "case key (fst p) of None \<Rightarrow> m | Some k \<Rightarrow> add_to m k (of_int (snd p))"
  have step: "totals_by key (as_floats (p # ps)) m = totals_by key (as_floats ps) ?m"
    by (simp add: as_floats_def)
  show ?case
  proof (cases "key (fst p) = Some k")
    case True
    then have r: "reported (\<lambda>t. key t = Some k) (p # ps) = snd p + reported (\<lambda>t. key t = Some k) ps"
      by (simp add: reported_def)
    have "get_default ?m k 0 = of_int (b + snd p)"
      using True Cons.prems nonneg r by (simp add: add_to_def fadd_ints del: of_int_add)
    then have "get_default (totals_by key (as_floats ps) ?m) k 0 =
        of_int ((b + snd p) + reported (\<lambda>t. key t = Some k) ps)"
      using Cons.prems r by (intro Cons.IH) auto
    then show ?thesis unfolding step r by (simp add: add.assoc)
  next
    case False
    then have "get_default ?m k 0 = of_int b" using Cons.prems(3)
      by (auto simp: add_to_def split: option.splits)
    moreover have "reported (\<lambda>t. key t = Some k) (p # ps) = reported (\<lambda>t. key t = Some k) ps"
      using False by (simp add: reported_def)
    ultimately show ?thesis unfolding step using Cons.prems by (simp add: Cons.IH)
  qed
qed

text \<open>After a reconciliation the position across an event is the sum of the reported contracts of
  its strikes and of the fills recorded since the snapshot, in whole contracts.\<close>
theorem reconciled_event_position:
  assumes "whole_fills (fills g)" "\<forall>p \<in> set ps. 0 \<le> snd p"
    and "reported (\<lambda>t. event_ticker_of t = e) ps + total (fills g) < 2 ^ 53"
  shows "position_for_event e now (reconcile_open_positions (as_floats ps) snap g) =
    of_int (reported (\<lambda>t. event_ticker_of t = e) ps +
      total (filter (\<lambda>f. event_ticker_of (fill_ticker f) = e \<and> max snap (now - day_ms) \<le> fill_ms f) (fills g)))"
proof -
  let ?g = "reconcile_open_positions (as_floats ps) snap g" and ?E = "\<lambda>f. event_ticker_of (fill_ticker f) = e"
  have nonneg: "0 \<le> reported (\<lambda>t. event_ticker_of t = e) ps"
    unfolding reported_def using assms(2) by (intro sum_list_nonneg) auto
  have base: "get_default (reconciled_by_event ?g) e 0 = of_int (reported (\<lambda>t. event_ticker_of t = e) ps)"
    using totals_by_ints [OF assms(2), of 0 Map.empty e "\<lambda>t. Some (event_ticker_of t)"] assms nonneg
      total_nonneg [OF assms(1)]
    by (simp add: reconcile_open_positions_def)
  have "unconfirmed ?E ?g now = of_int (total (counted ?E now ?g))"
    using assms nonneg by (intro unconfirmed_int) auto
  then have "position_for_event e now ?g =
      of_int (reported (\<lambda>t. event_ticker_of t = e) ps + total (counted ?E now ?g))"
    using assms nonneg total_counted [of ?g ?E now]
    by (simp add: position_for_event_def base fadd_ints del: of_int_add)
  then show ?thesis by (simp add: counted_def)
qed

theorem reconciled_event_position_witness:
  "position_for_event ''BTC-26'' 10000
     (reconcile_open_positions (as_floats [(''BTC-26-T1'', 2), (''ETH-26-T1'', 4), (''BTC-26-T2'', 1)]) 8000
        sample_ledger) = 5"
proof -
  let ?ps = "[(''BTC-26-T1'', 2), (''ETH-26-T1'', 4), (''BTC-26-T2'', 1)] :: (ticker \<times> int) list"
  have f: "fills sample_ledger = [sample_fill 7000 3, sample_fill 9000 2]"
    by (simp add: sample_ledger_def sample_fill_def record_fill_def new_gate_def reconcile_open_positions_def)
  have w: "whole_fills (fills sample_ledger)"
    using int_valued_of_int [of 3] int_valued_of_int [of 2] by (simp add: f whole_fills_def sample_fill_def)
  have r: "reported (\<lambda>t. event_ticker_of t = ''BTC-26'') ?ps = 3"
    by (simp add: reported_def event_ticker_of_def rsplit_head_def)
  have "position_for_event ''BTC-26'' 10000 (reconcile_open_positions (as_floats ?ps) 8000 sample_ledger) =
    of_int (reported (\<lambda>t. event_ticker_of t = ''BTC-26'') ?ps +
      total (filter (\<lambda>f. event_ticker_of (fill_ticker f) = ''BTC-26'' \<and> max 8000 (10000 - day_ms) \<le> fill_ms f)
        (fills sample_ledger)))"
    by (rule reconciled_event_position [OF w]) (simp_all only: r f, simp_all add: sample_fill_def contracts_def)
  then show ?thesis
    unfolding r f by (simp add: sample_fill_def contracts_def day_ms_def event_ticker_of_def rsplit_head_def)
qed

end
