(* ===== verification/Risk_Restart.thy ===== *)
theory Risk_Restart
  imports Risk_Ledger "HOL-Library.Sublist"
begin

text \<open>
  \<open>RiskGate.warm_start\<close>: the gate an executor builds from the audit trail after a restart. It
  counts every order that may have reached the wire, ignores the refusals, and is never looser
  than the gate that was lost.
\<close>

text \<open>
  The audit trail follows the orders the lost gate admitted: among its rows that are not rejections
  there is one for each of them, in the order of the admissions, timestamped when or after the gate
  recorded it (the executor takes the row's time after \<open>record_attempt\<close>).
\<close>

definition logged :: "order_request \<times> ms \<Rightarrow> order_summary \<Rightarrow> bool" where
  "logged x r \<longleftrightarrow> row_key r = fire_key x \<and> row_group r = rq_group (fst x) \<and> snd x \<le> sel_requested_at r"

definition audit_follows :: "(order_request \<times> ms) list \<Rightarrow> order_summary list \<Rightarrow> bool" where
  "audit_follows hist rows \<longleftrightarrow>
     (\<exists>rs. subseq rs (filter (\<lambda>r. sel_status r \<noteq> ''rejected'') rows) \<and> list_all2 logged hist rs)"

lemma list_all2_count:
  assumes "list_all2 R xs ys" "\<And>x y. R x y \<Longrightarrow> P x \<Longrightarrow> Q y"
  shows "length (filter P xs) \<le> length (filter Q ys)"
  using assms(1) by (induction rule: list_all2_induct) (auto simp: assms(2) le_SucI)

lemma audit_count:
  assumes "audit_follows hist rows" "\<And>x r. logged x r \<Longrightarrow> P x \<Longrightarrow> Q r"
  shows "length (filter P hist) \<le> length (filter Q (filter (\<lambda>r. sel_status r \<noteq> ''rejected'') rows))"
proof -
  obtain rs where rs: "subseq rs (filter (\<lambda>r. sel_status r \<noteq> ''rejected'') rows)" "list_all2 logged hist rs"
    using assms(1) by (auto simp: audit_follows_def)
  have "length (filter P hist) \<le> length (filter Q rs)" using rs(2) assms(2) by (rule list_all2_count)
  also have "\<dots> \<le> length (filter Q (filter (\<lambda>r. sel_status r \<noteq> ''rejected'') rows))"
    by (rule list_emb_length [OF subseq_filter [OF rs(1)]])
  finally show ?thesis .
qed

lemma audit_row:
  assumes "audit_follows hist rows" "x \<in> set hist"
  shows "\<exists>r \<in> set rows. sel_status r \<noteq> ''rejected'' \<and> logged x r"
proof -
  obtain rs where rs: "subseq rs (filter (\<lambda>r. sel_status r \<noteq> ''rejected'') rows)" "list_all2 logged hist rs"
    using assms(1) by (auto simp: audit_follows_def)
  obtain r where "r \<in> set rs" "logged x r"
    using rs(2) assms(2) by (induction rule: list_all2_induct) auto
  moreover have "set rs \<subseteq> set (filter (\<lambda>r. sel_status r \<noteq> ''rejected'') rows)"
    using rs(1) by (induction rule: list_emb.induct) auto
  ultimately show ?thesis by auto
qed

lemma warm_count:
  assumes "audit_follows hist rows" "\<And>x r. logged x r \<Longrightarrow> Q (attempt_of x) \<Longrightarrow> Q (row_attempt r)"
    and "follows g hist t" "t \<le> now"
  shows "count_if Q (attempts (prune now g)) \<le> count_if Q (attempts (prune now (warm_start lims rows now)))"
proof -
  have "length (filter (\<lambda>x. now - day_ms \<le> snd x \<and> Q (attempt_of x)) hist) \<le>
      length (filter (\<lambda>r. now - day_ms \<le> sel_requested_at r \<and> Q (row_attempt r))
        (filter (\<lambda>r. sel_status r \<noteq> ''rejected'') rows))"
    using assms(1) by (rule audit_count) (use assms(2) in \<open>auto simp: logged_def\<close>)
  also have "\<dots> = length (filter (Q \<circ> row_attempt) (select_recent now rows))"
    unfolding select_recent_def length_filter_sort_key filter_filter
    by (intro arg_cong [where f = length] filter_cong) auto
  finally show ?thesis
    unfolding count_log [OF assms(3,4)] warm_pruned
    by (simp add: count_if_def filter_map)
qed

lemma warm_cooldown:
  assumes "gate_run lims past g hist t" "audit_follows (past @ hist) rows"
    and "fmul (refire_cooldown_seconds lims) 1000 \<le> of_int day_ms"
    and "cooldown_reason rq now (warm_start lims rows now) = None"
  shows "cooldown_reason rq now g = None"
proof -
  let ?k = "(rq_ticker rq, rq_direction rq)" and ?c = "fmul (refire_cooldown_seconds lims) 1000"
  have "?c \<le> of_int (now - prev)" if prev: "last_attempt_ms g ?k = Some prev" for prev
  proof -
    have "last_of (past @ hist) ?k = Some prev" using prev gate_run_last [OF assms(1)] by simp
    then obtain x where x: "x \<in> set (past @ hist)" "fire_key x = ?k" "snd x = prev"
      using last_of_entry by blast
    then obtain r where r: "r \<in> set rows" "sel_status r \<noteq> ''rejected''" "logged x r"
      using audit_row [OF assms(2)] by blast
    show ?thesis
    proof (cases "now - day_ms \<le> sel_requested_at r")
      case True
      then have "r \<in> set (select_recent now rows)" using r(1,2) by (simp add: set_select_recent)
      then obtain m where m: "last_attempt_ms (warm_start lims rows now) ?k = Some m" "prev \<le> m"
        using fold_replay_last [of "select_recent now rows" ?k prev "new_gate lims"] r(3) x
        by (auto simp: warm_start_def logged_def)
      have "?c \<le> of_int (now - m)"
        using assms(4) m(1) unfolding cooldown_None_iff by (simp add: warm_start_def new_gate_def)
      also have "\<dots> \<le> of_int (now - prev)" using m(2) by (simp only: of_int_le_iff)
      finally show ?thesis .
    next
      case False
      then have "day_ms \<le> now - prev" using r(3) x(3) by (simp add: logged_def)
      then have "(of_int day_ms :: rat) \<le> of_int (now - prev)" by (simp only: of_int_le_iff)
      then show ?thesis using assms(3) by linarith
    qed
  qed
  then show ?thesis unfolding cooldown_None_iff using gate_run_limits [OF assms(1)] by simp
qed


definition sample_row :: "ms \<Rightarrow> string \<Rightarrow> order_summary" where
  "sample_row now status =
     \<lparr>sel_ticker = ''BTC-26-T1'', sel_group = Some ''btc'', sel_side = ''yes'', sel_count = SText ''1'',
      sel_price = SText ''0.5'', sel_fill_count = SNull, sel_requested_at = now, sel_status = status\<rparr>"

definition sample_trail :: "order_summary list" where
  "sample_trail =
     [sample_row 100001 ''executed'', sample_row 150000 ''rejected'', sample_row 200002 ''error'']"

lemma sample_trail_recent:
  "select_recent 300000 sample_trail = [sample_row 100001 ''executed'', sample_row 200002 ''error'']"
  by (simp add: select_recent_def sample_trail_def sample_row_def day_ms_def)

lemma sample_warm:
  "cooldown_reason sample_order 300000 (warm_start (default_limits {0}) sample_trail 300000) = None"
  "attempt_reason sample_order 300000 (prune 300000 (warm_start (default_limits {0}) sample_trail 300000)) = None"
proof -
  have "last_attempt_ms (warm_start (default_limits {0}) sample_trail 300000) (''BTC-26-T1'', ''yes'') = Some 200002"
    by (simp add: warm_start_def sample_trail_recent row_key_def sample_row_def new_gate_def)
  then show "cooldown_reason sample_order 300000 (warm_start (default_limits {0}) sample_trail 300000) = None"
    by (simp add: cooldown_None_iff warm_start_def sample_order_def new_gate_def default_limits_def
        fmul_def rnd_ints)
  show "attempt_reason sample_order 300000 (prune 300000 (warm_start (default_limits {0}) sample_trail 300000)) = None"
    unfolding attempt_None_iff warm_pruned sample_trail_recent
    by (simp add: count_if_def sample_row_def sample_order_def warm_start_def new_gate_def
        default_limits_def event_ticker_of_def rsplit_head_def row_group_def)
qed


end
