(* ===== verification/Telemetry_Store.thy ===== *)
theory Telemetry_Store
  imports Prelude
begin

text \<open>
  The database side of \<open>telemetry/db.py\<close> with the constraints of \<open>telemetry/schema.sql\<close>. A table is
  the list of its rows with their identifiers, oldest first; a statement either gives the next
  database or raises \<open>sqlite3.Error\<close>, which is \<open>None\<close>. Of SQLite the model has what the statements
  of the sources need: \<open>NOT NULL\<close>, \<open>CHECK\<close>, \<open>UNIQUE\<close> and foreign keys, the conflict clauses
  \<open>OR IGNORE\<close>, \<open>OR REPLACE\<close> and \<open>ON CONFLICT DO UPDATE\<close>, and rollback to the start of a transaction.
  Values are stored as they are bound (type affinity is left out), and the \<open>created_at_ms\<close> stamps,
  which nothing reads, are left out.
\<close>

type_synonym db_table = "(nat \<times> sqlrow) list"

record database =
  tables :: "string \<Rightarrow> db_table"
  next_id :: "string \<Rightarrow> nat"
  correlations :: "sqlval list"

definition empty_db :: database where
  "empty_db = \<lparr>tables = (\<lambda>_. []), next_id = (\<lambda>_. 1), correlations = []\<rparr>"

section \<open>Tables and columns\<close>

definition order_columns :: "string list" where
  "order_columns =
     [''correlation_id'', ''client_order_id'', ''kalshi_order_id'', ''ticker'', ''correlation_group'',
      ''outcome_side'', ''count'', ''price_dollars'', ''time_in_force'', ''self_trade_prevention_type'',
      ''post_only'', ''status'', ''error_message'', ''fill_count'', ''remaining_count'',
      ''average_fill_price'', ''average_fee_paid'', ''requested_at_ms'', ''submitted_at_ms'',
      ''acknowledged_at_ms'']"

definition table_columns :: "(string \<times> string list) list" where
  "table_columns =
     [(''orders_fired'', order_columns),
      (''fills'',
         [''fill_id'', ''order_id'', ''client_order_id'', ''ticker'', ''outcome_side'', ''book_side'',
          ''count_fp'', ''yes_price_dollars'', ''fee_cost'', ''is_taker'', ''exchange_index'',
          ''post_position_fp'', ''source'', ''filled_at_ms'', ''recorded_at_ms'']),
      (''market_snapshots'',
         [''correlation_id'', ''ticker'', ''yes_bid_dollars'', ''yes_ask_dollars'', ''no_bid_dollars'',
          ''no_ask_dollars'', ''volume'', ''open_interest'', ''source'', ''observed_at_ms'']),
      (''latency_events'',
         [''correlation_id'', ''stage'', ''started_at_ms'', ''ended_at_ms'', ''duration_ms'', ''metadata_json'']),
      (''index_observations'',
         [''correlation_id'', ''asset'', ''exchange'', ''price'', ''fair_value_index'', ''observed_at_ms'']),
      (''decision_results'',
         [''correlation_id'', ''market_ticker'', ''asset'', ''should_fire'', ''direction'',
          ''model_probability'', ''kalshi_price'', ''fee'', ''edge'', ''ts_ms'']),
      (''heartbeats'',
         [''process'', ''pid'', ''started_at_ms'', ''beat_at_ms'', ''queue_depth'', ''dropped_rows'']),
      (''account_snapshots'',
         [''balance_dollars'', ''portfolio_value'', ''total_realized_pnl_dollars'',
          ''total_net_realized_pnl_dollars'', ''total_fees_paid_dollars'',
          ''total_market_exposure_dollars'', ''open_position_count'', ''snapshot_at_ms''])]"

definition columns_of :: "string \<Rightarrow> string list" where
  "columns_of t = (case map_of table_columns t of None \<Rightarrow> [] | Some cs \<Rightarrow> cs)"

text \<open>\<open>_has_tables\<close>-independent constraints of the schema, column by column.\<close>

datatype column_check =
    NotNull string
  | OneOf string "sqlval list"
  | PositiveReal string
  | UnitReal string

text \<open>
  \<open>CAST(x AS REAL)\<close>: a text that is not a number in full counts as its longest numeric prefix, which
  for the fixed-point texts of this schema is the number or nothing.
\<close>

definition cast_real :: "sqlval \<Rightarrow> pyfloat" where
  "cast_real v = (case float_of_sql v of None \<Rightarrow> 0 | Some x \<Rightarrow> x)"

fun passes :: "sqlrow \<Rightarrow> column_check \<Rightarrow> bool" where
  "passes r (NotNull c) \<longleftrightarrow> row_get r c \<noteq> SNull"
| "passes r (OneOf c vs) \<longleftrightarrow> row_get r c = SNull \<or> row_get r c \<in> set vs"
| "passes r (PositiveReal c) \<longleftrightarrow> row_get r c = SNull \<or> 0 < cast_real (row_get r c)"
| "passes r (UnitReal c) \<longleftrightarrow> row_get r c = SNull \<or>
     (0 < cast_real (row_get r c) \<and> cast_real (row_get r c) < 1)"

definition texts :: "string list \<Rightarrow> sqlval list" where
  "texts ss = map SText ss"

definition schema :: "(string \<times> column_check list) list" where
  "schema =
     [(''orders_fired'',
         map NotNull [''correlation_id'', ''client_order_id'', ''ticker'', ''outcome_side'', ''count'',
           ''price_dollars'', ''time_in_force'', ''self_trade_prevention_type'', ''status'', ''requested_at_ms''] @
         [OneOf ''outcome_side'' (texts [''yes'', ''no'']),
          PositiveReal ''count'',
          UnitReal ''price_dollars'',
          OneOf ''time_in_force'' (texts [''fill_or_kill'', ''good_till_canceled'', ''immediate_or_cancel'']),
          OneOf ''self_trade_prevention_type'' (texts [''taker_at_cross'', ''maker'']),
          OneOf ''post_only'' [SInt 0, SInt 1],
          OneOf ''status'' (texts [''pending'', ''submitted'', ''accepted'', ''rejected'', ''filled'',
            ''canceled'', ''error''])]),
      (''fills'',
         map NotNull [''fill_id'', ''order_id'', ''ticker'', ''outcome_side'', ''count_fp'',
           ''yes_price_dollars'', ''source'', ''recorded_at_ms''] @
         [OneOf ''outcome_side'' (texts [''yes'', ''no'']),
          OneOf ''book_side'' (texts [''bid'', ''ask'']),
          OneOf ''is_taker'' [SInt 0, SInt 1],
          OneOf ''source'' (texts [''ws'', ''rest''])]),
      (''market_snapshots'',
         map NotNull [''correlation_id'', ''ticker'', ''source'', ''observed_at_ms''] @
         [OneOf ''source'' (texts [''poll'', ''ws''])]),
      (''latency_events'',
         map NotNull [''correlation_id'', ''stage'', ''started_at_ms'', ''ended_at_ms'', ''duration_ms'']),
      (''index_observations'',
         map NotNull [''correlation_id'', ''asset'', ''exchange'', ''price'', ''observed_at_ms'']),
      (''decision_results'',
         map NotNull [''correlation_id'', ''market_ticker'', ''asset'', ''should_fire'', ''direction'',
           ''model_probability'', ''kalshi_price'', ''fee'', ''edge'', ''ts_ms''] @
         [OneOf ''should_fire'' [SInt 0, SInt 1],
          OneOf ''direction'' (texts [''yes'', ''no''])]),
      (''heartbeats'',
         map NotNull [''pid'', ''started_at_ms'', ''beat_at_ms'', ''queue_depth'', ''dropped_rows'']),
      (''account_snapshots'',
         map NotNull [''balance_dollars'', ''portfolio_value'', ''total_realized_pnl_dollars'',
           ''total_fees_paid_dollars'', ''total_market_exposure_dollars'', ''open_position_count'',
           ''snapshot_at_ms''])]"

definition checks_of :: "string \<Rightarrow> column_check list" where
  "checks_of t = (case map_of schema t of None \<Rightarrow> [] | Some cs \<Rightarrow> cs)"

text \<open>The unique column of a table, and the tables whose rows reference a correlation.\<close>

definition unique_column :: "string \<Rightarrow> string option" where
  "unique_column t = map_of
     [(''orders_fired'', ''client_order_id''), (''fills'', ''fill_id''), (''heartbeats'', ''process'')] t"

definition child_tables :: "string list" where
  "child_tables =
     [''orders_fired'', ''latency_events'', ''decision_results'', ''market_snapshots'', ''index_observations'']"

section \<open>Statements\<close>

definition db_rows :: "string \<Rightarrow> database \<Rightarrow> sqlrow list" where
  "db_rows t db = map snd (tables db t)"

text \<open>\<open>tuple(row.get(column) for column in columns)\<close>: the row as it is stored.\<close>

definition bound_row :: "string \<Rightarrow> sqlrow \<Rightarrow> sqlrow" where
  "bound_row t row = map_of (map (\<lambda>c. (c, row_get row c)) (columns_of t))"

definition row_ok :: "string \<Rightarrow> sqlrow \<Rightarrow> bool" where
  "row_ok t row \<longleftrightarrow> list_all (passes row) (checks_of t)"

definition references_ok :: "string \<Rightarrow> sqlrow \<Rightarrow> database \<Rightarrow> bool" where
  "references_ok t row db \<longleftrightarrow>
     t \<in> set child_tables \<longrightarrow> row_get row ''correlation_id'' \<in> set (correlations db)"

definition clashes :: "string \<Rightarrow> sqlrow \<Rightarrow> sqlrow \<Rightarrow> bool" where
  "clashes t row old \<longleftrightarrow>
     (case unique_column t of None \<Rightarrow> False
      | Some c \<Rightarrow> row_get row c \<noteq> SNull \<and> row_get old c = row_get row c)"

definition append_row :: "string \<Rightarrow> sqlrow \<Rightarrow> database \<Rightarrow> database" where
  "append_row t row db =
     db\<lparr>tables := (tables db)(t := tables db t @ [(next_id db t, row)]),
        next_id := (next_id db)(t := next_id db t + 1)\<rparr>"

text \<open>\<open>INSERT OR IGNORE INTO correlations\<close>, for a row that names one.\<close>

definition add_correlation :: "sqlrow \<Rightarrow> database \<Rightarrow> database" where
  "add_correlation row db =
     (let cid = row_get row ''correlation_id''
      in if cid = SNull \<or> cid \<in> set (correlations db) then db
         else db\<lparr>correlations := correlations db @ [cid]\<rparr>)"

definition insert_plain :: "string \<Rightarrow> sqlrow \<Rightarrow> database \<Rightarrow> database option" where
  "insert_plain t row db =
     (if row_ok t row \<and> references_ok t row db \<and> \<not> list_ex (clashes t row) (db_rows t db)
      then Some (append_row t row db) else None)"

definition insert_or_ignore :: "string \<Rightarrow> sqlrow \<Rightarrow> database \<Rightarrow> database option" where
  "insert_or_ignore t row db =
     (if row_ok t row \<and> \<not> list_ex (clashes t row) (db_rows t db)
      then if references_ok t row db then Some (append_row t row db) else None
      else Some db)"

definition insert_or_replace :: "string \<Rightarrow> sqlrow \<Rightarrow> database \<Rightarrow> database option" where
  "insert_or_replace t row db =
     (if row_ok t row \<and> references_ok t row db
      then Some (append_row t row
             (db\<lparr>tables := (tables db)(t := filter (\<lambda>p. \<not> clashes t row (snd p)) (tables db t))\<rparr>))
      else None)"

definition replace_tables :: "string list" where "replace_tables = [''heartbeats'']"
definition ignore_tables :: "string list" where "ignore_tables = [''fills'']"

definition order_resolution_job :: string where
  "order_resolution_job = ''orders_fired__resolution''"

text \<open>\<open>_upsert_order\<close>: every column but the key and the request time is taken from the new row.\<close>

definition updatable :: "string list" where
  "updatable = filter (\<lambda>c. c \<notin> {''client_order_id'', ''requested_at_ms''}) order_columns"

definition overwrite :: "sqlrow \<Rightarrow> sqlrow \<Rightarrow> sqlrow" where
  "overwrite row old = old ++ map_of (map (\<lambda>c. (c, row_get row c)) updatable)"

definition upsert_order :: "sqlrow \<Rightarrow> database \<Rightarrow> database option" where
  "upsert_order r db0 =
     (let row = bound_row ''orders_fired'' r; db = add_correlation r db0
      in if \<not> row_ok ''orders_fired'' row \<or> \<not> references_ok ''orders_fired'' row db then None
         else if list_ex (clashes ''orders_fired'' row) (db_rows ''orders_fired'' db)
         then Some (db\<lparr>tables := (tables db)(''orders_fired'' :=
                map (\<lambda>p. if clashes ''orders_fired'' row (snd p) then (fst p, overwrite row (snd p)) else p)
                  (tables db ''orders_fired''))\<rparr>)
         else Some (append_row ''orders_fired'' row db))"

text \<open>\<open>_insert\<close>: one job, without commit.\<close>

type_synonym write_job = "string \<times> sqlrow"

definition insert_job :: "write_job \<Rightarrow> database \<Rightarrow> database option" where
  "insert_job job db =
     (let (t, r) = job
      in if t = order_resolution_job then upsert_order r db
         else
           (let row = bound_row t r; db1 = add_correlation r db
            in if t \<in> set replace_tables then insert_or_replace t row db1
               else if t \<in> set ignore_tables then insert_or_ignore t row db1
               else insert_plain t row db1))"

text \<open>\<open>_write_row\<close> and \<open>_write_batch\<close>: a transaction of one row, and of a batch that falls back to single rows.\<close>

definition write_row :: "write_job \<Rightarrow> database \<Rightarrow> database" where
  "write_row job db = (case insert_job job db of Some db' \<Rightarrow> db' | None \<Rightarrow> db)"

fun insert_all :: "write_job list \<Rightarrow> database \<Rightarrow> database option" where
  "insert_all [] db = Some db"
| "insert_all (job # jobs) db =
     (case insert_job job db of None \<Rightarrow> None | Some db' \<Rightarrow> insert_all jobs db')"

definition write_batch :: "write_job list \<Rightarrow> database \<Rightarrow> database" where
  "write_batch jobs db =
     (case insert_all jobs db of Some db' \<Rightarrow> db' | None \<Rightarrow> fold write_row jobs db)"

end
