(* ===== verification/Telemetry_Audit.thy ===== *)
theory Telemetry_Audit
  imports Telemetry_Store
begin

text \<open>
  What the telemetry database guarantees: batching is invisible, references and keys are intact in
  every state the writer can produce, the resolution of an order repairs a lost pending row, and a
  fill offered twice is stored once.
\<close>

section \<open>Batches\<close>

lemma insert_all_rowwise: "insert_all jobs db = Some db' \<Longrightarrow> fold write_row jobs db = db'"
  by (induction jobs arbitrary: db) (auto simp: write_row_def split: option.splits)

lemma write_batch_fold: "write_batch jobs db = fold write_row jobs db"
  using insert_all_rowwise by (auto simp: write_batch_def split: option.split)

lemma fold_write_batch: "fold write_batch batches db = fold write_row (concat batches) db"
  by (induction batches arbitrary: db) (simp_all add: write_batch_fold)

text \<open>C31. Batching is invisible: writing batches in one transaction each, with the fall-back to
  single rows, leaves the database that writing each row in its own transaction leaves, with
  exactly the failing rows dropped.\<close>
theorem batching_is_invisible: "fold write_batch batches db = fold write_row (concat batches) db"
  by (rule fold_write_batch)

section \<open>Integrity\<close>

definition references_closed :: "database \<Rightarrow> bool" where
  "references_closed db \<longleftrightarrow>
     (\<forall>t \<in> set child_tables. \<forall>r \<in> set (db_rows t db). row_get r ''correlation_id'' \<in> set (correlations db))"

definition key_list :: "string \<Rightarrow> sqlrow list \<Rightarrow> sqlval list" where
  "key_list c rs = filter (\<lambda>v. v \<noteq> SNull) (map (\<lambda>r. row_get r c) rs)"

definition keys_unique :: "database \<Rightarrow> bool" where
  "keys_unique db \<longleftrightarrow> (\<forall>t c. unique_column t = Some c \<longrightarrow> distinct (key_list c (db_rows t db)))"

definition db_ok :: "database \<Rightarrow> bool" where
  "db_ok db \<longleftrightarrow> references_closed db \<and> keys_unique db"

lemma db_ok_empty: "db_ok empty_db"
  by (simp add: db_ok_def references_closed_def keys_unique_def empty_db_def db_rows_def key_list_def)

lemma db_rows_append [simp]:
  "db_rows t' (append_row t row db) = (if t' = t then db_rows t db @ [row] else db_rows t' db)"
  "correlations (append_row t row db) = correlations db"
  by (simp_all add: append_row_def db_rows_def)

lemma add_correlation_simps [simp]:
  "tables (add_correlation r db) = tables db"
  "db_rows t (add_correlation r db) = db_rows t db"
  "set (correlations db) \<subseteq> set (correlations (add_correlation r db))"
  by (auto simp: add_correlation_def db_rows_def Let_def)

lemma row_get_bound: "row_get (bound_row t r) c = (if c \<in> set (columns_of t) then row_get r c else SNull)"
proof -
  have "map_of (map (\<lambda>c. (c, row_get r c)) cs) c = (if c \<in> set cs then Some (row_get r c) else None)" for cs
    by (induction cs) auto
  then show ?thesis by (simp add: bound_row_def row_get_def [of "map_of _"] get_default_def)
qed

lemma db_ok_add_correlation: "db_ok db \<Longrightarrow> db_ok (add_correlation r db)"
  unfolding db_ok_def references_closed_def keys_unique_def
  by (auto intro: add_correlation_simps(3) [THEN subsetD])

lemma key_list_append: "key_list c (rs @ [r]) = key_list c rs @ (if row_get r c = SNull then [] else [row_get r c])"
  by (simp add: key_list_def)

lemma not_clashing:
  "unique_column t = Some c \<Longrightarrow> \<not> list_ex (clashes t row) rs \<Longrightarrow> row_get row c \<noteq> SNull \<Longrightarrow>
     row_get row c \<notin> set (key_list c rs)"
  by (fastforce simp: list_ex_iff clashes_def key_list_def)

lemma db_ok_append:
  assumes "db_ok db" "references_ok t row db" "\<not> list_ex (clashes t row) (db_rows t db)"
  shows "db_ok (append_row t row db)"
proof -
  have "references_closed (append_row t row db)"
    using assms(1,2) by (auto simp: db_ok_def references_closed_def references_ok_def)
  moreover have "keys_unique (append_row t row db)"
    using assms(1,3) not_clashing [of t _ row "db_rows t db"]
    by (auto simp: db_ok_def keys_unique_def key_list_append)
  ultimately show ?thesis by (simp add: db_ok_def)
qed

lemma distinct_filter_map: "distinct (filter Q (map f xs)) \<Longrightarrow> distinct (filter Q (map f (filter P xs)))"
proof (induction xs)
  case (Cons x xs)
  have "f x \<notin> f ` set xs \<Longrightarrow> f x \<notin> f ` {y \<in> set xs. P y}" by auto
  then show ?case using Cons by (auto split: if_splits)
qed simp

lemma db_ok_delete:
  assumes "db_ok db"
  shows "db_ok (db\<lparr>tables := (tables db)(t := filter P (tables db t))\<rparr>)"
proof -
  have rows: "db_rows t' (db\<lparr>tables := (tables db)(t := filter P (tables db t))\<rparr>) =
      (if t' = t then map snd (filter P (tables db t)) else db_rows t' db)" for t'
    by (simp add: db_rows_def)
  have "distinct (key_list c (db_rows t db)) \<Longrightarrow> distinct (key_list c (map snd (filter P (tables db t))))" for c
    using distinct_filter_map [of "\<lambda>v. v \<noteq> SNull" "\<lambda>p. row_get (snd p) c"]
    by (simp add: db_rows_def key_list_def comp_def)
  moreover have "set (map snd (filter P (tables db t))) \<subseteq> set (db_rows t db)" by (auto simp: db_rows_def)
  ultimately show ?thesis using assms
    unfolding db_ok_def references_closed_def keys_unique_def rows by auto
qed

lemma overwrite_get:
  "row_get (overwrite row old) c = (if c \<in> set updatable then row_get row c else row_get old c)"
proof -
  have "map_of (map (\<lambda>c. (c, row_get row c)) cs) c = (if c \<in> set cs then Some (row_get row c) else None)" for cs
    by (induction cs) auto
  then show ?thesis by (simp add: overwrite_def row_get_def get_default_def map_add_def)
qed

lemma not_updatable: "''client_order_id'' \<notin> set updatable" "''requested_at_ms'' \<notin> set updatable"
    "''correlation_id'' \<in> set updatable" "''status'' \<in> set updatable"
  by (simp_all add: updatable_def order_columns_def)

lemma db_ok_overwrite:
  assumes "db_ok db" "references_ok ''orders_fired'' row db"
  shows "db_ok (db\<lparr>tables := (tables db)(''orders_fired'' :=
    map (\<lambda>p. if clashes ''orders_fired'' row (snd p) then (fst p, overwrite row (snd p)) else p)
      (tables db ''orders_fired''))\<rparr>)" (is "db_ok ?db")
proof -
  have rows: "db_rows t ?db = (if t = ''orders_fired''
      then map (\<lambda>r. if clashes ''orders_fired'' row r then overwrite row r else r) (db_rows t db)
      else db_rows t db)" for t
    by (simp add: db_rows_def comp_def if_distrib [of snd])
  have keys: "key_list ''client_order_id'' (map (\<lambda>r. if P r then overwrite row r else r) rs) =
      key_list ''client_order_id'' rs" for P rs
    by (induction rs) (auto simp: key_list_def overwrite_get not_updatable)
  have cid: "row_get row ''correlation_id'' \<in> set (correlations db)"
    using assms(2) by (simp add: references_ok_def child_tables_def)
  have "references_closed ?db"
    using assms(1) cid unfolding db_ok_def references_closed_def rows
    by (auto simp: overwrite_get not_updatable)
  moreover have "keys_unique ?db"
    using assms(1) unfolding db_ok_def keys_unique_def rows
    by (auto simp: keys unique_column_def)
  ultimately show ?thesis by (simp add: db_ok_def)
qed

lemma insert_job_ok: "db_ok db \<Longrightarrow> insert_job job db = Some db' \<Longrightarrow> db_ok db'"
proof -
  assume ok: "db_ok db" and ins: "insert_job job db = Some db'"
  obtain t r where job: "job = (t, r)" by force
  let ?db = "add_correlation r db"
  have ok1: "db_ok ?db" using ok by (rule db_ok_add_correlation)
  consider (res) "t = order_resolution_job" | (rep) "t \<noteq> order_resolution_job" "t \<in> set replace_tables"
    | (ign) "t \<noteq> order_resolution_job" "t \<notin> set replace_tables" "t \<in> set ignore_tables"
    | (pl) "t \<noteq> order_resolution_job" "t \<notin> set replace_tables" "t \<notin> set ignore_tables" by blast
  then show "db_ok db'"
  proof cases
    case res
    then show ?thesis
      using ins ok1 db_ok_overwrite [OF ok1, of "bound_row ''orders_fired'' r"]
        db_ok_append [OF ok1, of "''orders_fired''" "bound_row ''orders_fired'' r"]
      by (auto simp: job insert_job_def upsert_order_def Let_def split: if_splits)
  next
    case rep
    let ?row = "bound_row t r"
    let ?db2 = "?db\<lparr>tables := (tables ?db)(t := filter (\<lambda>p. \<not> clashes t ?row (snd p)) (tables ?db t))\<rparr>"
    have "db_ok ?db2" using ok1 by (rule db_ok_delete)
    moreover have "\<not> list_ex (clashes t ?row) (db_rows t ?db2)" by (auto simp: list_ex_iff db_rows_def)
    moreover have "references_ok t ?row ?db2" if "references_ok t ?row ?db"
      using that by (simp add: references_ok_def)
    ultimately show ?thesis
      using ins rep db_ok_append [of ?db2 t ?row]
      by (auto simp: job insert_job_def insert_or_replace_def Let_def split: if_splits)
  next
    case ign
    then show ?thesis
      using ins ok1 db_ok_append [OF ok1, of t "bound_row t r"]
      by (auto simp: job insert_job_def insert_or_ignore_def Let_def split: if_splits)
  next
    case pl
    then show ?thesis
      using ins ok1 db_ok_append [OF ok1, of t "bound_row t r"]
      by (auto simp: job insert_job_def insert_plain_def Let_def split: if_splits)
  qed
qed

lemma write_row_ok: "db_ok db \<Longrightarrow> db_ok (write_row job db)"
  using insert_job_ok by (auto simp: write_row_def split: option.split)

lemma fold_write_ok: "db_ok db \<Longrightarrow> db_ok (fold write_row jobs db)"
  by (induction jobs arbitrary: db) (simp_all add: write_row_ok)


section \<open>One row per order\<close>

definition orders_with :: "sqlval \<Rightarrow> database \<Rightarrow> sqlrow list" where
  "orders_with cid db = filter (\<lambda>r. row_get r ''client_order_id'' = cid) (db_rows ''orders_fired'' db)"

definition touches :: "sqlval \<Rightarrow> write_job \<Rightarrow> bool" where
  "touches cid job \<longleftrightarrow>
     (fst job = ''orders_fired'' \<or> fst job = order_resolution_job) \<and>
     row_get (snd job) ''client_order_id'' = cid"

lemma bound_row_apply: "bound_row t r c = (if c \<in> set (columns_of t) then Some (row_get r c) else None)"
proof -
  have "map_of (map (\<lambda>c. (c, row_get r c)) cs) c = (if c \<in> set cs then Some (row_get r c) else None)" for cs
    by (induction cs) auto
  then show ?thesis by (simp add: bound_row_def)
qed

lemma overwrite_apply: "overwrite row old c = (if c \<in> set updatable then Some (row_get row c) else old c)"
proof -
  have "map_of (map (\<lambda>c. (c, row_get row c)) cs) c = (if c \<in> set cs then Some (row_get row c) else None)" for cs
    by (induction cs) auto
  then show ?thesis by (simp add: overwrite_def map_add_def)
qed

lemma columns_of_orders: "columns_of ''orders_fired'' = order_columns"
  by (simp add: columns_of_def table_columns_def)

lemma order_key_bound [simp]:
  "row_get (bound_row ''orders_fired'' r) ''client_order_id'' = row_get r ''client_order_id''"
  "row_get (bound_row ''orders_fired'' r) ''requested_at_ms'' = row_get r ''requested_at_ms''"
  "row_get (bound_row ''orders_fired'' r) ''correlation_id'' = row_get r ''correlation_id''"
  by (simp_all add: row_get_bound columns_of_orders order_columns_def)

lemma clashes_orders:
  "clashes ''orders_fired'' row old \<longleftrightarrow>
     row_get row ''client_order_id'' \<noteq> SNull \<and> row_get old ''client_order_id'' = row_get row ''client_order_id''"
  by (simp add: clashes_def unique_column_def)

lemma overwrite_bound:
  assumes "row_get pend ''client_order_id'' = row_get r ''client_order_id''"
    and "row_get pend ''requested_at_ms'' = row_get r ''requested_at_ms''"
  shows "overwrite (bound_row ''orders_fired'' r) (bound_row ''orders_fired'' pend) = bound_row ''orders_fired'' r"
proof
  fix c
  show "overwrite (bound_row ''orders_fired'' r) (bound_row ''orders_fired'' pend) c = bound_row ''orders_fired'' r c"
    using assms
    by (auto simp: overwrite_apply bound_row_apply row_get_bound columns_of_orders updatable_def)
qed

lemma row_ok_orders:
  "row_ok ''orders_fired'' row \<Longrightarrow> row_get row ''correlation_id'' \<noteq> SNull \<and> row_get row ''client_order_id'' \<noteq> SNull"
  by (simp add: row_ok_def checks_of_def schema_def)

lemma references_after_add:
  "row_get r ''correlation_id'' \<noteq> SNull \<Longrightarrow>
     references_ok ''orders_fired'' (bound_row ''orders_fired'' r) (add_correlation r db)"
  by (auto simp: references_ok_def add_correlation_def Let_def)

text \<open>A job for anything else leaves the rows of an order alone.\<close>

lemma orders_with_append:
  "orders_with cid (append_row t row db) = orders_with cid db @
     (if t = ''orders_fired'' \<and> row_get row ''client_order_id'' = cid then [row] else [])"
  by (simp add: orders_with_def)

lemma orders_with_other_table:
  "t \<noteq> ''orders_fired'' \<Longrightarrow> orders_with cid (db\<lparr>tables := (tables db)(t := xs)\<rparr>) = orders_with cid db"
  by (simp add: orders_with_def db_rows_def)

lemma orders_with_add [simp]: "orders_with cid (add_correlation r db) = orders_with cid db"
  by (simp add: orders_with_def)

lemma orders_with_overwrite_other:
  assumes "row_get row ''client_order_id'' \<noteq> cid"
  shows "orders_with cid (db\<lparr>tables := (tables db)(''orders_fired'' :=
    map (\<lambda>p. if clashes ''orders_fired'' row (snd p) then (fst p, overwrite row (snd p)) else p)
      (tables db ''orders_fired''))\<rparr>) = orders_with cid db"
proof -
  have "filter (\<lambda>r. row_get r ''client_order_id'' = cid)
      (map snd (map (\<lambda>p. if clashes ''orders_fired'' row (snd p) then (fst p, overwrite row (snd p)) else p) ps)) =
    filter (\<lambda>r. row_get r ''client_order_id'' = cid) (map snd ps)" for ps :: db_table
    using assms by (induction ps) (auto simp: clashes_orders overwrite_get not_updatable)
  then show ?thesis by (simp add: orders_with_def db_rows_def)
qed

lemma write_row_untouched:
  assumes "\<not> touches cid job"
  shows "orders_with cid (write_row job db) = orders_with cid db"
proof -
  obtain t r where job: "job = (t, r)" by force
  have "orders_with cid db' = orders_with cid db" if ins: "insert_job job db = Some db'" for db'
  proof (cases "t = order_resolution_job")
    case True
    then have "row_get (bound_row ''orders_fired'' r) ''client_order_id'' \<noteq> cid"
      using assms by (simp add: job touches_def)
    then show ?thesis
      using ins True orders_with_overwrite_other [of "bound_row ''orders_fired'' r" cid "add_correlation r db"]
      by (auto simp: job insert_job_def upsert_order_def Let_def orders_with_append split: if_splits)
  next
    case False
    then have "t = ''orders_fired'' \<Longrightarrow> row_get (bound_row t r) ''client_order_id'' \<noteq> cid"
      using assms by (simp add: job touches_def)
    moreover have "orders_with cid ((add_correlation r db)\<lparr>tables := (tables db)(t := xs)\<rparr>) = orders_with cid db"
      if "t \<in> set replace_tables" for xs
      using that orders_with_other_table [of t cid "add_correlation r db" xs]
      by (auto simp: replace_tables_def)
    moreover have "''orders_fired'' \<notin> set replace_tables" by (simp add: replace_tables_def)
    ultimately show ?thesis
      using ins False
      by (auto simp: job insert_job_def insert_plain_def insert_or_ignore_def insert_or_replace_def Let_def
          orders_with_append split: if_splits)
  qed
  then show ?thesis by (simp add: write_row_def split: option.split)
qed

lemma fold_write_untouched:
  "list_all (\<lambda>j. \<not> touches cid j) jobs \<Longrightarrow> orders_with cid (fold write_row jobs db) = orders_with cid db"
  by (induction jobs arbitrary: db) (simp_all add: write_row_untouched)

lemma no_clash: "orders_with cid db = [] \<Longrightarrow> row_get row ''client_order_id'' = cid \<Longrightarrow>
    \<not> list_ex (clashes ''orders_fired'' row) (db_rows ''orders_fired'' db)"
  by (auto simp: list_ex_iff clashes_orders orders_with_def filter_empty_conv)

lemma write_pending:
  assumes "row_ok ''orders_fired'' (bound_row ''orders_fired'' r)" "orders_with (row_get r ''client_order_id'') db = []"
  shows "orders_with (row_get r ''client_order_id'') (write_row (''orders_fired'', r) db) = [bound_row ''orders_fired'' r]"
proof -
  let ?row = "bound_row ''orders_fired'' r" and ?db = "add_correlation r db"
  have "references_ok ''orders_fired'' ?row ?db"
    using row_ok_orders [OF assms(1)] by (simp add: references_after_add)
  moreover have "\<not> list_ex (clashes ''orders_fired'' ?row) (db_rows ''orders_fired'' ?db)"
    using no_clash [OF assms(2), of ?row] by simp
  ultimately show ?thesis using assms
    by (simp add: write_row_def insert_job_def insert_plain_def Let_def order_resolution_job_def
        replace_tables_def ignore_tables_def orders_with_append)
qed

lemma write_resolution:
  assumes ok: "row_ok ''orders_fired'' (bound_row ''orders_fired'' r)"
    and "orders_with (row_get r ''client_order_id'') db = [] \<or>
      (\<exists>pend. orders_with (row_get r ''client_order_id'') db = [bound_row ''orders_fired'' pend] \<and>
        row_get pend ''client_order_id'' = row_get r ''client_order_id'' \<and>
        row_get pend ''requested_at_ms'' = row_get r ''requested_at_ms'')"
  shows "orders_with (row_get r ''client_order_id'') (write_row (order_resolution_job, r) db) =
    [bound_row ''orders_fired'' r]"
proof -
  let ?row = "bound_row ''orders_fired'' r" and ?db = "add_correlation r db"
  let ?cid = "row_get r ''client_order_id''"
  have ref: "references_ok ''orders_fired'' ?row ?db"
    using row_ok_orders [OF ok] by (simp add: references_after_add)
  consider "orders_with ?cid db = []"
    | pend where "orders_with ?cid db = [bound_row ''orders_fired'' pend]"
        "row_get pend ''client_order_id'' = ?cid" "row_get pend ''requested_at_ms'' = row_get r ''requested_at_ms''"
    using assms(2) by blast
  then show ?thesis
  proof cases
    case 1
    have "\<not> list_ex (clashes ''orders_fired'' ?row) (db_rows ''orders_fired'' ?db)"
      using no_clash [OF 1, of ?row] by simp
    then show ?thesis using ok ref 1
      by (simp add: write_row_def insert_job_def upsert_order_def Let_def orders_with_append)
  next
    case 2
    have cid: "?cid \<noteq> SNull" using row_ok_orders [OF ok] by simp
    have ex: "list_ex (clashes ''orders_fired'' ?row) (db_rows ''orders_fired'' ?db)"
    proof -
      have "bound_row ''orders_fired'' pend \<in> set (orders_with ?cid db)" by (simp add: 2(1))
      then show ?thesis using cid 2(2)
        by (auto simp: list_ex_iff clashes_orders orders_with_def intro!: bexI [of _ "bound_row ''orders_fired'' pend"])
    qed
    have "filter (\<lambda>r. row_get r ''client_order_id'' = ?cid)
        (map snd (map (\<lambda>p. if clashes ''orders_fired'' ?row (snd p) then (fst p, overwrite ?row (snd p)) else p) ps)) =
      map (overwrite ?row) (filter (\<lambda>r. row_get r ''client_order_id'' = ?cid) (map snd ps))" for ps :: db_table
      using cid by (induction ps) (auto simp: clashes_orders overwrite_get not_updatable)
    then have "orders_with ?cid (?db\<lparr>tables := (tables ?db)(''orders_fired'' :=
        map (\<lambda>p. if clashes ''orders_fired'' ?row (snd p) then (fst p, overwrite ?row (snd p)) else p)
          (tables ?db ''orders_fired''))\<rparr>) = map (overwrite ?row) (orders_with ?cid db)"
      by (simp add: orders_with_def db_rows_def)
    also have "\<dots> = [?row]" using 2 by (simp add: overwrite_bound)
    finally show ?thesis using ok ref ex
      by (simp add: write_row_def insert_job_def upsert_order_def Let_def)
  qed
qed

text \<open>
  Whatever else the writer processes around them, and whether or not the pending row made it into
  the queue, once the resolution is written the order has exactly one row, and it is the resolution.
\<close>

lemma resolution_repairs_pending:
  fixes pend resol :: sqlrow
  defines "cid \<equiv> row_get resol ''client_order_id''"
  assumes "row_ok ''orders_fired'' (bound_row ''orders_fired'' pend)"
    and "row_ok ''orders_fired'' (bound_row ''orders_fired'' resol)"
    and "row_get pend ''client_order_id'' = cid"
    and "row_get pend ''requested_at_ms'' = row_get resol ''requested_at_ms''"
    and "orders_with cid db = []"
    and "list_all (\<lambda>j. \<not> touches cid j) (before @ between @ after)"
    and "queued = [] \<or> queued = [(''orders_fired'', pend)]"
  shows "orders_with cid (fold write_row (before @ queued @ between @ [(order_resolution_job, resol)] @ after) db) =
    [bound_row ''orders_fired'' resol]"
proof -
  have other: "list_all (\<lambda>j. \<not> touches cid j) before" "list_all (\<lambda>j. \<not> touches cid j) between"
      "list_all (\<lambda>j. \<not> touches cid j) after"
    using assms(7) by simp_all
  let ?db1 = "fold write_row before db"
  let ?db2 = "fold write_row between (fold write_row queued ?db1)"
  have 1: "orders_with cid ?db1 = []" using other(1) assms(6) by (simp add: fold_write_untouched)
  have "orders_with cid (fold write_row queued ?db1) = [] \<or>
      orders_with cid (fold write_row queued ?db1) = [bound_row ''orders_fired'' pend]"
    using assms(8) 1 write_pending [OF assms(2), of ?db1] assms(4) by auto
  then have "orders_with cid ?db2 = [] \<or> orders_with cid ?db2 = [bound_row ''orders_fired'' pend]"
    using other(2) by (simp add: fold_write_untouched)
  then have "orders_with cid (write_row (order_resolution_job, resol) ?db2) = [bound_row ''orders_fired'' resol]"
    using write_resolution [OF assms(3), of ?db2] assms(4,5) unfolding cid_def by blast
  then show ?thesis using other(3) by (simp add: fold_write_untouched)
qed

section \<open>Fills\<close>

text \<open>
  The stream and its REST backstop may both offer a fill, in any order and with anything between
  them: the first one stays, the second changes nothing in the table.
\<close>

definition fills_with :: "sqlval \<Rightarrow> database \<Rightarrow> sqlrow list" where
  "fills_with fid db = filter (\<lambda>r. row_get r ''fill_id'' = fid) (db_rows ''fills'' db)"

lemma fill_key_bound [simp]: "row_get (bound_row ''fills'' r) ''fill_id'' = row_get r ''fill_id''"
  by (simp add: row_get_bound columns_of_def table_columns_def)

text \<open>A fill offered by the stream and again by the REST backstop is stored once, as first
  offered.\<close>
theorem fill_offered_twice:
  assumes "row_get first_offer ''fill_id'' = row_get second_offer ''fill_id''"
    and "row_ok ''fills'' (bound_row ''fills'' first_offer)"
    and "fills_with (row_get first_offer ''fill_id'') db = []"
  shows "db_rows ''fills'' (write_row (''fills'', second_offer) (write_row (''fills'', first_offer) db)) =
    db_rows ''fills'' db @ [bound_row ''fills'' first_offer]"
proof -
  let ?r = "bound_row ''fills'' first_offer" and ?s = "bound_row ''fills'' second_offer"
  have misc: "''fills'' \<notin> set replace_tables" "''fills'' \<in> set ignore_tables" "''fills'' \<noteq> order_resolution_job"
      "references_ok ''fills'' x y" for x y
    by (simp_all add: replace_tables_def ignore_tables_def order_resolution_job_def references_ok_def child_tables_def)
  have nn: "row_get first_offer ''fill_id'' \<noteq> SNull"
    using assms(2) by (simp add: row_ok_def checks_of_def schema_def)
  have clash: "clashes ''fills'' x y \<longleftrightarrow> row_get x ''fill_id'' \<noteq> SNull \<and> row_get y ''fill_id'' = row_get x ''fill_id''" for x y
    by (simp add: clashes_def unique_column_def)
  have "\<not> list_ex (clashes ''fills'' ?r) (db_rows ''fills'' db)"
    using assms(3) by (auto simp: list_ex_iff clash fills_with_def filter_empty_conv)
  then have one: "write_row (''fills'', first_offer) db = append_row ''fills'' ?r (add_correlation first_offer db)"
    using assms(2) misc by (simp add: write_row_def insert_job_def insert_or_ignore_def Let_def)
  have "list_ex (clashes ''fills'' ?s) (db_rows ''fills'' (write_row (''fills'', first_offer) db))"
    using assms(1) nn by (simp add: one clash)
  then have "db_rows ''fills'' (write_row (''fills'', second_offer) (write_row (''fills'', first_offer) db)) =
      db_rows ''fills'' (write_row (''fills'', first_offer) db)"
    using misc by (simp add: write_row_def [of "(''fills'', second_offer)"] insert_job_def insert_or_ignore_def Let_def)
  then show ?thesis by (simp add: one)
qed

definition sample_order_row :: "string \<Rightarrow> sqlrow" where
  "sample_order_row status = map_of
     [(''correlation_id'', SText ''c1''), (''client_order_id'', SText ''k1''), (''ticker'', SText ''BTC-26-T1''),
      (''outcome_side'', SText ''yes''), (''count'', SText ''2.00''), (''price_dollars'', SText ''0.5000''),
      (''time_in_force'', SText ''fill_or_kill''), (''self_trade_prevention_type'', SText ''maker''),
      (''post_only'', SInt 0), (''status'', SText status), (''requested_at_ms'', SInt 10)]"

lemma sample_numbers: "cast_real (SText ''2.00'') = 2" "cast_real (SText ''0.5000'') = 1 / 2"
  by code_simp+

lemma sample_order_row_ok:
  "status \<in> {''pending'', ''filled''} \<Longrightarrow> row_ok ''orders_fired'' (bound_row ''orders_fired'' (sample_order_row status))"
  by (simp add: row_ok_def checks_of_def schema_def row_get_bound columns_of_orders order_columns_def)
    (auto simp: sample_order_row_def row_get_def texts_def sample_numbers)

definition sample_fill_row :: "string \<Rightarrow> sqlrow" where
  "sample_fill_row source = map_of
     [(''fill_id'', SText ''f1''), (''order_id'', SText ''o1''), (''ticker'', SText ''BTC-26-T1''),
      (''outcome_side'', SText ''yes''), (''count_fp'', SText ''2.00''), (''yes_price_dollars'', SText ''0.5000''),
      (''source'', SText source), (''recorded_at_ms'', SInt 20)]"

theorem fill_offered_twice_witness:
  "db_rows ''fills'' (write_row (''fills'', sample_fill_row ''rest'') (write_row (''fills'', sample_fill_row ''ws'') empty_db)) =
   [bound_row ''fills'' (sample_fill_row ''ws'')]"
proof -
  have e: "db_rows ''fills'' empty_db = []" by (simp add: empty_db_def db_rows_def)
  have ok: "row_ok ''fills'' (bound_row ''fills'' (sample_fill_row ''ws''))"
    by (simp add: row_ok_def checks_of_def schema_def row_get_bound columns_of_def table_columns_def)
      (simp add: sample_fill_row_def row_get_def texts_def)
  have k: "row_get (sample_fill_row s) ''fill_id'' = SText ''f1''" for s
    by (simp add: sample_fill_row_def row_get_def)
  show ?thesis using fill_offered_twice [OF _ ok, of "sample_fill_row ''rest''" empty_db] e
    by (simp add: k fills_with_def)
qed

end
