(* ===== verification/Retention.thy ===== *)
theory Retention
  imports Telemetry_Audit
begin

text \<open>
  \<open>telemetry/retention.py\<close>: pruning old telemetry in bounded chunks, and the correlations that
  nothing references any more. Each chunk is one committed statement; the loop ends when a
  statement deletes nothing.
\<close>

definition chunk_size :: nat where "chunk_size = 5000"

definition retention :: "(string \<times> string \<times> int) list" where
  "retention =
     [(''latency_events'', ''started_at_ms'', 30),
      (''decision_results'', ''ts_ms'', 30),
      (''market_snapshots'', ''observed_at_ms'', 14),
      (''index_observations'', ''observed_at_ms'', 14)]"

text \<open>\<open>column < ?\<close> in SQLite's order: NULL compares to nothing, and every text is above every number.\<close>

definition older :: "string \<Rightarrow> ms \<Rightarrow> sqlrow \<Rightarrow> bool" where
  "older column cutoff row =
     (case row_get row column of SInt n \<Rightarrow> n < cutoff | SReal x \<Rightarrow> x < of_int cutoff | _ \<Rightarrow> False)"

definition sort_value :: "string \<Rightarrow> sqlrow \<Rightarrow> rat" where
  "sort_value column row = (case row_get row column of SInt n \<Rightarrow> of_int n | SReal x \<Rightarrow> x | _ \<Rightarrow> 0)"

text \<open>\<open>SELECT id ... WHERE column < ? ORDER BY column LIMIT chunk\<close>, and the delete of those rows.\<close>

definition chunk_ids :: "string \<Rightarrow> ms \<Rightarrow> db_table \<Rightarrow> nat list" where
  "chunk_ids column cutoff rows =
     take chunk_size (map fst (sort_key (\<lambda>p. sort_value column (snd p))
       (filter (\<lambda>p. older column cutoff (snd p)) rows)))"

definition delete_chunk :: "string \<Rightarrow> ms \<Rightarrow> db_table \<Rightarrow> db_table" where
  "delete_chunk column cutoff rows = filter (\<lambda>p. fst p \<notin> set (chunk_ids column cutoff rows)) rows"

text \<open>\<open>_delete_older_than\<close> on the rows of its table: the number of rows deleted and those left.\<close>

function delete_older_than :: "string \<Rightarrow> ms \<Rightarrow> db_table \<Rightarrow> nat \<Rightarrow> nat \<times> db_table" where
  "delete_older_than column cutoff rows sofar =
     (let rows' = delete_chunk column cutoff rows; rowcount = length rows - length rows'
      in if rowcount = 0 then (sofar, rows')
         else delete_older_than column cutoff rows' (sofar + rowcount))"
  by pat_completeness auto
termination
  by (relation "measure (\<lambda>(c, k, rows, n). length rows)") auto

declare delete_older_than.simps [simp del]

text \<open>\<open>_delete_orphan_correlations\<close>: a correlation goes when no child table has a row that names it.\<close>

definition referenced :: "database \<Rightarrow> sqlval \<Rightarrow> bool" where
  "referenced db cid \<longleftrightarrow>
     list_ex (\<lambda>t. list_ex (\<lambda>r. row_get r ''correlation_id'' = cid) (db_rows t db)) child_tables"

definition orphan_chunk :: "database \<Rightarrow> sqlval list \<Rightarrow> sqlval list" where
  "orphan_chunk db cs = take chunk_size (filter (\<lambda>c. \<not> referenced db c) cs)"

function delete_orphans :: "database \<Rightarrow> sqlval list \<Rightarrow> nat \<Rightarrow> nat \<times> sqlval list" where
  "delete_orphans db cs sofar =
     (let cs' = filter (\<lambda>c. c \<notin> set (orphan_chunk db cs)) cs; rowcount = length cs - length cs'
      in if rowcount = 0 then (sofar, cs') else delete_orphans db cs' (sofar + rowcount))"
  by pat_completeness auto
termination
  by (relation "measure (\<lambda>(db, cs, n). length cs)") auto

declare delete_orphans.simps [simp del]

type_synonym prune_result = "(string \<times> nat) list"

definition prune_total :: "prune_result \<Rightarrow> nat" where
  "prune_total r = sum_list (map snd r)"

fun prune_tables :: "(string \<times> string \<times> int) list \<Rightarrow> ms \<Rightarrow> database \<Rightarrow> prune_result \<times> database" where
  "prune_tables [] now db = ([], db)"
| "prune_tables ((t, column, days) # rest) now db =
     (let (n, rows) = delete_older_than column (now - days * 86400000) (tables db t) 0;
          (r, db') = prune_tables rest now (db\<lparr>tables := (tables db)(t := rows)\<rparr>)
      in ((t, n) # r, db'))"

text \<open>\<open>prune\<close>, without the checkpoint of the write-ahead log.\<close>

definition prune_db :: "ms \<Rightarrow> database \<Rightarrow> prune_result \<times> database" where
  "prune_db now db =
     (let (r, db1) = prune_tables retention now db;
          (n, cs) = delete_orphans db1 (correlations db1) 0
      in (r @ [(''correlations'', n)], db1\<lparr>correlations := cs\<rparr>))"

section \<open>The loop deletes exactly the old rows\<close>

lemma filter_twice_le: "length (filter P (filter Q xs)) \<le> length (filter P xs)"
  by (induction xs) auto

lemma chunk_ids_old:
  "i \<in> set (chunk_ids column cutoff rows) \<Longrightarrow> \<exists>r. (i, r) \<in> set rows \<and> older column cutoff r"
  unfolding chunk_ids_def by (drule in_set_takeD) force

lemma delete_chunk_keeps:
  assumes "distinct (map fst rows)"
  shows "filter (\<lambda>p. \<not> older column cutoff (snd p)) (delete_chunk column cutoff rows) =
    filter (\<lambda>p. \<not> older column cutoff (snd p)) rows"
proof -
  have "fst p \<notin> set (chunk_ids column cutoff rows)" if p: "p \<in> set rows" "\<not> older column cutoff (snd p)" for p
  proof
    assume "fst p \<in> set (chunk_ids column cutoff rows)"
    then obtain r where r: "(fst p, r) \<in> set rows" "older column cutoff r" using chunk_ids_old by blast
    then have "r = snd p" using assms p(1) by (metis eq_key_imp_eq_value prod.collapse)
    then show False using r(2) p(2) by simp
  qed
  then show ?thesis unfolding delete_chunk_def filter_filter by (intro filter_cong) auto
qed

lemma delete_chunk_stops:
  assumes "length (delete_chunk column cutoff rows) = length rows"
  shows "delete_chunk column cutoff rows = rows \<and> filter (\<lambda>p. \<not> older column cutoff (snd p)) rows = rows"
proof -
  let ?old = "filter (\<lambda>p. older column cutoff (snd p)) rows"
  have none: "p \<in> set rows \<Longrightarrow> fst p \<notin> set (chunk_ids column cutoff rows)" for p
    using assms unfolding delete_chunk_def by (metis (no_types, lifting) filter_id_conv length_filter_less less_irrefl)
  have "chunk_ids column cutoff rows = []"
  proof (rule ccontr)
    assume "chunk_ids column cutoff rows \<noteq> []"
    then obtain i where "i \<in> set (chunk_ids column cutoff rows)" by (cases "chunk_ids column cutoff rows") auto
    then show False using chunk_ids_old none by fastforce
  qed
  then have "length (sort_key (\<lambda>p. sort_value column (snd p)) ?old) = 0"
    by (simp add: chunk_ids_def chunk_size_def)
  then have "?old = []" by (simp only: length_sort length_0_conv)
  then have "\<forall>p \<in> set rows. \<not> older column cutoff (snd p)" by (simp add: filter_empty_conv)
  then show ?thesis using none by (auto simp: delete_chunk_def)
qed

lemma delete_older_than_eq:
  "distinct (map fst rows) \<Longrightarrow>
     delete_older_than column cutoff rows sofar =
       (sofar + length (filter (\<lambda>p. older column cutoff (snd p)) rows),
        filter (\<lambda>p. \<not> older column cutoff (snd p)) rows)"
proof (induction column cutoff rows sofar rule: delete_older_than.induct)
  case (1 column cutoff rows sofar)
  let ?rows' = "delete_chunk column cutoff rows"
  let ?old = "\<lambda>p. older column cutoff (snd p)"
  have len: "length (filter ?old xs) + length (filter (\<lambda>p. \<not> ?old p) xs) = length xs" for xs :: db_table
    by (rule sum_length_filter_compl)
  have le: "length ?rows' \<le> length rows" by (simp add: delete_chunk_def)
  show ?case
  proof (cases "length rows - length ?rows' = 0")
    case True
    then have "length ?rows' = length rows" using le by simp
    note stop = delete_chunk_stops [OF this]
    then have "filter ?old rows = []" by (metis (no_types, lifting) filter_empty_conv filter_id_conv)
    then show ?thesis using True stop by (subst delete_older_than.simps) simp
  next
    case False
    have d: "distinct (map fst ?rows')" using "1.prems" by (simp add: delete_chunk_def distinct_map_filter)
    have "delete_older_than column cutoff rows sofar =
        delete_older_than column cutoff ?rows' (sofar + (length rows - length ?rows'))"
      using False by (subst delete_older_than.simps) (simp add: Let_def)
    also have "\<dots> = (sofar + (length rows - length ?rows') + length (filter ?old ?rows'),
        filter (\<lambda>p. \<not> ?old p) ?rows')"
      by (rule "1.IH" [OF refl refl False d])
    finally show ?thesis
      using delete_chunk_keeps [OF "1.prems", of column cutoff] len [of rows] len [of ?rows'] le by simp
  qed
qed

lemma delete_orphans_eq:
  "delete_orphans db cs sofar =
     (sofar + length (filter (\<lambda>c. \<not> referenced db c) cs), filter (referenced db) cs)"
proof (induction db cs sofar rule: delete_orphans.induct)
  case (1 db cs sofar)
  let ?cs' = "filter (\<lambda>c. c \<notin> set (orphan_chunk db cs)) cs"
  have chunk: "c \<in> set (orphan_chunk db cs) \<Longrightarrow> c \<in> set cs \<and> \<not> referenced db c" for c
    by (auto simp: orphan_chunk_def dest: in_set_takeD)
  have keep: "filter (referenced db) ?cs' = filter (referenced db) cs"
    unfolding filter_filter using chunk by (intro filter_cong) auto
  have len: "length (filter (referenced db) xs) + length (filter (\<lambda>c. \<not> referenced db c) xs) = length xs" for xs
    by (rule sum_length_filter_compl)
  show ?case
  proof (cases "length cs - length ?cs' = 0")
    case True
    then have none: "\<forall>c \<in> set cs. c \<notin> set (orphan_chunk db cs)"
      by (metis (no_types, lifting) diff_is_0_eq length_filter_less linorder_not_less)
    then have "orphan_chunk db cs = []" using chunk by (cases "orphan_chunk db cs") auto
    then have e: "filter (\<lambda>c. \<not> referenced db c) cs = []" by (simp add: orphan_chunk_def chunk_size_def)
    then have "filter (referenced db) cs = cs" by (simp add: filter_empty_conv)
    moreover have "?cs' = cs" using none by simp
    ultimately show ?thesis using True e by (subst delete_orphans.simps) (simp add: Let_def)
  next
    case False
    have "delete_orphans db cs sofar = delete_orphans db ?cs' (sofar + (length cs - length ?cs'))"
      using False by (subst delete_orphans.simps) (simp add: Let_def)
    also have "\<dots> = (sofar + (length cs - length ?cs') + length (filter (\<lambda>c. \<not> referenced db c) ?cs'),
        filter (referenced db) ?cs')"
      by (rule "1.IH" [OF refl refl False])
    finally show ?thesis using keep len [of cs] len [of ?cs']
      length_filter_le [of "\<lambda>c. c \<notin> set (orphan_chunk db cs)" cs] by simp
  qed
qed

section \<open>Row identifiers\<close>

text \<open>The primary key of a row is never given twice, so a chunk of identifiers is a chunk of rows.\<close>

definition ids_ok :: "database \<Rightarrow> bool" where
  "ids_ok db \<longleftrightarrow> (\<forall>t. distinct (map fst (tables db t)) \<and> (\<forall>i \<in> set (map fst (tables db t)). i < next_id db t))"

lemma ids_ok_empty: "ids_ok empty_db"
  by (simp add: ids_ok_def empty_db_def)

lemma ids_ok_append: "ids_ok db \<Longrightarrow> ids_ok (append_row t row db)"
  by (fastforce simp: ids_ok_def append_row_def)

lemma ids_ok_filter: "ids_ok db \<Longrightarrow> ids_ok (db\<lparr>tables := (tables db)(t := filter P (tables db t))\<rparr>)"
  by (auto simp: ids_ok_def distinct_map_filter)

lemma ids_ok_part:
  assumes "ids_ok db" "next_id db' = next_id db" "\<And>t. \<exists>P. tables db' t = filter P (tables db t)"
  shows "ids_ok db'"
  unfolding ids_ok_def
proof (intro allI)
  fix t
  obtain P where "tables db' t = filter P (tables db t)" using assms(3) by blast
  then show "distinct (map fst (tables db' t)) \<and> (\<forall>i \<in> set (map fst (tables db' t)). i < next_id db' t)"
    using assms(1,2) by (auto simp: ids_ok_def distinct_map_filter)
qed

lemma ids_ok_map:
  assumes "ids_ok db" "\<And>p. fst (f p) = fst p"
  shows "ids_ok (db\<lparr>tables := (tables db)(t := map f (tables db t))\<rparr>)"
proof -
  have "fst \<circ> f = fst" using assms(2) by (simp add: fun_eq_iff)
  then have "map fst (map f xs) = map fst xs" for xs by simp
  then show ?thesis using assms(1) unfolding ids_ok_def by (metis (no_types, lifting) database.ext_inject database.surjective database.update_convs(1) fun_upd_apply)
qed

lemma ids_ok_correlations [simp]:
  "ids_ok (db\<lparr>correlations := cs\<rparr>) = ids_ok db" "ids_ok (add_correlation r db) = ids_ok db"
  by (simp_all add: ids_ok_def add_correlation_def Let_def)

lemma ids_ok_insert: "ids_ok db \<Longrightarrow> insert_job job db = Some db' \<Longrightarrow> ids_ok db'"
  by (cases job)
    (auto simp: insert_job_def upsert_order_def insert_or_replace_def insert_or_ignore_def insert_plain_def Let_def
      split: if_splits intro!: ids_ok_append ids_ok_filter ids_ok_map simp del: add_correlation_simps)

lemma ids_ok_write: "ids_ok db \<Longrightarrow> ids_ok (write_row job db)"
  using ids_ok_insert by (auto simp: write_row_def split: option.split)

section \<open>A prune as a whole\<close>

lemma prune_tables_eq:
  "ids_ok db \<Longrightarrow> distinct (map fst spec) \<Longrightarrow>
     prune_tables spec now db =
       (map (\<lambda>(t, c, d). (t, length (filter (\<lambda>p. older c (now - d * 86400000) (snd p)) (tables db t)))) spec,
        db\<lparr>tables := (\<lambda>t. case map_of spec t of None \<Rightarrow> tables db t
          | Some (c, d) \<Rightarrow> filter (\<lambda>p. \<not> older c (now - d * 86400000) (snd p)) (tables db t))\<rparr>)"
proof (induction spec now db rule: prune_tables.induct)
  case (2 t c d rest now db)
  let ?old = "\<lambda>p. older c (now - d * 86400000) (snd p)"
  let ?rows = "filter (\<lambda>p. \<not> ?old p) (tables db t)"
  let ?db = "db\<lparr>tables := (tables db)(t := ?rows)\<rparr>"
  have del: "delete_older_than c (now - d * 86400000) (tables db t) 0 = (length (filter ?old (tables db t)), ?rows)"
    using "2.prems"(1) by (simp add: delete_older_than_eq ids_ok_def)
  have t: "t \<notin> fst ` set rest" using "2.prems"(2) by simp
  have same: "map (\<lambda>(t, c, d). (t, length (filter (\<lambda>p. older c (now - d * 86400000) (snd p)) (tables ?db t)))) rest =
      map (\<lambda>(t, c, d). (t, length (filter (\<lambda>p. older c (now - d * 86400000) (snd p)) (tables db t)))) rest"
    using t by (intro map_cong) force+
  have IH: "prune_tables rest now ?db =
      (map (\<lambda>(t, c, d). (t, length (filter (\<lambda>p. older c (now - d * 86400000) (snd p)) (tables db t)))) rest,
       ?db\<lparr>tables := (\<lambda>t. case map_of rest t of None \<Rightarrow> tables ?db t
         | Some (c, d) \<Rightarrow> filter (\<lambda>p. \<not> older c (now - d * 86400000) (snd p)) (tables ?db t))\<rparr>)"
    using "2.IH" [OF del [symmetric] refl ids_ok_filter [OF "2.prems"(1)]] "2.prems"(2) same by simp
  have none: "map_of rest t = None" using t by (simp add: map_of_eq_None_iff)
  have "(\<lambda>u. case map_of rest u of None \<Rightarrow> tables ?db u
         | Some (c, d) \<Rightarrow> filter (\<lambda>p. \<not> older c (now - d * 86400000) (snd p)) (tables ?db u)) =
      (\<lambda>u. case map_of ((t, c, d) # rest) u of None \<Rightarrow> tables db u
         | Some (c, d) \<Rightarrow> filter (\<lambda>p. \<not> older c (now - d * 86400000) (snd p)) (tables db u))"
    using none by (auto simp: fun_eq_iff split: option.split)
  then show ?case by (simp add: del IH)
qed simp

text \<open>The history of a database: rows written, and prunes at given times.\<close>

datatype db_event = Written write_job | Pruned ms

fun db_step :: "db_event \<Rightarrow> database \<Rightarrow> database" where
  "db_step (Written job) db = write_row job db"
| "db_step (Pruned now) db = snd (prune_db now db)"

lemma retention_distinct: "distinct (map fst retention)"
  by (simp add: retention_def)

lemma prune_db_eq:
  assumes "ids_ok db"
  shows "snd (prune_db now db) =
    (let db1 = db\<lparr>tables := (\<lambda>t. case map_of retention t of None \<Rightarrow> tables db t
           | Some (c, d) \<Rightarrow> filter (\<lambda>p. \<not> older c (now - d * 86400000) (snd p)) (tables db t))\<rparr>
     in db1\<lparr>correlations := filter (referenced db1) (correlations db)\<rparr>)"
  using prune_tables_eq [OF assms retention_distinct] by (simp add: prune_db_def delete_orphans_eq Let_def)

lemma prune_filters: "ids_ok db \<Longrightarrow> \<exists>P. tables (snd (prune_db now db)) t = filter P (tables db t)"
  by (cases "map_of retention t") (auto simp: prune_db_eq Let_def intro: exI [of _ "\<lambda>_. True"])

lemma ids_ok_prune: "ids_ok db \<Longrightarrow> ids_ok (snd (prune_db now db))"
  by (rule ids_ok_part [of db]) (simp_all add: prune_filters, simp add: prune_db_eq Let_def)

lemma referenced_iff:
  "referenced db cid \<longleftrightarrow> (\<exists>t \<in> set child_tables. \<exists>r \<in> set (db_rows t db). row_get r ''correlation_id'' = cid)"
  by (auto simp: referenced_def list_ex_iff)

lemma db_ok_prune:
  assumes "ids_ok db" "db_ok db"
  shows "db_ok (snd (prune_db now db))"
proof -
  let ?db = "snd (prune_db now db)"
  note sub = prune_filters [OF assms(1), of now]
  have rows: "set (db_rows t ?db) \<subseteq> set (db_rows t db)" for t
    using sub [of t] by (auto simp: db_rows_def)
  have "distinct (key_list c (db_rows t ?db))" if "distinct (key_list c (db_rows t db))" for t c
    using sub [of t] distinct_filter_map [of "\<lambda>v. v \<noteq> SNull" "\<lambda>p. row_get (snd p) c" "tables db t"] that
    by (auto simp: db_rows_def key_list_def comp_def)
  then have "keys_unique ?db" using assms(2) by (simp add: db_ok_def keys_unique_def)
  have same: "referenced (x\<lparr>correlations := cs\<rparr>) = referenced x" for x cs
    by (simp add: referenced_def db_rows_def fun_eq_iff)
  have "set (correlations ?db) = {c \<in> set (correlations db). referenced ?db c}"
    by (simp add: prune_db_eq [OF assms(1)] Let_def same)
  then have "references_closed ?db"
    using assms(2) rows unfolding db_ok_def references_closed_def referenced_iff by blast
  then show ?thesis using \<open>keys_unique ?db\<close> by (simp add: db_ok_def)
qed

lemma history_ok:
  "ids_ok db \<and> db_ok db \<Longrightarrow> ids_ok (fold db_step history db) \<and> db_ok (fold db_step history db)"
proof (induction history arbitrary: db)
  case (Cons e history)
  then have "ids_ok (db_step e db) \<and> db_ok (db_step e db)"
    by (cases e) (simp_all add: ids_ok_write write_row_ok ids_ok_prune db_ok_prune)
  then show ?case using Cons.IH by simp
qed simp

lemmas history_invariant = history_ok [OF conjI [OF ids_ok_empty db_ok_empty]]

text \<open>C33. After any history of writes and prunes, pruning removes exactly the rows past the retention
  of their table and then exactly the correlations nothing references any more, never an order
  row, reports the numbers it removed, and leaves the references intact.\<close>
theorem prune_is_exact:
  "let db = fold db_step history empty_db; (removed, db') = prune_db now db;
       expired = (\<lambda>c d p. older c (now - d * 86400000) (snd p))
   in tables db' ''orders_fired'' = tables db ''orders_fired'' \<and>
      tables db' t = (case map_of retention t of None \<Rightarrow> tables db t
        | Some (c, d) \<Rightarrow> filter (\<lambda>p. \<not> expired c d p) (tables db t)) \<and>
      correlations db' = filter (referenced db') (correlations db) \<and>
      removed = map (\<lambda>(u, c, d). (u, length (filter (expired c d) (tables db u)))) retention @
        [(''correlations'', length (filter (\<lambda>cid. \<not> referenced db' cid) (correlations db)))] \<and>
      db_ok db'"
proof -
  let ?db = "fold db_step history empty_db"
  have ok: "ids_ok ?db" "db_ok ?db" using history_invariant by simp_all
  have same: "referenced (x\<lparr>correlations := cs\<rparr>) = referenced x" for x cs
    by (simp add: referenced_def db_rows_def fun_eq_iff)
  have "map_of retention ''orders_fired'' = None" by (simp add: retention_def)
  then show ?thesis
    using db_ok_prune [OF ok, of now] prune_tables_eq [OF ok(1) retention_distinct, of now]
    by (simp add: prune_db_def delete_orphans_eq Let_def same)
qed

theorem prune_again_removes_nothing:
  "let db = snd (prune_db now (fold db_step history empty_db)) in
   prune_total (fst (prune_db now db)) = 0 \<and> snd (prune_db now db) = db"
proof -
  let ?start = "fold db_step history empty_db"
  let ?db = "snd (prune_db now ?start)"
  have ok: "ids_ok ?start" "ids_ok ?db" using history_invariant ids_ok_prune by simp_all
  have same: "referenced (x\<lparr>correlations := cs\<rparr>) = referenced x" for x cs
    by (simp add: referenced_def db_rows_def fun_eq_iff)
  have t: "tables ?db t = (case map_of retention t of None \<Rightarrow> tables ?start t
      | Some (c, d) \<Rightarrow> filter (\<lambda>p. \<not> older c (now - d * 86400000) (snd p)) (tables ?start t))" for t
    by (simp add: prune_db_eq [OF ok(1)] Let_def)
  have c: "correlations ?db = filter (referenced ?db) (correlations ?start)"
    by (simp add: prune_db_eq [OF ok(1)] Let_def same)
  have gone: "filter (\<lambda>p. older c (now - d * 86400000) (snd p)) (tables ?db u) = []"
    if "(u, c, d) \<in> set retention" for u c d
    using that t [of u] retention_distinct by (simp add: map_of_is_SomeI)
  have keep: "(case map_of retention u of None \<Rightarrow> tables ?db u
      | Some (c, d) \<Rightarrow> filter (\<lambda>p. \<not> older c (now - d * 86400000) (snd p)) (tables ?db u)) = tables ?db u" for u
    using t [of u] by (auto split: option.split)
  have "prune_tables retention now ?db = (map (\<lambda>(u, c, d). (u, 0)) retention, ?db)"
    using prune_tables_eq [OF ok(2) retention_distinct, of now] gone keep
    by (auto simp: fun_eq_iff intro!: map_cong)
  moreover have "\<forall>cid \<in> set (correlations ?db). referenced ?db cid" by (subst c) simp
  then have "filter (\<lambda>cid. \<not> referenced ?db cid) (correlations ?db) = []"
      "filter (referenced ?db) (correlations ?db) = correlations ?db"
    by (auto simp: filter_empty_conv filter_id_conv)
  ultimately show ?thesis
    by (simp add: prune_db_def [of now ?db] delete_orphans_eq prune_total_def retention_def)
qed

end
