(* ===== verification/Retention_Schedule.thy ===== *)
theory Retention_Schedule
  imports Retention
begin

text \<open>
  \<open>prune_now\<close> and \<open>prune_periodically\<close> of \<open>telemetry/retention.py\<close>: a prune as the run of its committed
  statements, which a failure may cut short, and the loop that sleeps, prunes and carries on after
  a failure.
\<close>

section \<open>A prune statement by statement\<close>

definition drop_orphan_chunk :: "database \<Rightarrow> sqlval list \<Rightarrow> sqlval list" where
  "drop_orphan_chunk db cs = filter (\<lambda>c. c \<notin> set (orphan_chunk db cs)) cs"

inductive prune_step :: "ms \<Rightarrow> database \<Rightarrow> database \<Rightarrow> bool" for now where
  old_rows: "(t, column, days) \<in> set retention \<Longrightarrow>
    prune_step now db (db\<lparr>tables := (tables db)(t := delete_chunk column (now - days * 86400000) (tables db t))\<rparr>)"
| orphans: "prune_step now db (db\<lparr>correlations := drop_orphan_chunk db (correlations db)\<rparr>)"

abbreviation pruned_partly :: "ms \<Rightarrow> database \<Rightarrow> database \<Rightarrow> bool" where
  "pruned_partly now \<equiv> (prune_step now)\<^sup>*\<^sup>*"

lemma delete_older_than_chunks:
  "\<exists>n. snd (delete_older_than column cutoff rows sofar) = (delete_chunk column cutoff ^^ n) rows"
proof (induction column cutoff rows sofar rule: delete_older_than.induct)
  case (1 column cutoff rows sofar)
  let ?rows' = "delete_chunk column cutoff rows"
  show ?case
  proof (cases "length rows - length ?rows' = 0")
    case True
    then show ?thesis by (subst delete_older_than.simps) (auto simp: Let_def intro: exI [of _ 1])
  next
    case False
    then obtain n where "snd (delete_older_than column cutoff ?rows' (sofar + (length rows - length ?rows'))) =
        (delete_chunk column cutoff ^^ n) ?rows'"
      using "1.IH" [OF refl refl] by blast
    then have "snd (delete_older_than column cutoff rows sofar) = (delete_chunk column cutoff ^^ Suc n) rows"
      using False by (subst delete_older_than.simps) (simp add: Let_def funpow_swap1)
    then show ?thesis ..
  qed
qed

lemma delete_orphans_chunks:
  "\<exists>n. snd (delete_orphans db cs sofar) = (drop_orphan_chunk db ^^ n) cs"
proof (induction db cs sofar rule: delete_orphans.induct)
  case (1 db cs sofar)
  let ?cs' = "drop_orphan_chunk db cs"
  note simps = delete_orphans.simps [of db cs sofar, folded drop_orphan_chunk_def]
  note IH = "1.IH" [folded drop_orphan_chunk_def]
  show ?case
  proof (cases "length cs - length ?cs' = 0")
    case True
    then show ?thesis by (subst simps) (auto simp: Let_def intro: exI [of _ 1])
  next
    case False
    then obtain n where "snd (delete_orphans db ?cs' (sofar + (length cs - length ?cs'))) =
        (drop_orphan_chunk db ^^ n) ?cs'"
      using IH [OF refl refl] by blast
    then have "snd (delete_orphans db cs sofar) = (drop_orphan_chunk db ^^ Suc n) cs"
      using False by (subst simps) (simp add: Let_def funpow_swap1)
    then show ?thesis ..
  qed
qed

lemma old_rows_steps:
  assumes "(t, column, days) \<in> set retention"
  shows "pruned_partly now db
    (db\<lparr>tables := (tables db)(t := (delete_chunk column (now - days * 86400000) ^^ n) (tables db t))\<rparr>)"
proof (induction n)
  case (Suc n)
  define chunk where "chunk = delete_chunk column (now - days * 86400000)"
  have "prune_step now (db\<lparr>tables := (tables db)(t := (chunk ^^ n) (tables db t))\<rparr>)
      (db\<lparr>tables := (tables db)(t := (chunk ^^ Suc n) (tables db t))\<rparr>)"
    using prune_step.old_rows [OF assms, of now "db\<lparr>tables := (tables db)(t := (chunk ^^ n) (tables db t))\<rparr>"]
    by (simp flip: chunk_def)
  with Suc show ?case by (fold chunk_def) (rule rtranclp.rtrancl_into_rtrancl)
qed simp

lemma drop_orphan_chunk_same [simp]: "drop_orphan_chunk (db\<lparr>correlations := cs\<rparr>) cs' = drop_orphan_chunk db cs'"
  by (simp add: drop_orphan_chunk_def orphan_chunk_def referenced_def db_rows_def)

lemma orphan_steps:
  "pruned_partly now db
    (db\<lparr>correlations := (drop_orphan_chunk db ^^ n) (correlations db)\<rparr>)"
proof (induction n)
  case (Suc n)
  show ?case
    by (rule rtranclp.rtrancl_into_rtrancl [OF Suc])
      (use prune_step.orphans [where db = "db\<lparr>correlations := (drop_orphan_chunk db ^^ n) (correlations db)\<rparr>"
          and now = now] in simp)
qed simp

lemma prune_tables_steps: "set spec \<subseteq> set retention \<Longrightarrow> pruned_partly now db (snd (prune_tables spec now db))"
proof (induction spec now db rule: prune_tables.induct)
  case (2 t column days rest now db)
  obtain k rows where d: "delete_older_than column (now - days * 86400000) (tables db t) 0 = (k, rows)" by force
  obtain n where "rows = (delete_chunk column (now - days * 86400000) ^^ n) (tables db t)"
    using delete_older_than_chunks [of column "now - days * 86400000" "tables db t" 0] d by auto
  then have "pruned_partly now db (db\<lparr>tables := (tables db)(t := rows)\<rparr>)"
    using old_rows_steps "2.prems" by simp
  moreover have "pruned_partly now (db\<lparr>tables := (tables db)(t := rows)\<rparr>)
      (snd (prune_tables rest now (db\<lparr>tables := (tables db)(t := rows)\<rparr>)))"
    using "2.IH" [OF d [symmetric] refl] "2.prems" by simp
  ultimately show ?case by (auto simp: d split: prod.split intro: rtranclp_trans)
qed simp

text \<open>A whole prune is one such run.\<close>

lemma prune_is_steps: "pruned_partly now db (snd (prune_db now db))"
proof -
  obtain r db1 where t: "prune_tables retention now db = (r, db1)" by force
  obtain k cs where o: "delete_orphans db1 (correlations db1) 0 = (k, cs)" by force
  obtain n where "cs = (drop_orphan_chunk db1 ^^ n) (correlations db1)"
    using delete_orphans_chunks [of db1 "correlations db1" 0] o by auto
  then have "pruned_partly now db1 (db1\<lparr>correlations := cs\<rparr>)" using orphan_steps by simp
  moreover have "pruned_partly now db db1" using prune_tables_steps [of retention now db] t by simp
  ultimately show ?thesis by (simp add: prune_db_def t o)
qed

section \<open>A prune that was cut short\<close>

lemma older_mono: "older column cutoff row \<Longrightarrow> cutoff \<le> cutoff' \<Longrightarrow> older column cutoff' row"
  by (auto simp: older_def split: sqlval.splits)

lemma prune_step_ids: "prune_step now db db' \<Longrightarrow> ids_ok db \<Longrightarrow> ids_ok db'"
  by (cases rule: prune_step.cases) (auto simp: delete_chunk_def intro: ids_ok_filter)

lemma delete_chunk_later:
  assumes "distinct (map fst rows)" "cutoff \<le> cutoff'"
  shows "filter (\<lambda>p. \<not> older column cutoff' (snd p)) (delete_chunk column cutoff rows) =
    filter (\<lambda>p. \<not> older column cutoff' (snd p)) rows"
proof -
  have "filter (\<lambda>p. \<not> older column cutoff' (snd p)) (filter (\<lambda>p. \<not> older column cutoff (snd p)) xs) =
      filter (\<lambda>p. \<not> older column cutoff' (snd p)) xs" for xs :: db_table
    using older_mono [OF _ assms(2)] by (induction xs) auto
  then show ?thesis using delete_chunk_keeps [OF assms(1), of column cutoff] by metis
qed

lemma prune_after_step:
  assumes "prune_step now db db'" "ids_ok db" "now \<le> now'"
  shows "snd (prune_db now' db') = snd (prune_db now' db)"
proof -
  note ok = prune_step_ids [OF assms(1,2)] assms(2)
  let ?kept = "\<lambda>db t. case map_of retention t of None \<Rightarrow> tables db t
      | Some (c, d) \<Rightarrow> filter (\<lambda>p. \<not> older c (now' - d * 86400000) (snd p)) (tables db t)"
  from assms(1) show ?thesis
  proof cases
    case (old_rows t column days)
    have "map_of retention t = Some (column, days)" using old_rows(2) retention_distinct by (simp add: map_of_is_SomeI)
    moreover have "distinct (map fst (tables db t))" using assms(2) by (simp add: ids_ok_def)
    note delete_chunk_later [OF this, of "now - days * 86400000" "now' - days * 86400000" column]
    ultimately have "?kept db' u = ?kept db u" for u
      using assms(3) by (cases "u = t") (auto simp: old_rows(1) split: option.split)
    then have same: "?kept db' = ?kept db" by (rule ext)
    have rest: "correlations db' = correlations db" "db'\<lparr>tables := ts\<rparr> = db\<lparr>tables := ts\<rparr>" for ts
      by (simp_all add: old_rows(1))
    show ?thesis unfolding prune_db_eq [OF ok(1)] prune_db_eq [OF ok(2)] Let_def rest same ..
  next
    case orphans
    let ?db1 = "db\<lparr>tables := ?kept db\<rparr>"
    have "set (db_rows t ?db1) \<subseteq> set (db_rows t db)" for t
      by (auto simp: db_rows_def split: option.split)
    then have "referenced ?db1 c \<Longrightarrow> referenced db c" for c unfolding referenced_iff by blast
    then have "filter (referenced ?db1) (drop_orphan_chunk db (correlations db)) = filter (referenced ?db1) (correlations db)"
      unfolding drop_orphan_chunk_def filter_filter by (intro filter_cong) (auto simp: orphan_chunk_def dest: in_set_takeD)
    moreover have refs: "referenced (?db1\<lparr>correlations := cs\<rparr>) = referenced ?db1" for cs
      by (simp add: referenced_def db_rows_def fun_eq_iff)
    have "tables db' = tables db" by (simp add: orphans)
    then have same: "?kept db' = ?kept db" by (simp only:)
    have eqs: "db'\<lparr>tables := ?kept db\<rparr> = ?db1\<lparr>correlations := drop_orphan_chunk db (correlations db)\<rparr>"
        "correlations db' = drop_orphan_chunk db (correlations db)"
      by (simp_all add: orphans)
    ultimately show ?thesis unfolding prune_db_eq [OF ok(1)] prune_db_eq [OF ok(2)] Let_def same eqs refs by simp
  qed
qed

lemma prune_after_part:
  assumes "pruned_partly now db db'" "ids_ok db" "now \<le> now'"
  shows "ids_ok db' \<and> snd (prune_db now' db') = snd (prune_db now' db)"
  using assms(1)
proof (induction rule: rtranclp_induct)
  case (step y z)
  then show ?case using prune_step_ids prune_after_step assms(3) by metis
qed (use assms(2) in simp)

section \<open>The schedule\<close>

text \<open>The connection a prune works on.\<close>

record prune_connection =
  foreign_keys :: bool
  busy_timeout_ms :: nat

definition open_for_prune :: prune_connection where
  "open_for_prune = \<lparr>foreign_keys = True, busy_timeout_ms = 5000\<rparr>"

text \<open>With the keys enforced, a delete of correlations that a row still names fails whole.\<close>

definition delete_correlations :: "prune_connection \<Rightarrow> database \<Rightarrow> sqlval list \<Rightarrow> sqlval list option" where
  "delete_correlations conn db cs =
     (if foreign_keys conn \<and> list_ex (referenced db) (filter (\<lambda>c. c \<in> set cs) (correlations db)) then None
      else Some (filter (\<lambda>c. c \<notin> set cs) (correlations db)))"

lemma sweep_respects_keys:
  "delete_correlations open_for_prune db (orphan_chunk db (correlations db)) = Some (drop_orphan_chunk db (correlations db))"
proof -
  have "c \<in> set (orphan_chunk db (correlations db)) \<Longrightarrow> \<not> referenced db c" for c
    by (auto simp: orphan_chunk_def dest: in_set_takeD)
  then show ?thesis by (auto simp: delete_correlations_def drop_orphan_chunk_def list_ex_iff)
qed

text \<open>\<open>prune_now\<close>: the time is an argument or \<open>int(time.time() * 1000)\<close>.\<close>

definition prune_now :: "ms option \<Rightarrow> pyfloat \<Rightarrow> database \<Rightarrow> prune_result \<times> database" where
  "prune_now now_ms wall db = prune_db (case now_ms of Some n \<Rightarrow> n | None \<Rightarrow> py_int (fmul wall 1000)) db"

datatype prune_log = PruneComplete nat | PruneFailed

text \<open>
  \<open>prune_periodically\<close>, with the rows other processes write meanwhile: the time slept, the log and
  the database. A failed prune has done some of its statements and is logged.
\<close>

inductive prune_periodically :: "pyfloat \<Rightarrow> database \<Rightarrow> nat \<Rightarrow> prune_log list \<Rightarrow> write_job list \<Rightarrow> database \<Rightarrow> bool"
  for interval start where
  starts: "prune_periodically interval start 0 [] [] start"
| writes: "prune_periodically interval start k lg jobs db \<Longrightarrow>
    prune_periodically interval start k lg (jobs @ [job]) (write_row job db)"
| prunes: "prune_periodically interval start k lg jobs db \<Longrightarrow> prune_now None wall db = (result, db') \<Longrightarrow>
    prune_periodically interval start (Suc k) (lg @ [PruneComplete (prune_total result)]) jobs db'"
| fails: "prune_periodically interval start k lg jobs db \<Longrightarrow> pruned_partly (py_int (fmul wall 1000)) db db' \<Longrightarrow>
    prune_periodically interval start (Suc k) (lg @ [PruneFailed]) jobs db'"

section \<open>Failures cost nothing\<close>

lemma prune_step_ok:
  assumes "prune_step now db db'" "db_ok db"
  shows "db_ok db' \<and> tables db' ''orders_fired'' = tables db ''orders_fired''"
  using assms(1)
proof cases
  case (old_rows t column days)
  have "t \<noteq> ''orders_fired''" using old_rows(2) by (auto simp: retention_def)
  then show ?thesis using db_ok_delete [OF assms(2), of t] by (simp add: old_rows(1) delete_chunk_def)
next
  case orphans
  have same: "db_rows t (db\<lparr>correlations := cs\<rparr>) = db_rows t db" for t cs by (simp add: db_rows_def)
  have "c \<in> set (drop_orphan_chunk db (correlations db))" if "c \<in> set (correlations db)" "referenced db c" for c
    using that by (auto simp: drop_orphan_chunk_def orphan_chunk_def dest: in_set_takeD)
  then show ?thesis using assms(2) unfolding orphans db_ok_def references_closed_def keys_unique_def same
    by (auto simp: referenced_iff)
qed

lemma pruned_partly_ok:
  "pruned_partly now db db' \<Longrightarrow> db_ok db \<Longrightarrow> db_ok db' \<and> tables db' ''orders_fired'' = tables db ''orders_fired''"
  by (induction rule: rtranclp_induct) (simp_all add: prune_step_ok)

lemma periodic_ok:
  assumes "prune_periodically interval empty_db k lg jobs db"
  shows "db_ok db \<and> ids_ok db \<and> length lg = k"
  using assms
proof induction
  case (prunes k lg jobs db wall result db')
  then show ?case using prune_after_part [OF prune_is_steps] pruned_partly_ok [OF prune_is_steps] unfolding prune_now_def
    by (metis length_append_singleton order_refl snd_conv)
next
  case (fails k lg jobs db wall db')
  then show ?case using prune_after_part pruned_partly_ok by (metis length_append_singleton order_refl)
qed (simp_all add: db_ok_empty ids_ok_empty write_row_ok ids_ok_write)

text \<open>On a database kept by the periodic prune, a prune that fails after any of its statements loses no
  order row, breaks no reference, and costs nothing: the next prune leaves exactly the database it
  would have left had the failed one never run.\<close>

section \<open>Witness\<close>


end
