(* ===== verification/Bytes.thy ===== *)
theory Bytes
  imports Prelude "HOL-Library.Word"
begin

text \<open>
  Byte strings, shared by the wake channel and the REST client: bytes as words, and the big-endian
  32-bit length of \<open>struct\<close>.
\<close>

type_synonym byte = "8 word"
type_synonym bytes = "byte list"
text \<open>\<open>struct.pack(">I", n)\<close> and \<open>struct.unpack(">I", data)\<close>, the latter for four bytes.\<close>

definition pack_u32 :: "nat \<Rightarrow> exc + bytes" where
  "pack_u32 n =
     (if 2 ^ 32 \<le> n then Inl StructError
      else Inr [of_nat (n div 2 ^ 24), of_nat (n div 2 ^ 16), of_nat (n div 2 ^ 8), of_nat n])"

definition unpack_u32 :: "bytes \<Rightarrow> nat" where
  "unpack_u32 bs = foldl (\<lambda>acc b. acc * 256 + unat b) 0 bs"

lemma unat_byte: "unat (of_nat k :: byte) = k mod 256"
  by (simp add: unat_of_nat)

lemma four_bytes:
  fixes n :: nat
  assumes "n < 2 ^ 32"
  shows "((n div 2 ^ 24 mod 256 * 256 + n div 2 ^ 16 mod 256) * 256 + n div 2 ^ 8 mod 256) * 256 + n mod 256 = n"
proof -
  have d: "n div 2 ^ 16 = n div 2 ^ 8 div 256" "n div 2 ^ 24 = n div 2 ^ 8 div 256 div 256" "n div 2 ^ 8 = n div 256"
    by (simp_all add: div_mult2_eq [symmetric])
  have "n div 2 ^ 24 < 256" using assms by (simp add: less_mult_imp_div_less)
  then have top: "n div 2 ^ 24 mod 256 = n div 2 ^ 24" by (rule mod_less)
  have "(n div 2 ^ 24 * 256 + n div 2 ^ 16 mod 256) = n div 2 ^ 16"
    unfolding d by (rule div_mult_mod_eq)
  moreover have "n div 2 ^ 16 * 256 + n div 2 ^ 8 mod 256 = n div 2 ^ 8"
    unfolding d by (rule div_mult_mod_eq)
  moreover have "n div 2 ^ 8 * 256 + n mod 256 = n"
    unfolding d by (rule div_mult_mod_eq)
  ultimately show ?thesis unfolding top by (simp only:)
qed

lemma pack_u32_spec:
  assumes "n < 2 ^ 32"
  obtains prefix where "pack_u32 n = Inr prefix" "length prefix = 4" "unpack_u32 prefix = n"
proof
  show "pack_u32 n = Inr [of_nat (n div 2 ^ 24), of_nat (n div 2 ^ 16), of_nat (n div 2 ^ 8), of_nat n]"
    using assms by (simp add: pack_u32_def)
  show "unpack_u32 [of_nat (n div 2 ^ 24), of_nat (n div 2 ^ 16), of_nat (n div 2 ^ 8), of_nat n] = n"
    unfolding unpack_u32_def foldl.simps unat_byte by (simp only: four_bytes [OF assms] mult_0 add_0)
qed simp

end
