(* ===== verification/Wake_Protocol.thy ===== *)
theory Wake_Protocol
  imports Bytes
begin

text \<open>
  \<open>ipc/protocol.py\<close> and \<open>runtime/clock.py\<close>: the frames between poller and executor. A frame is a
  four-byte big-endian length and a JSON body. The JSON codec is a third-party package (\<open>orjson\<close>)
  and a parameter here: \<open>dumps\<close> from values to bytes and \<open>loads\<close> back. A decoded message is checked
  by \<open>cls(**data)\<close> for its keys only, so it is a dictionary of JSON values; \<open>message_of\<close> is its view
  at the annotated types, which the poller's own messages always have.
\<close>

type_synonym fields = "(string \<times> jvalue) list"

definition schema_version :: int where "schema_version = 4"
definition frame_length_bytes :: nat where "frame_length_bytes = 4"
definition max_frame_bytes :: nat where "max_frame_bytes = 64 * 1024"

section \<open>Messages\<close>

record wake_message =
  msg_schema_version :: int
  correlation_id :: string
  market_ticker :: ticker
  asset :: string
  direction :: string
  kalshi_price :: pyfloat
  model_probability :: pyfloat
  fee :: pyfloat
  edge :: pyfloat
  decision_ts_ms :: ms
  sent_at_ms :: ms
  sent_at_ns :: ns
  recv_ns :: ns
  clock_domain_of :: string
  dry_run :: bool
  wire_price_yes_dollars :: pyfloat
  exchange_index :: int
  available_size_contracts :: pyfloat
  price_ranges :: "pyfloat list list"
  correlation_group :: string

text \<open>The dataclass fields in order, with the defaults of those that have one.\<close>

definition wake_fields :: "(string \<times> jvalue option) list" where
  "wake_fields =
     [(''schema_version'', None), (''correlation_id'', None), (''market_ticker'', None), (''asset'', None),
      (''direction'', None), (''kalshi_price'', None), (''model_probability'', None), (''fee'', None),
      (''edge'', None), (''decision_ts_ms'', None), (''sent_at_ms'', None), (''sent_at_ns'', None),
      (''recv_ns'', Some (JScalar (JInt 0))),
      (''clock_domain'', Some (JScalar (JStr []))),
      (''dry_run'', Some (JScalar (JBool False))),
      (''wire_price_yes_dollars'', Some (JScalar (JFloat 0))),
      (''exchange_index'', Some (JScalar (JInt (- 1)))),
      (''available_size_contracts'', Some (JScalar (JFloat 0))),
      (''price_ranges'', Some (JArray [JArray [JScalar (JFloat 0), JScalar (JFloat 1), JScalar (JFloat (lit 1 100))]])),
      (''correlation_group'', Some (JScalar (JStr [])))]"

definition ack_fields :: "(string \<times> jvalue option) list" where
  "ack_fields =
     [(''schema_version'', None), (''correlation_id'', None), (''received_at_ms'', None),
      (''status'', None), (''reason'', Some (JScalar JNull))]"

text \<open>
  \<open>cls(**data)\<close> of a dataclass: \<open>data\<close> must be a dictionary, every key a field, and every field
  without a default present. The dictionary of a JSON document has distinct keys.
\<close>

definition init_fields :: "(string \<times> jvalue option) list \<Rightarrow> jvalue \<Rightarrow> exc + (string \<rightharpoonup> jvalue)" where
  "init_fields spec data =
     (case data of
        JObject kvs \<Rightarrow>
          if \<not> list_all (\<lambda>kv. fst kv \<in> set (map fst spec)) kvs then Inl TypeError
          else if \<not> list_all (\<lambda>(k, d). d \<noteq> None \<or> k \<in> set (map fst kvs)) spec then Inl TypeError
          else Inr (map_of (map (\<lambda>(k, d). (k, case map_of kvs k of Some v \<Rightarrow> v | None \<Rightarrow> the d)) spec))
      | _ \<Rightarrow> Inl TypeError)"

definition floats_json :: "pyfloat list \<Rightarrow> jvalue" where
  "floats_json xs = JArray (map (\<lambda>x. JScalar (JFloat x)) xs)"

text \<open>What \<open>orjson\<close> serializes for a message: its fields, in order.\<close>

definition message_json :: "wake_message \<Rightarrow> jvalue" where
  "message_json m = JObject
     [(''schema_version'', JScalar (JInt (msg_schema_version m))),
      (''correlation_id'', JScalar (JStr (correlation_id m))),
      (''market_ticker'', JScalar (JStr (market_ticker m))),
      (''asset'', JScalar (JStr (asset m))),
      (''direction'', JScalar (JStr (direction m))),
      (''kalshi_price'', JScalar (JFloat (kalshi_price m))),
      (''model_probability'', JScalar (JFloat (model_probability m))),
      (''fee'', JScalar (JFloat (fee m))),
      (''edge'', JScalar (JFloat (edge m))),
      (''decision_ts_ms'', JScalar (JInt (decision_ts_ms m))),
      (''sent_at_ms'', JScalar (JInt (sent_at_ms m))),
      (''sent_at_ns'', JScalar (JInt (sent_at_ns m))),
      (''recv_ns'', JScalar (JInt (recv_ns m))),
      (''clock_domain'', JScalar (JStr (clock_domain_of m))),
      (''dry_run'', JScalar (JBool (dry_run m))),
      (''wire_price_yes_dollars'', JScalar (JFloat (wire_price_yes_dollars m))),
      (''exchange_index'', JScalar (JInt (exchange_index m))),
      (''available_size_contracts'', JScalar (JFloat (available_size_contracts m))),
      (''price_ranges'', JArray (map floats_json (price_ranges m))),
      (''correlation_group'', JScalar (JStr (correlation_group m)))]"

text \<open>The typed view of a decoded message; a JSON integer where a float is annotated is that float.\<close>

fun as_int :: "jvalue option \<Rightarrow> int option" where
  "as_int (Some (JScalar (JInt n))) = Some n" | "as_int _ = None"
fun as_str :: "jvalue option \<Rightarrow> string option" where
  "as_str (Some (JScalar (JStr s))) = Some s" | "as_str _ = None"
fun as_bool :: "jvalue option \<Rightarrow> bool option" where
  "as_bool (Some (JScalar (JBool b))) = Some b" | "as_bool _ = None"
fun as_number :: "jvalue option \<Rightarrow> pyfloat option" where
  "as_number (Some (JScalar (JFloat x))) = Some x"
| "as_number (Some (JScalar (JInt n))) = Some (float_of n)"
| "as_number _ = None"

fun all_some :: "'a option list \<Rightarrow> 'a list option" where
  "all_some [] = Some []"
| "all_some (None # _) = None"
| "all_some (Some x # xs) = map_option (Cons x) (all_some xs)"

fun as_floats :: "jvalue option \<Rightarrow> pyfloat list option" where
  "as_floats (Some (JArray vs)) = all_some (map (\<lambda>v. as_number (Some v)) vs)" | "as_floats _ = None"
fun as_ranges :: "jvalue option \<Rightarrow> pyfloat list list option" where
  "as_ranges (Some (JArray vs)) = all_some (map (\<lambda>v. as_floats (Some v)) vs)" | "as_ranges _ = None"

definition message_of :: "(string \<rightharpoonup> jvalue) \<Rightarrow> wake_message option" where
  "message_of d =
     (case (as_int (d ''schema_version''), as_str (d ''correlation_id''), as_str (d ''market_ticker''),
            as_str (d ''asset''), as_str (d ''direction'')) of
        (Some v, Some cid, Some tk, Some a, Some dir) \<Rightarrow>
          (case (as_number (d ''kalshi_price''), as_number (d ''model_probability''), as_number (d ''fee''),
                 as_number (d ''edge''), as_int (d ''decision_ts_ms''), as_int (d ''sent_at_ms''),
                 as_int (d ''sent_at_ns'')) of
             (Some kp, Some mp, Some f, Some e, Some dts, Some sms, Some sns) \<Rightarrow>
               (case (as_int (d ''recv_ns''), as_str (d ''clock_domain''), as_bool (d ''dry_run''),
                      as_number (d ''wire_price_yes_dollars''), as_int (d ''exchange_index''),
                      as_number (d ''available_size_contracts''), as_ranges (d ''price_ranges''),
                      as_str (d ''correlation_group'')) of
                  (Some rns, Some cd, Some dry, Some wp, Some ix, Some sz, Some rs, Some grp) \<Rightarrow>
                    Some \<lparr>msg_schema_version = v, correlation_id = cid, market_ticker = tk, asset = a,
                      direction = dir, kalshi_price = kp, model_probability = mp, fee = f, edge = e,
                      decision_ts_ms = dts, sent_at_ms = sms, sent_at_ns = sns, recv_ns = rns,
                      clock_domain_of = cd, dry_run = dry, wire_price_yes_dollars = wp,
                      exchange_index = ix, available_size_contracts = sz, price_ranges = rs,
                      correlation_group = grp\<rparr>
                | _ \<Rightarrow> None)
           | _ \<Rightarrow> None)
      | _ \<Rightarrow> None)"

definition is_clock_comparable_to :: "wake_message \<Rightarrow> string \<Rightarrow> bool" where
  "is_clock_comparable_to m local \<longleftrightarrow> 0 < recv_ns m \<and> clock_domain_of m = local \<and> local \<noteq> []"

datatype ack_status = AckAccepted | AckRejected

record wake_ack =
  ack_schema_version :: int
  ack_correlation_id :: jvalue
  ack_received_at_ms :: ms
  ack_status :: ack_status
  ack_reason :: "string option"

definition ack_json :: "wake_ack \<Rightarrow> jvalue" where
  "ack_json a = JObject
     [(''schema_version'', JScalar (JInt (ack_schema_version a))),
      (''correlation_id'', ack_correlation_id a),
      (''received_at_ms'', JScalar (JInt (ack_received_at_ms a))),
      (''status'', JScalar (JStr (case ack_status a of AckAccepted \<Rightarrow> ''accepted'' | AckRejected \<Rightarrow> ''rejected''))),
      (''reason'', JScalar (case ack_reason a of None \<Rightarrow> JNull | Some s \<Rightarrow> JStr s))]"

section \<open>Frames\<close>

definition encode_frame :: "(jvalue \<Rightarrow> bytes) \<Rightarrow> jvalue \<Rightarrow> exc + bytes" where
  "encode_frame dumps payload =
     (let body = dumps payload
      in case pack_u32 (length body) of Inl e \<Rightarrow> Inl e | Inr prefix \<Rightarrow> Inr (prefix @ body))"

definition decode_wake_message :: "(bytes \<Rightarrow> exc + jvalue) \<Rightarrow> bytes \<Rightarrow> exc + (string \<rightharpoonup> jvalue)" where
  "decode_wake_message loads body =
     (case loads body of Inl e \<Rightarrow> Inl e | Inr data \<Rightarrow> init_fields wake_fields data)"

definition decode_wake_ack :: "(bytes \<Rightarrow> exc + jvalue) \<Rightarrow> bytes \<Rightarrow> exc + (string \<rightharpoonup> jvalue)" where
  "decode_wake_ack loads body =
     (case loads body of Inl e \<Rightarrow> Inl e | Inr data \<Rightarrow> init_fields ack_fields data)"

text \<open>
  The reader's side: a stream is what the peer sends before it closes. \<open>readexactly\<close> takes that many
  bytes or raises \<open>IncompleteReadError\<close>.
\<close>

definition readexactly :: "nat \<Rightarrow> bytes \<Rightarrow> exc + bytes \<times> bytes" where
  "readexactly n stream = (if length stream < n then Inl IncompleteRead else Inr (take n stream, drop n stream))"

definition read_frame_body :: "bytes \<Rightarrow> exc + bytes \<times> bytes" where
  "read_frame_body stream =
     (case readexactly frame_length_bytes stream of
        Inl e \<Rightarrow> Inl e
      | Inr (prefix, rest) \<Rightarrow>
          let n = unpack_u32 prefix
          in if max_frame_bytes < n then Inl ValueError else readexactly n rest)"

section \<open>The clock domain\<close>

text \<open>\<open>boot\<close> is \<open>time.time() - time.monotonic()\<close>; float \<open>//\<close> floors, and the result is an integer.\<close>

definition boot_quantum_seconds :: int where "boot_quantum_seconds = 60"

definition boot_epoch_seconds :: "pyfloat \<Rightarrow> pyfloat \<Rightarrow> int" where
  "boot_epoch_seconds wall monotonic =
     \<lfloor>fsub wall monotonic / of_int boot_quantum_seconds\<rfloor> * boot_quantum_seconds"

definition clock_domain :: "string \<Rightarrow> pyfloat \<Rightarrow> pyfloat \<Rightarrow> string" where
  "clock_domain hostname wall monotonic =
     hostname @ '':'' @ int_text (boot_epoch_seconds wall monotonic)"

text \<open>\<open>wall_clock_ms\<close> of a reading of \<open>time.time_ns()\<close>.\<close>

definition wall_clock_ms :: "int \<Rightarrow> ms" where "wall_clock_ms time_ns = time_ns div 1000000"

lemma wall_clock_ms_mono: "t \<le> t' \<Longrightarrow> wall_clock_ms t \<le> wall_clock_ms t'"
  by (simp add: wall_clock_ms_def zdiv_mono1)

section \<open>Frames read back\<close>

lemma read_encoded:
  assumes "length (dumps payload) < 2 ^ 32"
  obtains frame where "encode_frame dumps payload = Inr frame"
    "read_frame_body (frame @ rest) =
      (if length (dumps payload) \<le> max_frame_bytes then Inr (dumps payload, rest) else Inl ValueError)"
proof -
  obtain prefix where p: "pack_u32 (length (dumps payload)) = Inr prefix" "length prefix = 4"
      "unpack_u32 prefix = length (dumps payload)"
    using pack_u32_spec [OF assms] .
  show thesis
  proof (rule that [of "prefix @ dumps payload"])
    show "encode_frame dumps payload = Inr (prefix @ dumps payload)" by (simp add: encode_frame_def p)
    show "read_frame_body ((prefix @ dumps payload) @ rest) =
        (if length (dumps payload) \<le> max_frame_bytes then Inr (dumps payload, rest) else Inl ValueError)"
      by (simp add: read_frame_body_def readexactly_def frame_length_bytes_def p Let_def not_le)
  qed
qed

section \<open>Messages read back\<close>

lemma all_some_map_Some: "all_some (map Some xs) = Some xs"
  by (induction xs) simp_all

lemma as_floats_json [simp]: "as_floats (Some (floats_json xs)) = Some xs"
  by (simp add: floats_json_def comp_def all_some_map_Some)

lemma all_some_floats [simp]: "all_some (map ((\<lambda>v. as_floats (Some v)) \<circ> floats_json) rs) = Some rs"
  by (induction rs) simp_all

text \<open>The keys a message may omit take their defaults; the fields of a message are read back as they are.\<close>

lemma init_message:
  "init_fields wake_fields (message_json m) = Inr (map_of (case message_json m of JObject kvs \<Rightarrow> kvs))"
  by (simp add: init_fields_def wake_fields_def message_json_def)

lemma message_of_json: "message_of (map_of (case message_json m of JObject kvs \<Rightarrow> kvs)) = Some m"
  by (simp add: message_of_def message_json_def)

lemma decode_message:
  "loads body = Inr (message_json m) \<Longrightarrow>
     \<exists>d. decode_wake_message loads body = Inr d \<and> message_of d = Some m \<and>
       d ''correlation_id'' = Some (JScalar (JStr (correlation_id m))) \<and>
       d ''dry_run'' = Some (JScalar (JBool (dry_run m)))"
  by (simp add: decode_wake_message_def init_message message_of_json) (simp add: message_json_def)

text \<open>C25. A wake message whose encoding fits a frame is read back from the stream, and nothing more
  is read, and it decodes to the message that was sent, field by field.\<close>
theorem wake_message_roundtrip:
  assumes "loads (dumps (message_json m)) = Inr (message_json m)"
    and "length (dumps (message_json m)) \<le> max_frame_bytes"
  shows "\<exists>frame body d. encode_frame dumps (message_json m) = Inr frame \<and>
    read_frame_body (frame @ rest) = Inr (body, rest) \<and>
    decode_wake_message loads body = Inr d \<and> message_of d = Some m"
proof -
  have "length (dumps (message_json m)) < 2 ^ 32" using assms(2) by (simp add: max_frame_bytes_def)
  from read_encoded [where dumps = dumps and payload = "message_json m" and rest = rest, OF this] obtain frame where "encode_frame dumps (message_json m) = Inr frame"
      "read_frame_body (frame @ rest) = Inr (dumps (message_json m), rest)"
    using assms(2) by auto
  then show ?thesis using decode_message [where loads = loads and body = "dumps (message_json m)" and m = m, OF assms(1)] by blast
qed

theorem oversized_frame_is_sent_but_not_read:
  assumes "max_frame_bytes < length (dumps payload)" "length (dumps payload) < 2 ^ 32"
  shows "\<exists>frame. encode_frame dumps payload = Inr frame \<and> read_frame_body (frame @ rest) = Inl ValueError"
  using read_encoded [where dumps = dumps and payload = payload and rest = rest, OF assms(2)] assms(1) by (metis not_le)

text \<open>The fields of a message as they are written out, and a message as an older writer's frame leaves it.\<close>

definition message_fields :: "wake_message \<Rightarrow> fields" where
  "message_fields m = (case message_json m of JObject kvs \<Rightarrow> kvs)"

definition without_v4 :: "wake_message \<Rightarrow> wake_message" where
  "without_v4 m = m\<lparr>correlation_group := []\<rparr>"

definition without_v3 :: "wake_message \<Rightarrow> wake_message" where
  "without_v3 m = (without_v4 m)\<lparr>wire_price_yes_dollars := 0, exchange_index := - 1,
     available_size_contracts := 0, price_ranges := [[0, 1, lit 1 100]]\<rparr>"

definition without_v2 :: "wake_message \<Rightarrow> wake_message" where
  "without_v2 m = (without_v3 m)\<lparr>recv_ns := 0, clock_domain_of := [], dry_run := False\<rparr>"

definition decoded :: "fields \<Rightarrow> exc + wake_message option" where
  "decoded kvs = (case init_fields wake_fields (JObject kvs) of Inl e \<Rightarrow> Inl e | Inr d \<Rightarrow> Inr (message_of d))"

lemma decoded_short:
  assumes "n < 12"
  shows "decoded (take n (message_fields m)) = Inl TypeError"
proof -
  have "set (take n (message_fields m)) \<subseteq> set (take 11 (message_fields m))"
    using assms by (intro set_take_subset_set_take) simp
  moreover have "''sent_at_ns'' \<notin> fst ` set (take 11 (message_fields m))"
    by (simp add: message_fields_def message_json_def)
  ultimately have "''sent_at_ns'' \<notin> fst ` set (take n (message_fields m))" by blast
  moreover have "(''sent_at_ns'', None) \<in> set wake_fields" by (simp add: wake_fields_def)
  ultimately have "\<not> list_all (\<lambda>(k, d). d \<noteq> None \<or> k \<in> set (map fst (take n (message_fields m)))) wake_fields"
    by (force simp: list_all_iff)
  then show ?thesis by (simp add: decoded_def init_fields_def)
qed

theorem older_frames_take_the_safe_defaults:
  "decoded (take 19 (message_fields m)) = Inr (Some (without_v4 m)) \<and>
   decoded (take 15 (message_fields m)) = Inr (Some (without_v3 m)) \<and>
   decoded (take 12 (message_fields m)) = Inr (Some (without_v2 m)) \<and>
   (n < 12 \<longrightarrow> decoded (take n (message_fields m)) = Inl TypeError) \<and>
   \<not> is_clock_comparable_to (without_v2 m) local"
proof -
  have "decoded (take 19 (message_fields m)) = Inr (Some (without_v4 m))"
    by (simp add: decoded_def init_fields_def wake_fields_def message_fields_def message_json_def message_of_def without_v4_def)
  moreover have "decoded (take 15 (message_fields m)) = Inr (Some (without_v3 m))"
    by (simp add: decoded_def init_fields_def wake_fields_def message_fields_def message_json_def message_of_def
        without_v4_def without_v3_def)
  moreover have "decoded (take 12 (message_fields m)) = Inr (Some (without_v2 m))"
    by (simp add: decoded_def init_fields_def wake_fields_def message_fields_def message_json_def message_of_def
        without_v4_def without_v3_def without_v2_def)
  moreover have "decoded (take n (message_fields m)) = Inl TypeError" if "n < 12"
    using that by (rule decoded_short)
  moreover have "\<not> is_clock_comparable_to (without_v2 m) local"
    by (simp add: is_clock_comparable_to_def without_v2_def)
  ultimately show ?thesis by blast
qed

section \<open>Witnesses\<close>

text \<open>A codec for the instances: a document of one message is stored as a fixed body of the given length.\<close>

definition sample_message :: wake_message where
  "sample_message =
     \<lparr>msg_schema_version = 4, correlation_id = ''c1'', market_ticker = ''BTC-26-T1'', asset = ''BTC'',
      direction = ''yes'', kalshi_price = 1 / 2, model_probability = 3 / 4, fee = 1 / 64, edge = 1 / 4,
      decision_ts_ms = 90000, sent_at_ms = 90001, sent_at_ns = 5000, recv_ns = 4000,
      clock_domain_of = ''host:60'', dry_run = False, wire_price_yes_dollars = 1 / 2, exchange_index = 0,
      available_size_contracts = 0, price_ranges = [[0, 1, 1 / 128]], correlation_group = ''btc''\<rparr>"

theorem wake_message_roundtrip_witness:
  "\<exists>frame body d. encode_frame (\<lambda>_. replicate 300 1) (message_json sample_message) = Inr frame \<and>
    read_frame_body (frame @ []) = Inr (body, []) \<and>
    decode_wake_message (\<lambda>_. Inr (message_json sample_message)) body = Inr d \<and> message_of d = Some sample_message"
  by (rule wake_message_roundtrip) (simp_all add: max_frame_bytes_def)

theorem oversized_frame_is_sent_but_not_read_witness:
  "\<exists>frame. encode_frame (\<lambda>_. replicate 70000 1) (message_json sample_message) = Inr frame \<and>
    read_frame_body (frame @ []) = Inl ValueError"
  by (rule oversized_frame_is_sent_but_not_read) (simp_all add: max_frame_bytes_def)

theorem older_frames_take_the_safe_defaults_witness:
  "decoded (take 5 (message_fields sample_message)) = Inl TypeError"
  using older_frames_take_the_safe_defaults [of sample_message 5] by simp

end
