(* ===== verification/Retry.thy ===== *)
theory Retry
  imports Prelude
begin

text \<open>
  \<open>transport/retry.py\<close>. An operation is run against a state, the exchange and everything else a
  request touches, and either returns or raises; each attempt is one run. The exceptions are the
  classes the retry predicate distinguishes, with \<open>OtherError\<close> for all the rest, timeouts included.
\<close>

datatype transport_error =
    ResponseError int string
  | ServerTimeoutError
  | ConnectionError string
  | TimeoutError
  | OtherError string

definition retryable_statuses :: "int list" where
  "retryable_statuses = [429, 500, 502, 503, 504]"

definition is_retryable :: "transport_error \<Rightarrow> bool" where
  "is_retryable e =
     (case e of
        ResponseError status _ \<Rightarrow> status \<in> set retryable_statuses
      | ServerTimeoutError \<Rightarrow> False
      | ConnectionError _ \<Rightarrow> True
      | _ \<Rightarrow> False)"

definition default_attempts :: nat where "default_attempts = 3"

text \<open>The delay after attempt \<open>n\<close>, for a draw of \<open>random.random()\<close> in the half-open unit interval.\<close>

definition backoff_delay :: "nat \<Rightarrow> pyfloat \<Rightarrow> pyfloat" where
  "backoff_delay attempt draw =
     fmul (min 2 (fmul (1 / 4) (float_of (2 ^ (attempt - 1))))) (fadd (1 / 2) (fdiv draw 2))"

text \<open>
  The loop, from attempt \<open>n\<close> with \<open>left\<close> attempts to go. The draws are a stream of random numbers;
  the result carries the delays slept, one per retry, and the state the attempts left.
\<close>

fun retry_from ::
    "('s \<Rightarrow> (transport_error + 'a) \<times> 's) \<Rightarrow> (transport_error \<Rightarrow> bool) \<Rightarrow> (nat \<Rightarrow> pyfloat) \<Rightarrow>
     nat \<Rightarrow> nat \<Rightarrow> 's \<Rightarrow> (transport_error + 'a) \<times> pyfloat list \<times> 's" where
  "retry_from operation retryable draws 0 n s = (Inl (OtherError ''AssertionError''), [], s)"
| "retry_from operation retryable draws (Suc left) n s =
     (case operation s of
        (Inr x, s') \<Rightarrow> (Inr x, [], s')
      | (Inl e, s') \<Rightarrow>
          if left = 0 \<or> \<not> retryable e then (Inl e, [], s')
          else
            (let (r, delays, s'') = retry_from operation retryable draws left (Suc n) s'
             in (r, backoff_delay n (draws n) # delays, s'')))"

definition with_retries ::
    "('s \<Rightarrow> (transport_error + 'a) \<times> 's) \<Rightarrow> (transport_error \<Rightarrow> bool) \<Rightarrow> (nat \<Rightarrow> pyfloat) \<Rightarrow>
     nat \<Rightarrow> 's \<Rightarrow> (transport_error + 'a) \<times> pyfloat list \<times> 's" where
  "with_retries operation retryable draws attempts s = retry_from operation retryable draws attempts 1 s"

section \<open>What a retried operation does\<close>

text \<open>The results and states of the first \<open>k\<close> runs from \<open>s\<close>.\<close>

fun runs :: "('s \<Rightarrow> ('e + 'a) \<times> 's) \<Rightarrow> nat \<Rightarrow> 's \<Rightarrow> ('e + 'a) list \<times> 's" where
  "runs operation 0 s = ([], s)"
| "runs operation (Suc k) s =
     (let (r, s') = operation s; (rs, s'') = runs operation k s' in (r # rs, s''))"

definition failed_with :: "('e \<Rightarrow> bool) \<Rightarrow> 'e + 'a \<Rightarrow> bool" where
  "failed_with P r \<longleftrightarrow> (case r of Inl e \<Rightarrow> P e | Inr _ \<Rightarrow> False)"

text \<open>
  The call is exactly a number of runs between one and the attempts: all before the last failed in
  a way that may be retried, the last is the result, and the loop stopped only because it could
  not or must not go on. In particular nothing is ever run again after a timeout.
\<close>

lemma retry_from_runs:
  assumes "0 < left"
  shows "\<exists>k rs s'. 1 \<le> k \<and> k \<le> left \<and> runs operation k s = (rs, s') \<and>
    retry_from operation retryable draws left n s =
      (last rs, map (\<lambda>i. backoff_delay (n + i) (draws (n + i))) [0..<k - 1], s') \<and>
    length rs = k \<and> list_all (failed_with retryable) (butlast rs) \<and>
    (k < left \<longrightarrow> \<not> failed_with retryable (last rs))"
  using assms
proof (induction left arbitrary: n s)
  case 0
  then show ?case by simp
next
  case (Suc left)
  obtain r s1 where op: "operation s = (r, s1)" by force
  show ?case
  proof (cases "failed_with retryable r \<and> left \<noteq> 0")
    case False
    then show ?thesis
      by (intro exI [of _ 1] exI [of _ "[r]"] exI [of _ s1])
        (auto simp: op failed_with_def split: sum.splits)
  next
    case True
    then obtain e where e: "r = Inl e" "retryable e" by (auto simp: failed_with_def split: sum.splits)
    obtain k rs s' where IH: "1 \<le> k" "k \<le> left" "runs operation k s1 = (rs, s')"
      "retry_from operation retryable draws left (Suc n) s1 =
        (last rs, map (\<lambda>i. backoff_delay (Suc n + i) (draws (Suc n + i))) [0..<k - 1], s')"
      "length rs = k" "list_all (failed_with retryable) (butlast rs)"
      "k < left \<longrightarrow> \<not> failed_with retryable (last rs)"
      using Suc.IH [of s1 "Suc n"] True by blast
    have ne: "rs \<noteq> []" using IH(1,5) by auto
    have "map (\<lambda>i. backoff_delay (n + i) (draws (n + i))) [0..<Suc (k - 1)] =
        backoff_delay n (draws n) # map (\<lambda>i. backoff_delay (Suc n + i) (draws (Suc n + i))) [0..<k - 1]"
      by (simp add: upt_conv_Cons map_Suc_upt [symmetric] del: upt_Suc)
    then have "retry_from operation retryable draws (Suc left) n s =
        (last (r # rs), map (\<lambda>i. backoff_delay (n + i) (draws (n + i))) [0..<Suc k - 1], s')"
      using IH(1,4) e ne True op by simp
    moreover have "list_all (failed_with retryable) (butlast (r # rs))"
      using IH(6) ne True by simp
    moreover have "runs operation (Suc k) s = (r # rs, s')" by (simp add: op IH(3))
    ultimately show ?thesis
      using IH(1,2,5,7) ne by (intro exI [of _ "Suc k"] exI [of _ "r # rs"] exI [of _ s']) auto
  qed
qed

text \<open>A retried operation is run between one and attempts times and then ends; every run but the
  last failed in a retryable way, the result is that of the last run, and the loop gave up early
  only on a success or on a failure that must not be retried, such as a timeout.\<close>
theorem with_retries_runs:
  assumes "0 < attempts" "with_retries operation is_retryable draws attempts s = (r, delays, s')"
  shows "\<exists>rs. length rs = length delays + 1 \<and> length rs \<le> attempts \<and>
    runs operation (length rs) s = (rs, s') \<and> r = last rs \<and>
    list_all (failed_with is_retryable) (butlast rs) \<and>
    (length rs < attempts \<longrightarrow> \<not> failed_with is_retryable r)"
proof -
  obtain k rs t where k: "1 \<le> k" "k \<le> attempts" "runs operation k s = (rs, t)"
    "with_retries operation is_retryable draws attempts s =
      (last rs, map (\<lambda>i. backoff_delay (1 + i) (draws (1 + i))) [0..<k - 1], t)"
    "length rs = k" "list_all (failed_with is_retryable) (butlast rs)"
    "k < attempts \<longrightarrow> \<not> failed_with is_retryable (last rs)"
    using retry_from_runs [OF assms(1), of operation s is_retryable draws 1]
    unfolding with_retries_def by blast
  then have "r = last rs" "t = s'" "length delays = k - 1" using assms(2) by auto
  then show ?thesis using k by (intro exI [of _ rs]) auto
qed

text \<open>A concrete exchange, for the witness: a 503, then an ambiguous timeout, then it would succeed.\<close>

definition flaky :: "nat \<Rightarrow> (transport_error + string) \<times> nat" where
  "flaky n = (if n = 0 then Inl (ResponseError 503 []) else if n = 1 then Inl TimeoutError else Inr ''ok'', n + 1)"

theorem with_retries_runs_witness:
  "with_retries flaky is_retryable (\<lambda>_. 0) 3 0 = (Inl TimeoutError, [backoff_delay 1 0], 2) \<and>
   (\<exists>rs. length rs = 2 \<and> runs flaky 2 0 = (rs, 2) \<and> last rs = Inl TimeoutError)"
proof -
  have w: "with_retries flaky is_retryable (\<lambda>_. 0) 3 0 = (Inl TimeoutError, [backoff_delay 1 0], 2)"
    by (simp add: with_retries_def flaky_def is_retryable_def retryable_statuses_def numeral_3_eq_3)
  obtain rs where rs: "length rs = length [backoff_delay 1 0] + 1" "runs flaky (length rs) 0 = (rs, 2)"
    "Inl TimeoutError = last rs"
    using with_retries_runs [OF zero_less_numeral w] by blast
  from rs(1) have "length rs = 2" by simp
  with rs w show ?thesis by metis
qed

text \<open>Every delay lies between an eighth of a second and the two-second ceiling.\<close>

theorem backoff_delay_bounds:
  assumes "0 \<le> draw" "draw < 1" "1 \<le> attempt"
  shows "1 / 8 \<le> backoff_delay attempt draw \<and> backoff_delay attempt draw \<le> 2"
proof -
  have dy: "rnd (1 / 4) = 1 / 4" "rnd (1 / 2) = 1 / 2" "rnd (1 / 8) = 1 / 8"
    using rnd_dyadic [of 1 "- 2"] rnd_dyadic [of 1 "- 1"] rnd_dyadic [of 1 "- 3"]
    by (simp_all add: power_int_minus)
  have "(1 :: int) \<le> 2 ^ (attempt - 1)" by simp
  then have "(1 :: rat) \<le> of_int (2 ^ (attempt - 1))" by (simp only: of_int_1_le_iff)
  then have "1 \<le> float_of (2 ^ (attempt - 1))"
    unfolding float_of_def using f64.rd_ge_int [of 1] by simp
  then have b: "1 / 4 \<le> fmul (1 / 4) (float_of (2 ^ (attempt - 1)))"
    unfolding fmul_def by (intro f64.rd_ge_fixed) (simp_all add: dy)
  have d: "0 \<le> fdiv draw 2" "fdiv draw 2 \<le> 1 / 2"
    unfolding fdiv_def by (rule rnd_nonneg, use assms in simp, rule f64.rd_le_fixed [OF _ dy(2)], use assms in simp)
  have j: "1 / 2 \<le> fadd (1 / 2) (fdiv draw 2)" "fadd (1 / 2) (fdiv draw 2) \<le> 1"
    unfolding fadd_def
    by (rule f64.rd_ge_fixed [OF _ dy(2)], use d in simp, rule f64.rd_le_fixed [OF _ rnd_numeral_1], use d in simp)
  let ?m = "min 2 (fmul (1 / 4) (float_of (2 ^ (attempt - 1))))"
  have m: "1 / 4 \<le> ?m" "?m \<le> 2" using b by auto
  have "1 / 4 * (1 / 2) \<le> ?m * fadd (1 / 2) (fdiv draw 2)"
    using m j by (intro mult_mono) auto
  moreover have "?m * fadd (1 / 2) (fdiv draw 2) \<le> 2 * 1" using m j by (intro mult_mono) auto
  moreover have "rnd 2 = 2" using rnd_of_int [of 2] by simp
  ultimately have "1 / 8 \<le> rnd (?m * fadd (1 / 2) (fdiv draw 2))" "rnd (?m * fadd (1 / 2) (fdiv draw 2)) \<le> 2"
    using f64.rd_ge_fixed [OF _ dy(3)] f64.rd_le_fixed [of _ 2] by simp_all
  then show ?thesis unfolding backoff_delay_def fmul_def [of "min _ _"] by blast
qed

theorem backoff_delay_bounds_witness: "1 / 8 \<le> backoff_delay 3 (1 / 2) \<and> backoff_delay 3 (1 / 2) \<le> 2"
  by (rule backoff_delay_bounds) simp_all

end
