(* ===== verification/Rate_Limit.thy ===== *)
theory Rate_Limit
  imports Prelude
begin

text \<open>
  \<open>transport/rate_limit.py\<close>: a token bucket on the monotonic clock, and the pair of buckets that
  meters reads and writes apart. An acquire holds the bucket's lock over its sleep, so it is one
  step with two clock readings: on entry, and after the sleep when there was one.
\<close>

record bucket =
  rate_per_second :: pyfloat
  capacity :: pyfloat
  tokens :: pyfloat
  refilled_at_ns :: ns

definition tokens_per_request :: pyfloat where "tokens_per_request = 10"

definition new_bucket :: "pyfloat \<Rightarrow> pyfloat \<Rightarrow> ns \<Rightarrow> bucket" where
  "new_bucket rate cap now =
     \<lparr>rate_per_second = rate, capacity = cap, tokens = cap, refilled_at_ns = now\<rparr>"

text \<open>The true division of two integers rounds the exact quotient once.\<close>

definition refill :: "ns \<Rightarrow> bucket \<Rightarrow> bucket" where
  "refill now b =
     (let elapsed = rnd (of_int (now - refilled_at_ns b) / 1000000000)
      in b\<lparr>refilled_at_ns := now,
           tokens := min (capacity b) (fadd (tokens b) (fmul elapsed (rate_per_second b)))\<rparr>)"

definition bucket_acquire :: "pyfloat \<Rightarrow> ns \<Rightarrow> ns \<Rightarrow> bucket \<Rightarrow> pyfloat \<times> bucket" where
  "bucket_acquire cost now woken b =
     (let b1 = refill now b;
          (waited, b2) =
            (if tokens b1 < cost
             then (fdiv (fsub cost (tokens b1)) (rate_per_second b1), refill woken b1)
             else (0, b1))
      in (waited, b2\<lparr>tokens := max 0 (fsub (tokens b2) cost)\<rparr>))"

record limiter =
  read_bucket :: bucket
  write_bucket :: bucket

definition new_limiter :: "pyfloat \<Rightarrow> pyfloat \<Rightarrow> ns \<Rightarrow> ns \<Rightarrow> limiter" where
  "new_limiter reads writes now now' =
     \<lparr>read_bucket = new_bucket reads (fmul reads 1) now,
      write_bucket = new_bucket writes (fmul writes 1) now'\<rparr>"

text \<open>\<open>method.upper()\<close> of an ASCII method name.\<close>

definition upper :: "string \<Rightarrow> string" where
  "upper s = map (\<lambda>c. if 97 \<le> (of_char c :: nat) \<and> (of_char c :: nat) \<le> 122
     then char_of ((of_char c :: nat) - 32) else c) s"

definition limiter_acquire :: "string \<Rightarrow> ns \<Rightarrow> ns \<Rightarrow> limiter \<Rightarrow> pyfloat \<times> limiter" where
  "limiter_acquire method now woken l =
     (if upper method = ''GET''
      then (let (w, b) = bucket_acquire tokens_per_request now woken (read_bucket l) in (w, l\<lparr>read_bucket := b\<rparr>))
      else (let (w, b) = bucket_acquire tokens_per_request now woken (write_bucket l) in (w, l\<lparr>write_bucket := b\<rparr>)))"

section \<open>Bounds\<close>

definition bucket_ok :: "bucket \<Rightarrow> bool" where
  "bucket_ok b \<longleftrightarrow> 0 \<le> tokens b \<and> tokens b \<le> capacity b \<and> 0 < rate_per_second b \<and>
     is_f64 (tokens b) \<and> is_f64 (capacity b)"

lemma refill_fields [simp]:
  "capacity (refill now b) = capacity b" "rate_per_second (refill now b) = rate_per_second b"
  "refilled_at_ns (refill now b) = now"
  by (simp_all add: refill_def Let_def)

lemma refill_ok:
  assumes "bucket_ok b" "refilled_at_ns b \<le> now"
  shows "bucket_ok (refill now b) \<and> tokens b \<le> tokens (refill now b)"
proof -
  let ?e = "rnd (of_int (now - refilled_at_ns b) / 1000000000)"
  have "0 \<le> ?e" using assms(2) by (simp add: rnd_nonneg)
  then have "0 \<le> fmul ?e (rate_per_second b)"
    using assms(1) by (simp add: bucket_ok_def fmul_def f64.rd_mult_nonneg)
  then have "tokens b \<le> tokens b + fmul ?e (rate_per_second b)" by simp
  then have "tokens b \<le> fadd (tokens b) (fmul ?e (rate_per_second b))"
    unfolding fadd_def using assms(1) by (intro f64.rd_ge_fixed) (simp_all add: bucket_ok_def is_f64_def)
  then show ?thesis
    using assms(1) by (auto simp: refill_def bucket_ok_def Let_def is_f64_def fadd_def min_def)
qed

text \<open>
  The budget invariant: whatever the timing, tokens stay between zero and the capacity, the wait is
  never negative, and there is none exactly when the budget covers the cost.
\<close>

text \<open>Whatever the timing, the tokens of a bucket stay between zero and its capacity, the wait is
  never negative, and there is none when the refilled budget covers the cost.\<close>
theorem acquire_keeps_budget:
  assumes "bucket_ok b" "refilled_at_ns b \<le> now" "now \<le> woken" "0 \<le> cost" "is_f64 cost"
  shows "bucket_ok (snd (bucket_acquire cost now woken b)) \<and> 0 \<le> fst (bucket_acquire cost now woken b) \<and>
    (cost \<le> tokens (refill now b) \<longrightarrow> fst (bucket_acquire cost now woken b) = 0)"
proof -
  let ?b1 = "refill now b"
  define b2 where "b2 = (if tokens ?b1 < cost then refill woken ?b1 else ?b1)"
  have ok1: "bucket_ok ?b1" using refill_ok assms(1,2) by blast
  then have ok2: "bucket_ok b2" using refill_ok [of ?b1 woken] assms(3) by (simp add: b2_def)
  have acq: "bucket_acquire cost now woken b =
      (if tokens ?b1 < cost then fdiv (fsub cost (tokens ?b1)) (rate_per_second ?b1) else 0,
       b2\<lparr>tokens := max 0 (fsub (tokens b2) cost)\<rparr>)"
    by (simp add: bucket_acquire_def Let_def b2_def)
  have "tokens b2 - cost \<le> capacity b2" using ok2 assms(4) by (simp add: bucket_ok_def)
  then have "fsub (tokens b2) cost \<le> capacity b2"
    unfolding fsub_def using ok2 by (intro f64.rd_le_fixed) (simp_all add: bucket_ok_def is_f64_def)
  then have "bucket_ok (b2\<lparr>tokens := max 0 (fsub (tokens b2) cost)\<rparr>)"
    using ok2 by (auto simp: bucket_ok_def is_f64_def fsub_def max_def)
  moreover have "0 \<le> fdiv (fsub cost (tokens ?b1)) (rate_per_second ?b1)" if "tokens ?b1 < cost"
    using that ok1 by (simp add: fdiv_def fsub_def bucket_ok_def f64.rd_divide_nonneg rnd_nonneg)
  ultimately show ?thesis unfolding acq by auto
qed

text \<open>
  The burst allowance. From a bucket of \<open>n\<close> whole tokens that nobody refills, requests of cost \<open>c\<close> are
  free as long as the tokens last, each takes exactly its cost, and the first one they do not cover waits.
\<close>

fun spend :: "nat \<Rightarrow> pyfloat \<Rightarrow> ns \<Rightarrow> bucket \<Rightarrow> pyfloat list \<times> bucket" where
  "spend 0 cost now b = ([], b)"
| "spend (Suc k) cost now b =
     (let (w, b1) = bucket_acquire cost now now b; (ws, b2) = spend k cost now b1 in (w # ws, b2))"

lemma refill_same:
  assumes "tokens b = of_int n" "\<bar>n\<bar> < 2 ^ 53" "refilled_at_ns b = now" "of_int n \<le> capacity b"
  shows "refill now b = b"
  using assms fadd_int [of n 0] by (simp add: refill_def Let_def fmul_def min_def)

lemma acquire_free_step:
  assumes "tokens b = of_int n" "refilled_at_ns b = now" "of_int n \<le> capacity b"
    and "0 \<le> c" "c \<le> n" "n < 2 ^ 53"
  shows "bucket_acquire (of_int c) now woken b = (0, b\<lparr>tokens := of_int (n - c)\<rparr>)"
proof -
  have r: "refill now b = b" using assms by (intro refill_same) auto
  have "fsub (of_int n) (of_int c) = of_int (n - c)" using assms by (intro fsub_int) auto
  then show ?thesis using assms by (simp add: bucket_acquire_def r Let_def not_less max_def del: of_int_diff)
qed

lemma spend_free:
  assumes "tokens b = of_int n" "refilled_at_ns b = now" "of_int n \<le> capacity b"
    and "0 \<le> c" "int k * c \<le> n" "n < 2 ^ 53"
  shows "spend k (of_int c) now b = (replicate k 0, b\<lparr>tokens := of_int (n - int k * c)\<rparr>)"
  using assms
proof (induction k arbitrary: b n)
  case 0
  then show ?case by simp
next
  case (Suc k)
  have "0 \<le> int k * c" using Suc.prems(4) by simp
  moreover have "int (Suc k) * c = c + int k * c" by (simp add: distrib_right)
  ultimately have le: "c \<le> n" "int k * c \<le> n - c" using Suc.prems(5) by linarith+
  let ?b = "b\<lparr>tokens := of_int (n - c)\<rparr>"
  have "bucket_acquire (of_int c) now now b = (0, ?b)"
    using Suc.prems le by (intro acquire_free_step) auto
  moreover have "of_int (n - c) \<le> capacity ?b"
    using Suc.prems(3,4) by (simp add: order_trans [OF _ Suc.prems(3)])
  then have "spend k (of_int c) now ?b = (replicate k 0, ?b\<lparr>tokens := of_int (n - c - int k * c)\<rparr>)"
    using Suc.prems le by (intro Suc.IH) auto
  ultimately show ?case by (simp add: Let_def algebra_simps)
qed

text \<open>From a full bucket of n tokens, n div c requests of cost c pass without waiting at one
  instant, exactly n mod c tokens are left, and the next request waits for the missing ones.\<close>
theorem burst_then_wait:
  assumes "0 < c" "0 \<le> n" "n < 2 ^ 53" "0 < rate" "k = nat (n div c)"
  shows "fst (spend k (of_int c) now (new_bucket rate (of_int n) now)) = replicate k 0 \<and>
    tokens (snd (spend k (of_int c) now (new_bucket rate (of_int n) now))) = of_int (n mod c) \<and>
    fst (bucket_acquire (of_int c) now woken (snd (spend k (of_int c) now (new_bucket rate (of_int n) now)))) =
      fdiv (fsub (of_int c) (of_int (n mod c))) rate"
proof -
  let ?b = "new_bucket rate (of_int n) now"
  have k: "int k = n div c" using assms by (simp add: pos_imp_zdiv_nonneg_iff)
  have rest: "n - int k * c = n mod c" by (simp add: k minus_div_mult_eq_mod)
  have "int k * c \<le> n" using assms rest pos_mod_sign [of c n] by linarith
  then have s: "spend k (of_int c) now ?b = (replicate k 0, ?b\<lparr>tokens := of_int (n mod c)\<rparr>)"
    using spend_free [of ?b n now c k, unfolded rest] assms(1,3) by (simp add: new_bucket_def)
  let ?r = "?b\<lparr>tokens := of_int (n mod c)\<rparr>"
  have m: "0 \<le> n mod c" "n mod c < c" "n mod c \<le> n" using assms by (simp_all add: zmod_le_nonneg_dividend)
  have "refill now ?r = ?r" by (rule refill_same) (use m assms in \<open>auto simp: new_bucket_def\<close>)
  then show ?thesis using m by (simp add: s bucket_acquire_def Let_def) (simp add: new_bucket_def)
qed

theorem burst_then_wait_witness:
  "fst (bucket_acquire 10 5 9 (snd (spend 10 10 5 (new_bucket 100 100 5)))) = fdiv (fsub 10 0) 100"
  using burst_then_wait [of 10 100 100 10 5 9] by simp

theorem acquire_keeps_budget_witness:
  "bucket_ok (snd (bucket_acquire 10 7 9 (new_bucket 100 100 5)))"
proof -
  have f: "is_f64 10" "is_f64 100"
    using rnd_of_int [of 10] rnd_of_int [of 100] by (simp_all add: is_f64_def)
  show ?thesis
    using acquire_keeps_budget [of "new_bucket 100 100 5" 7 9 10] f by (simp add: bucket_ok_def new_bucket_def)
qed

text \<open>Reads and writes draw on separate budgets: a request leaves the other bucket as it was.\<close>

lemma limiter_separation:
  "write_bucket (snd (limiter_acquire ''GET'' now woken l)) = write_bucket l"
  "upper m \<noteq> ''GET'' \<Longrightarrow> read_bucket (snd (limiter_acquire m now woken l)) = read_bucket l"
  by (simp_all add: limiter_acquire_def upper_def split_def Let_def)

end
