(* ===== verification/Rest_Client.thy ===== *)
theory Rest_Client
  imports Retry Rate_Limit Bytes
begin

text \<open>
  \<open>transport/rest_client.py\<close>. One attempt of a request draws on the rate limiter, signs, stamps the
  caller's \<open>RequestTimings\<close> and goes to the network. The network, the clocks and the random draws are
  inputs: an \<open>attempt_env\<close> holds the readings of one attempt and what came back. The signer and the
  JSON codec (\<open>orjson\<close>) are parameters. The session keeps, besides whether it exists, the requests
  that were handed to the network, oldest first.
\<close>

section \<open>Timings\<close>

record request_timings =
  sign_start_ns :: ns
  sign_end_ns :: ns
  sent_ns :: ns
  ack_ns :: ns

definition new_timings :: request_timings where
  "new_timings = \<lparr>sign_start_ns = 0, sign_end_ns = 0, sent_ns = 0, ack_ns = 0\<rparr>"

text \<open>The division of two Python integers is the rounded quotient.\<close>

definition millis :: "ns \<Rightarrow> pyfloat" where
  "millis elapsed = rnd (of_int elapsed / 1000000)"

definition span_ms :: "ns \<Rightarrow> ns \<Rightarrow> pyfloat option" where
  "span_ms begun ended = (if begun = 0 \<or> ended = 0 then None else Some (millis (ended - begun)))"

definition sign_ms :: "request_timings \<Rightarrow> pyfloat option" where
  "sign_ms t = span_ms (sign_start_ns t) (sign_end_ns t)"

definition dispatch_send_ms :: "request_timings \<Rightarrow> pyfloat option" where
  "dispatch_send_ms t = span_ms (sign_end_ns t) (sent_ns t)"

definition dispatch_ack_ms :: "request_timings \<Rightarrow> pyfloat option" where
  "dispatch_ack_ms t = span_ms (sent_ns t) (ack_ns t)"

section \<open>One attempt\<close>

definition api_prefix :: string where "api_prefix = ''/trade-api/v2''"

record timeouts =
  timeout_total :: pyfloat
  timeout_connect :: pyfloat

definition default_timeout :: timeouts where "default_timeout = \<lparr>timeout_total = 10, timeout_connect = 3\<rparr>"
definition order_timeout :: timeouts where "order_timeout = \<lparr>timeout_total = 2, timeout_connect = 1\<rparr>"

record http_request =
  hr_method :: string
  hr_url :: string
  hr_params :: "(string \<times> string) list"
  hr_data :: "bytes option"
  hr_headers :: "(string \<times> string) list"
  hr_timeout :: timeouts

text \<open>What the network did: nothing that could be read, or a response whose body was read at a given time.\<close>

datatype net_reply = NoReply transport_error | Reply int string bytes ns

record attempt_env =
  env_acquired_ns :: "ns \<times> ns"
  env_wall :: pyfloat
  env_sign_ns :: "ns \<times> ns"
  env_sent_ns :: ns
  env_reply :: net_reply

record rest_client =
  base_url :: string
  api_key_id :: string
  rate_limiter :: limiter
  session_open :: bool
  sent_log :: "http_request list"

definition new_client :: "string \<Rightarrow> string \<Rightarrow> limiter \<Rightarrow> rest_client" where
  "new_client url key budget =
     \<lparr>base_url = rev (dropWhile (\<lambda>c. c = CHR ''/'') (rev url)), api_key_id = key, rate_limiter = budget,
      session_open = False, sent_log = []\<rparr>"

text \<open>\<open>_session_or_create\<close>: a session that is missing or closed is made anew.\<close>

definition session_or_create :: "rest_client \<Rightarrow> rest_client" where
  "session_or_create c = (if \<not> session_open c then c\<lparr>session_open := True\<rparr> else c)"

lemma session_or_create_open [simp]: "session_or_create c = c\<lparr>session_open := True\<rparr>"
  by (simp add: session_or_create_def)

text \<open>
  The packages a request goes through: the signature of a timestamp, a method and a path, the codec,
  the text of a body (undecodable bytes replaced), and \<open>str()\<close> of a nested JSON value.
\<close>

record packages =
  pk_sign :: "string \<Rightarrow> string \<Rightarrow> string \<Rightarrow> string"
  pk_dumps :: "jvalue \<Rightarrow> bytes"
  pk_loads :: "bytes \<Rightarrow> exc + jvalue"
  pk_utf8 :: "bytes \<Rightarrow> string"
  pk_nested :: "jvalue \<Rightarrow> string"

definition value_text :: "packages \<Rightarrow> jvalue option \<Rightarrow> string" where
  "value_text pk v =
     (case v of None \<Rightarrow> ''None'' | Some (JScalar s) \<Rightarrow> json_text s | Some w \<Rightarrow> pk_nested pk w)"

definition error_object :: "jvalue \<Rightarrow> (string \<times> jvalue) list option" where
  "error_object v =
     (case v of JObject kvs \<Rightarrow> (case map_of kvs ''error'' of Some (JObject e) \<Rightarrow> Some e | _ \<Rightarrow> None) | _ \<Rightarrow> None)"

definition error_message :: "packages \<Rightarrow> int \<Rightarrow> string \<Rightarrow> bytes \<Rightarrow> string" where
  "error_message pk status reason payload =
     (let parsed = (case pk_loads pk payload of Inl e \<Rightarrow> JScalar JNull | Inr v \<Rightarrow> v)
      in case error_object parsed of
           Some e \<Rightarrow> int_text status @ '' '' @ value_text pk (map_of e ''code'') @ '': '' @
             value_text pk (map_of e ''message'')
         | None \<Rightarrow>
             (let t = strip (pk_utf8 pk payload)
              in if t \<noteq> [] then int_text status @ '' '' @ reason @ '': '' @ t
                 else int_text status @ '' '' @ reason))"

record request_args =
  ra_method :: string
  ra_path :: string
  ra_params :: "(string \<times> string) list"
  ra_body :: "jvalue option"
  ra_timeout :: "timeouts option"

definition timestamp_text :: "pyfloat \<Rightarrow> string" where
  "timestamp_text wall = int_text (py_int (fmul wall 1000))"

definition http_request_of :: "packages \<Rightarrow> rest_client \<Rightarrow> request_args \<Rightarrow> pyfloat \<Rightarrow> http_request" where
  "http_request_of pk c a wall =
     (let signed_path = api_prefix @ ra_path a; ts = timestamp_text wall;
          data = map_option (pk_dumps pk) (ra_body a)
      in \<lparr>hr_method = ra_method a, hr_url = base_url c @ signed_path, hr_params = ra_params a, hr_data = data,
          hr_headers = [(''KALSHI-ACCESS-KEY'', api_key_id c), (''KALSHI-ACCESS-TIMESTAMP'', ts),
             (''KALSHI-ACCESS-SIGNATURE'', pk_sign pk ts (ra_method a) signed_path)] @
             (if data = None then [] else [(''Content-Type'', ''application/json'')]),
          hr_timeout = (case ra_timeout a of None \<Rightarrow> default_timeout | Some t \<Rightarrow> t)\<rparr>)"

definition stamp :: "(request_timings \<Rightarrow> request_timings) \<Rightarrow> request_timings option \<Rightarrow> request_timings option" where
  "stamp f t = map_option f t"

text \<open>\<open>_request\<close>: the caller's timings are an out-parameter that may be absent.\<close>

definition request ::
    "packages \<Rightarrow> attempt_env \<Rightarrow> request_args \<Rightarrow> bool \<Rightarrow> rest_client \<times> request_timings option \<Rightarrow>
     (transport_error + jvalue) \<times> rest_client \<times> request_timings option" where
  "request pk env a dry st =
     (let (c0, t0) = st;
          c1 = (if dry then c0
                else c0\<lparr>rate_limiter := snd (limiter_acquire (ra_method a) (fst (env_acquired_ns env))
                          (snd (env_acquired_ns env)) (rate_limiter c0))\<rparr>);
          t1 = stamp (\<lambda>t. t\<lparr>sign_start_ns := fst (env_sign_ns env), sign_end_ns := snd (env_sign_ns env)\<rparr>) t0;
          c2 = session_or_create c1;
          t2 = stamp (\<lambda>t. t\<lparr>sent_ns := env_sent_ns env\<rparr>) t1
      in if dry then (Inr (JObject []), c2, t2)
         else
           (let c3 = c2\<lparr>sent_log := sent_log c2 @ [http_request_of pk c2 a (env_wall env)]\<rparr>
            in case env_reply env of
                 NoReply e \<Rightarrow> (Inl e, c3, t2)
               | Reply status reason payload read_at \<Rightarrow>
                   (let t3 = stamp (\<lambda>t. t\<lparr>ack_ns := read_at\<rparr>) t2
                    in if 400 \<le> status then
                         (Inl (ResponseError status (error_message pk status reason payload)), c3, t3)
                       else if payload = [] then (Inr (JObject []), c3, t3)
                       else case pk_loads pk payload of
                         Inl e \<Rightarrow> (Inl (OtherError ''JSONDecodeError''), c3, t3)
                       | Inr v \<Rightarrow> (Inr v, c3, t3))))"

section \<open>The verbs\<close>

text \<open>
  A retried request sees a stream of environments, one per attempt; the state of the loop is the
  client, the timings and the stream that is left.
\<close>

type_synonym rest_state = "rest_client \<times> request_timings option \<times> (nat \<Rightarrow> attempt_env)"

definition attempt_once ::
    "packages \<Rightarrow> request_args \<Rightarrow> rest_state \<Rightarrow> (transport_error + jvalue) \<times> rest_state" where
  "attempt_once pk a s =
     (let (c, t, envs) = s; (r, c', t') = request pk (envs 0) a False (c, t)
      in (r, c', t', \<lambda>i. envs (Suc i)))"

definition retried ::
    "packages \<Rightarrow> request_args \<Rightarrow> (nat \<Rightarrow> pyfloat) \<Rightarrow> rest_state \<Rightarrow>
     (transport_error + jvalue) \<times> pyfloat list \<times> rest_state" where
  "retried pk a draws s = with_retries (attempt_once pk a) is_retryable draws default_attempts s"

definition rest_get where
  "rest_get pk path params timeout =
     retried pk \<lparr>ra_method = ''GET'', ra_path = path, ra_params = params, ra_body = None, ra_timeout = timeout\<rparr>"

definition rest_delete where
  "rest_delete pk path params timeout =
     retried pk \<lparr>ra_method = ''DELETE'', ra_path = path, ra_params = params, ra_body = None, ra_timeout = timeout\<rparr>"

definition rest_post ::
    "packages \<Rightarrow> string \<Rightarrow> jvalue \<Rightarrow> timeouts option \<Rightarrow> bool \<Rightarrow> (nat \<Rightarrow> pyfloat) \<Rightarrow> rest_state \<Rightarrow>
     (transport_error + jvalue) \<times> pyfloat list \<times> rest_state" where
  "rest_post pk path body timeout dry draws s =
     (let a = \<lparr>ra_method = ''POST'', ra_path = path, ra_params = [], ra_body = Some body, ra_timeout = timeout\<rparr>
      in if dry then
           (let (c, t, envs) = s; (r, c', t') = request pk (envs 0) a True (c, t)
            in (r, [], c', t', \<lambda>i. envs (Suc i)))
         else retried pk a draws s)"

definition close_client :: "rest_client \<Rightarrow> rest_client" where
  "close_client c = c\<lparr>session_open := False\<rparr>"

definition prewarm :: "rest_client \<Rightarrow> rest_client" where
  "prewarm c = session_or_create c"

section \<open>What reaches the network\<close>

text \<open>What an attempt comes to, as a function of the reply alone.\<close>

definition outcome_of :: "packages \<Rightarrow> net_reply \<Rightarrow> transport_error + jvalue" where
  "outcome_of pk reply =
     (case reply of
        NoReply e \<Rightarrow> Inl e
      | Reply status reason payload _ \<Rightarrow>
          if 400 \<le> status then Inl (ResponseError status (error_message pk status reason payload))
          else if payload = [] then Inr (JObject [])
          else (case pk_loads pk payload of Inl _ \<Rightarrow> Inl (OtherError ''JSONDecodeError'') | Inr v \<Rightarrow> Inr v))"

lemma http_request_of_same:
  "base_url c' = base_url c \<Longrightarrow> api_key_id c' = api_key_id c \<Longrightarrow>
     http_request_of pk c' a wall = http_request_of pk c a wall"
  by (simp add: http_request_of_def Let_def)

lemma request_real:
  assumes "request pk env a False (c, t) = (r, c', t')"
  shows "r = outcome_of pk (env_reply env)" "base_url c' = base_url c" "api_key_id c' = api_key_id c"
    "sent_log c' = sent_log c @ [http_request_of pk c a (env_wall env)]"
proof -
  let ?c = "c\<lparr>rate_limiter := snd (limiter_acquire (ra_method a) (fst (env_acquired_ns env))
    (snd (env_acquired_ns env)) (rate_limiter c)), session_open := True\<rparr>"
  have "http_request_of pk ?c a (env_wall env) = http_request_of pk c a (env_wall env)"
    by (rule http_request_of_same) simp_all
  then show "r = outcome_of pk (env_reply env)" "base_url c' = base_url c" "api_key_id c' = api_key_id c"
    "sent_log c' = sent_log c @ [http_request_of pk c a (env_wall env)]"
    using assms by (auto simp: request_def outcome_of_def Let_def split: net_reply.splits if_splits sum.splits)
qed

lemma runs_attempts:
  "\<exists>c' t'. runs (attempt_once pk a) k (c, t, envs) =
       (map (\<lambda>i. outcome_of pk (env_reply (envs i))) [0..<k], c', t', \<lambda>i. envs (i + k)) \<and>
     sent_log c' = sent_log c @ map (\<lambda>i. http_request_of pk c a (env_wall (envs i))) [0..<k]"
proof (induction k arbitrary: c t envs)
  case (Suc k)
  obtain r c1 t1 where one: "request pk (envs 0) a False (c, t) = (r, c1, t1)" by (metis prod_cases3)
  note first = request_real [OF one]
  obtain c' t' where rest: "runs (attempt_once pk a) k (c1, t1, \<lambda>i. envs (Suc i)) =
       (map (\<lambda>i. outcome_of pk (env_reply (envs (Suc i)))) [0..<k], c', t', \<lambda>i. envs (Suc (i + k)))"
     "sent_log c' = sent_log c1 @ map (\<lambda>i. http_request_of pk c1 a (env_wall (envs (Suc i)))) [0..<k]"
    using Suc.IH [of c1 t1 "\<lambda>i. envs (Suc i)"] by auto
  have step: "attempt_once pk a (c, t, envs) = (r, c1, t1, \<lambda>i. envs (Suc i))" by (simp add: attempt_once_def one)
  have up: "[0..<Suc k] = 0 # map Suc [0..<k]" by (simp add: upt_conv_Cons map_Suc_upt del: upt_Suc)
  show ?case
    using rest first(1,4) http_request_of_same [OF first(2,3)]
    by (simp add: step up comp_def del: upt_Suc)
qed simp

text \<open>C14. A retried POST is sent at most three times, each time with the same serialised body, so
  with the same client order id; every attempt but the last failed in a retryable way, and the
  result is that of the last.\<close>
theorem retried_post_resends_one_order:
  assumes "rest_post pk path body timeout False draws (c, t, envs) = (r, delays, c', t', envs')"
  shows "\<exists>n. n = length delays + 1 \<and> n \<le> 3 \<and>
    sent_log c' = sent_log c @ map (\<lambda>i. http_request_of pk c
      \<lparr>ra_method = ''POST'', ra_path = path, ra_params = [], ra_body = Some body, ra_timeout = timeout\<rparr>
      (env_wall (envs i))) [0..<n] \<and>
    (\<forall>q \<in> set (drop (length (sent_log c)) (sent_log c')). hr_data q = Some (pk_dumps pk body)) \<and>
    (\<forall>i < n - 1. failed_with is_retryable (outcome_of pk (env_reply (envs i)))) \<and>
    r = outcome_of pk (env_reply (envs (n - 1))) \<and> (n < 3 \<longrightarrow> \<not> failed_with is_retryable r)"
proof -
  let ?a = "\<lparr>ra_method = ''POST'', ra_path = path, ra_params = [], ra_body = Some body, ra_timeout = timeout\<rparr>"
  have w: "retry_from (attempt_once pk ?a) is_retryable draws 3 1 (c, t, envs) = (r, delays, c', t', envs')"
    using assms by (simp add: rest_post_def retried_def with_retries_def default_attempts_def)
  obtain k rs s' where k: "1 \<le> k" "k \<le> 3" "runs (attempt_once pk ?a) k (c, t, envs) = (rs, s')"
    "(r, delays, c', t', envs') = (last rs, map (\<lambda>i. backoff_delay (1 + i) (draws (1 + i))) [0..<k - 1], s')"
    "length rs = k" "list_all (failed_with is_retryable) (butlast rs)" "k < 3 \<longrightarrow> \<not> failed_with is_retryable (last rs)"
    using retry_from_runs [of 3 "attempt_once pk ?a" "(c, t, envs)" is_retryable draws 1] w by auto
  obtain c1 t1 where r: "rs = map (\<lambda>i. outcome_of pk (env_reply (envs i))) [0..<k]" "s' = (c1, t1, \<lambda>i. envs (i + k))"
    "sent_log c1 = sent_log c @ map (\<lambda>i. http_request_of pk c ?a (env_wall (envs i))) [0..<k]"
    using runs_attempts [of pk ?a k c t envs] k(3) by auto
  have c: "c' = c1" and n: "k = length delays + 1" using k(1,4) r(2) by auto
  have "last rs = outcome_of pk (env_reply (envs (k - 1)))" using k(1) r(1) by (simp add: last_map)
  moreover have "failed_with is_retryable (outcome_of pk (env_reply (envs i)))" if "i < k - 1" for i
  proof -
    have "i < k" using that by simp
    then have "butlast rs ! i = outcome_of pk (env_reply (envs i))" using that r(1) by (simp add: nth_butlast)
    then show ?thesis using k(5,6) that by (metis length_butlast list_all_length)
  qed
  ultimately show ?thesis using k(2,4,7) r(3) c n by (auto simp: http_request_of_def Let_def)
qed

theorem shadow_post_stays_local:
  "rest_post pk path body timeout True draws (c, Some t, envs) =
     (Inr (JObject []), [], c\<lparr>session_open := True\<rparr>,
      Some (t\<lparr>sign_start_ns := fst (env_sign_ns (envs 0)), sign_end_ns := snd (env_sign_ns (envs 0)),
              sent_ns := env_sent_ns (envs 0)\<rparr>), \<lambda>i. envs (Suc i))"
  by (simp add: rest_post_def request_def stamp_def Let_def)

text \<open>
  The out-parameter is written over by every attempt but never cleared, so an answer to an earlier
  attempt is still in it when a later one ends without an answer.
\<close>

text \<open>When the first attempt of a POST is answered with a retryable status and the second times
  out, the timings handed back pair the send time of the second attempt with the answer time of
  the first.\<close>
theorem retried_timings_keep_an_old_ack:
  assumes "env_reply (envs 0) = Reply status reason payload read_at" "status \<in> set retryable_statuses"
    and "env_reply (envs 1) = NoReply TimeoutError"
  shows "\<exists>delays c' t' envs'.
    rest_post pk path body timeout False draws (c, Some new_timings, envs) = (Inl TimeoutError, delays, c', Some t', envs') \<and>
    sent_ns t' = env_sent_ns (envs 1) \<and> ack_ns t' = read_at \<and>
    dispatch_ack_ms t' = span_ms (env_sent_ns (envs 1)) read_at"
proof -
  have "400 \<le> status" "is_retryable (ResponseError status m)" for m
    using assms(2) by (auto simp: retryable_statuses_def is_retryable_def)
  moreover have "\<not> is_retryable TimeoutError" by (simp add: is_retryable_def)
  ultimately show ?thesis
    using assms(1,3)
    by (simp add: rest_post_def retried_def with_retries_def default_attempts_def attempt_once_def request_def
        stamp_def dispatch_ack_ms_def numeral_3_eq_3 Let_def)
qed

section \<open>Witnesses\<close>

definition sample_packages :: packages where
  "sample_packages =
     \<lparr>pk_sign = (\<lambda>ts m p. ts @ m), pk_dumps = (\<lambda>_. [1]), pk_loads = (\<lambda>_. Inl ValueError),
      pk_utf8 = (\<lambda>_. ''down''), pk_nested = (\<lambda>_. [])\<rparr>"

definition sample_env :: "ns \<Rightarrow> net_reply \<Rightarrow> attempt_env" where
  "sample_env start reply =
     \<lparr>env_acquired_ns = (start, start), env_wall = 1, env_sign_ns = (start + 1000000, start + 2000000),
      env_sent_ns = start + 3000000, env_reply = reply\<rparr>"

definition refused_then_silent :: "nat \<Rightarrow> attempt_env" where
  "refused_then_silent i =
     (if i = 0 then sample_env 0 (Reply 503 ''Service Unavailable'' [] 5000000)
      else sample_env 10000000 (NoReply TimeoutError))"

definition sample_client :: rest_client where
  "sample_client = new_client ''https://demo/'' ''key'' (new_limiter 100 100 0 0)"

theorem retried_timings_keep_an_old_ack_witness:
  "\<exists>delays c' t' envs'.
    rest_post sample_packages ''/orders'' (JObject []) None False (\<lambda>_. 0) (sample_client, Some new_timings, refused_then_silent) =
      (Inl TimeoutError, delays, c', Some t', envs') \<and> dispatch_ack_ms t' = Some (- 8)"
proof -
  have "rnd (- 8) = - 8" by code_simp
  then have "span_ms (env_sent_ns (refused_then_silent 1)) 5000000 = Some (- 8)"
    by (simp add: refused_then_silent_def sample_env_def span_ms_def millis_def)
  moreover have "env_reply (refused_then_silent 0) = Reply 503 ''Service Unavailable'' [] 5000000"
      "env_reply (refused_then_silent 1) = NoReply TimeoutError" "503 \<in> set retryable_statuses"
    by (simp_all add: refused_then_silent_def sample_env_def retryable_statuses_def)
  ultimately show ?thesis
    using retried_timings_keep_an_old_ack [where envs = refused_then_silent and status = 503] by metis
qed

theorem retried_post_resends_one_order_witness:
  "\<exists>r delays c' t' envs'.
    rest_post sample_packages ''/orders'' (JObject []) None False (\<lambda>_. 0) (sample_client, None, refused_then_silent) =
      (r, delays, c', t', envs') \<and> r = Inl TimeoutError \<and> length (sent_log c') = 2 \<and>
    (\<forall>q \<in> set (sent_log c'). hr_data q = Some [1])"
proof -
  obtain r delays c' t' envs' where w: "rest_post sample_packages ''/orders'' (JObject []) None False (\<lambda>_. 0)
      (sample_client, None, refused_then_silent) = (r, delays, c', t', envs')" by (metis prod_cases5)
  have o: "outcome_of sample_packages (env_reply (refused_then_silent (Suc i))) = Inl TimeoutError" for i
    by (simp add: outcome_of_def refused_then_silent_def sample_env_def)
  have "failed_with is_retryable (outcome_of sample_packages (env_reply (refused_then_silent 0)))"
    by (simp add: outcome_of_def refused_then_silent_def sample_env_def failed_with_def is_retryable_def retryable_statuses_def)
  moreover have "\<not> failed_with is_retryable (Inl TimeoutError :: transport_error + jvalue)" by (simp add: failed_with_def is_retryable_def)
  ultimately have fail: "failed_with is_retryable (outcome_of sample_packages (env_reply (refused_then_silent 0)))"
      "\<not> failed_with is_retryable (Inl TimeoutError :: transport_error + jvalue)" by blast+
  obtain n where n: "n = length delays + 1" "n \<le> 3" "\<forall>i < n - 1. failed_with is_retryable
      (outcome_of sample_packages (env_reply (refused_then_silent i)))"
      "r = outcome_of sample_packages (env_reply (refused_then_silent (n - 1)))" "n < 3 \<longrightarrow> \<not> failed_with is_retryable r"
    using retried_post_resends_one_order [OF w] by auto
  have "n \<noteq> 1" using n(4,5) fail(1) by auto
  moreover have "n \<noteq> 3"
  proof
    assume "n = 3"
    then have "failed_with is_retryable (outcome_of sample_packages (env_reply (refused_then_silent (Suc 0))))"
      using n(3) by (metis One_nat_def Suc_1 diff_Suc_1 lessI numeral_3_eq_3)
    then show False using o [of 0] fail(2) by simp
  qed
  ultimately have two: "n = 2" using n(1,2) by linarith
  then have n: "length delays = 1" "r = Inl TimeoutError" using n(1,4) o [of 0] by simp_all
  show ?thesis
    using retried_post_resends_one_order [OF w] w n by (auto simp: sample_client_def new_client_def sample_packages_def)
qed

end
