(* ===== verification/Executor_Connection.thy ===== *)
theory Executor_Connection
  imports Wake_Protocol Rest_Client
begin

text \<open>
  \<open>ExecutorServer._handle_connection\<close>: one connection of the executor, from the bytes the poller
  sends until it closes, to the acks written back, the \<open>wake_recv\<close> rows recorded and the fires
  spawned. The reading loop knows the framing only through its laws, which the locale \<open>framing\<close>
  states; the framing of the protocol is its interpretation.
\<close>

section \<open>Length-prefixed framing\<close>

text \<open>A loop body either ends the loop with a result or goes on with a new state.\<close>

fun steps :: "('s \<Rightarrow> 'a \<Rightarrow> 'r + 's) \<Rightarrow> 's \<Rightarrow> 'a list \<Rightarrow> 'r + 's" where
  "steps body s [] = Inr s"
| "steps body s (x # xs) = (case body s x of Inl r \<Rightarrow> Inl r | Inr s' \<Rightarrow> steps body s' xs)"

locale framing =
  fixes put :: "'a \<Rightarrow> bytes" and get :: "bytes \<Rightarrow> exc + 'a \<times> bytes" and fits :: "'a \<Rightarrow> bool"
  assumes get_put: "fits x \<Longrightarrow> get (put x @ rest) = Inr (x, rest)"
    and get_end: "get [] = Inl IncompleteRead"
begin

text \<open>A loop that reads frame by frame processes exactly the frames that were written, in order.\<close>

lemma loop_reads_frames:
  assumes loop: "\<And>s stream. loop s stream =
      (case get stream of Inl e \<Rightarrow> stop s e
       | Inr (x, rest) \<Rightarrow> (case body s x of Inl r \<Rightarrow> r | Inr s' \<Rightarrow> loop s' rest))"
    and "list_all fits xs"
  shows "loop s (concat (map put xs) @ rest) = (case steps body s xs of Inl r \<Rightarrow> r | Inr s' \<Rightarrow> loop s' rest)"
  using assms(2)
proof (induction xs arbitrary: s)
  case (Cons x xs)
  have "loop s (put x @ concat (map put xs) @ rest) =
      (case body s x of Inl r \<Rightarrow> r | Inr s' \<Rightarrow> loop s' (concat (map put xs) @ rest))"
    using Cons.prems by (subst loop) (simp add: get_put)
  then show ?case using Cons by (cases "body s x") simp_all
qed simp

lemma loop_ends_with_stream:
  assumes loop: "\<And>s stream. loop s stream =
      (case get stream of Inl e \<Rightarrow> stop s e
       | Inr (x, rest) \<Rightarrow> (case body s x of Inl r \<Rightarrow> r | Inr s' \<Rightarrow> loop s' rest))"
    and "list_all fits xs"
  shows "loop s (concat (map put xs)) = (case steps body s xs of Inl r \<Rightarrow> r | Inr s' \<Rightarrow> stop s' IncompleteRead)"
proof -
  have "loop s' [] = stop s' IncompleteRead" for s' by (subst loop) (simp add: get_end)
  then show ?thesis using loop_reads_frames [OF assms, of s "[]"] by (simp split: sum.split)
qed

end

text \<open>The frame of a body, as \<open>encode_frame\<close> writes it.\<close>

definition framed :: "bytes \<Rightarrow> bytes" where
  "framed body = (case pack_u32 (length body) of Inl _ \<Rightarrow> [] | Inr prefix \<Rightarrow> prefix @ body)"

definition fits_frame :: "bytes \<Rightarrow> bool" where
  "fits_frame body \<longleftrightarrow> length body \<le> max_frame_bytes"

lemma encode_framed: "encode_frame dumps payload = Inr f \<Longrightarrow> f = framed (dumps payload)"
  by (auto simp: encode_frame_def framed_def Let_def split: sum.splits)

interpretation wire: framing framed read_frame_body fits_frame
proof
  fix body rest
  assume "fits_frame body"
  then have fits: "length body \<le> max_frame_bytes" by (simp add: fits_frame_def)
  then have "length ((\<lambda>_. body) payload) < 2 ^ 32" for payload :: jvalue by (simp add: max_frame_bytes_def)
  from read_encoded [where dumps = "\<lambda>_. body" and rest = rest, OF this] obtain f where
      "encode_frame (\<lambda>_. body) (JArray []) = Inr f" "read_frame_body (f @ rest) = Inr (body, rest)"
    using fits by auto
  then show "read_frame_body (framed body @ rest) = Inr (body, rest)" using encode_framed by metis
next
  show "read_frame_body [] = Inl IncompleteRead"
    by (simp add: read_frame_body_def readexactly_def frame_length_bytes_def)
qed

section \<open>A connection\<close>

text \<open>
  What the handling of one frame reads from outside: the wall clock and the performance counter
  before and after, and whether \<open>drain()\<close> finds the peer still there.
\<close>

record frame_reading =
  fr_started_ms :: ms
  fr_started_ns :: ns
  fr_ended_ms :: ms
  fr_ended_ns :: ns
  fr_drains :: bool

datatype conn_effect = SendAck wake_ack | RecordLatency sqlrow | SpawnFire "string \<rightharpoonup> jvalue"

datatype conn_end = PeerClosed | Oversized | Aborted

type_synonym fire = "string \<rightharpoonup> jvalue"

text \<open>The fire tasks among the effects.\<close>

definition fires_of :: "conn_effect list \<Rightarrow> fire list" where
  "fires_of fx = concat (map (\<lambda>e. case e of SpawnFire d \<Rightarrow> [d] | _ \<Rightarrow> []) fx)"

lemma fires_of_simps [simp]:
  "fires_of [] = []" "fires_of (SendAck a # fx) = fires_of fx" "fires_of (RecordLatency w # fx) = fires_of fx"
  "fires_of (SpawnFire d # fx) = d # fires_of fx" "fires_of (fx @ fy) = fires_of fx @ fires_of fy"
  by (simp_all add: fires_of_def)

text \<open>
  \<open>_DRY_RUN_METADATA[x]\<close>: a dictionary with the keys \<open>False\<close> and \<open>True\<close>, which equal numbers find
  too; any other value raises.
\<close>

definition dry_run_metadata :: "bool \<Rightarrow> string" where
  "dry_run_metadata b = (if b then ''{\"dry_run\": true}'' else ''{\"dry_run\": false}'')"

definition metadata_of :: "jvalue \<Rightarrow> string option" where
  "metadata_of v =
     (if v \<in> {JScalar (JBool False), JScalar (JInt 0), JScalar (JFloat 0)} then Some (dry_run_metadata False)
      else if v \<in> {JScalar (JBool True), JScalar (JInt 1), JScalar (JFloat 1)} then Some (dry_run_metadata True)
      else None)"

text \<open>
  A value as it is bound to a column. A list or a dictionary cannot be bound, and the writer drops
  the row, as it does for the NULL that stands for it here in a NOT NULL column.
\<close>

definition sql_of_jvalue :: "jvalue \<Rightarrow> sqlval" where
  "sql_of_jvalue v = (case v of JScalar s \<Rightarrow> sql_of_json s | _ \<Rightarrow> SNull)"

definition latency_row :: "sqlval \<Rightarrow> string \<Rightarrow> ms \<Rightarrow> ms \<Rightarrow> pyfloat \<Rightarrow> string \<Rightarrow> sqlrow" where
  "latency_row cid stage begun ended duration metadata = map_of
     [(''correlation_id'', cid), (''stage'', SText stage), (''started_at_ms'', SInt begun),
      (''ended_at_ms'', SInt ended), (''duration_ms'', SReal duration), (''metadata_json'', SText metadata)]"

definition accept_ack :: "jvalue \<Rightarrow> ms \<Rightarrow> wake_ack" where
  "accept_ack cid received =
     \<lparr>ack_schema_version = schema_version, ack_correlation_id = cid, ack_received_at_ms = received,
      ack_status = AckAccepted, ack_reason = None\<rparr>"

definition reject_ack :: "string \<Rightarrow> ms \<Rightarrow> wake_ack" where
  "reject_ack reason received =
     \<lparr>ack_schema_version = schema_version, ack_correlation_id = JScalar (JStr []), ack_received_at_ms = received,
      ack_status = AckRejected, ack_reason = Some reason\<rparr>"

text \<open>
  One frame: its effects, and whether the loop goes on. \<open>exc_text\<close> is \<open>str(exc)\<close>. An exception past
  the decoding, from the socket or from the metadata lookup, ends the handler.
\<close>

definition handle_frame ::
    "(bytes \<Rightarrow> exc + jvalue) \<Rightarrow> (exc \<Rightarrow> string) \<Rightarrow> frame_reading \<Rightarrow> bytes \<Rightarrow> conn_effect list \<times> bool" where
  "handle_frame loads exc_text r body =
     (case decode_wake_message loads body of
        Inl e \<Rightarrow> ([SendAck (reject_ack (exc_text e) (fr_started_ms r))], fr_drains r)
      | Inr d \<Rightarrow>
          (let cid = the (d ''correlation_id''); sent = SendAck (accept_ack cid (fr_started_ms r))
           in if \<not> fr_drains r then ([sent], False)
              else case metadata_of (the (d ''dry_run'')) of
                None \<Rightarrow> ([sent], False)
              | Some meta \<Rightarrow>
                  ([sent,
                    RecordLatency (latency_row (sql_of_jvalue cid) ''wake_recv'' (fr_started_ms r) (fr_ended_ms r)
                      (millis (fr_ended_ns r - fr_started_ns r)) meta),
                    SpawnFire d], True)))"

lemma read_frame_shorter: "read_frame_body stream = Inr (body, rest) \<Longrightarrow> length rest < length stream"
  by (auto simp: read_frame_body_def readexactly_def frame_length_bytes_def Let_def split: if_splits sum.splits)

text \<open>The loop, on the effects so far and the number of frames read.\<close>

function handle_connection ::
    "(bytes \<Rightarrow> exc + jvalue) \<Rightarrow> (exc \<Rightarrow> string) \<Rightarrow> (nat \<Rightarrow> frame_reading) \<Rightarrow> conn_effect list \<times> nat \<Rightarrow> bytes \<Rightarrow>
     conn_effect list \<times> conn_end" where
  "handle_connection loads exc_text rd (fx, i) stream =
     (case read_frame_body stream of
        Inl e \<Rightarrow> (fx, if e = IncompleteRead then PeerClosed else Oversized)
      | Inr (body, rest) \<Rightarrow>
          (case handle_frame loads exc_text (rd i) body of
             (new, goes_on) \<Rightarrow>
               if goes_on then handle_connection loads exc_text rd (fx @ new, Suc i) rest
               else (fx @ new, Aborted)))"
  by pat_completeness auto
termination
  by (relation "measure (\<lambda>(_, _, _, _, stream). length stream)") (auto dest: read_frame_shorter)

declare handle_connection.simps [simp del]

section \<open>Every message is handled\<close>

definition frame_step ::
    "(bytes \<Rightarrow> exc + jvalue) \<Rightarrow> (exc \<Rightarrow> string) \<Rightarrow> (nat \<Rightarrow> frame_reading) \<Rightarrow> conn_effect list \<times> nat \<Rightarrow> bytes \<Rightarrow>
     (conn_effect list \<times> conn_end) + conn_effect list \<times> nat" where
  "frame_step loads exc_text rd s body =
     (case handle_frame loads exc_text (rd (snd s)) body of
        (new, goes_on) \<Rightarrow> if goes_on then Inr (fst s @ new, Suc (snd s)) else Inl (fst s @ new, Aborted))"

lemma handle_connection_loop:
  "handle_connection loads exc_text rd s stream =
     (case read_frame_body stream of
        Inl e \<Rightarrow> (fst s, if e = IncompleteRead then PeerClosed else Oversized)
      | Inr (body, rest) \<Rightarrow>
          (case frame_step loads exc_text rd s body of Inl r \<Rightarrow> r
           | Inr s' \<Rightarrow> handle_connection loads exc_text rd s' rest))"
proof (cases s)
  case (Pair fx i)
  then show ?thesis
    by (subst Pair, subst handle_connection.simps) (auto simp: frame_step_def split: sum.split prod.split)
qed

lemmas connection_reads = wire.loop_ends_with_stream
  [where loop = "handle_connection loads exc_text rd" and body = "frame_step loads exc_text rd"
     and stop = "\<lambda>s e. (fst s, if e = IncompleteRead then PeerClosed else Oversized)"
     for loads exc_text rd, OF handle_connection_loop]

text \<open>The effects of a message the poller sent, for the readings of its turn.\<close>

definition message_effects :: "wake_message \<Rightarrow> frame_reading \<Rightarrow> conn_effect list \<Rightarrow> bool" where
  "message_effects m r fx \<longleftrightarrow>
     (\<exists>d. message_of d = Some m \<and>
       fx = [SendAck (accept_ack (JScalar (JStr (correlation_id m))) (fr_started_ms r)),
             RecordLatency (latency_row (SText (correlation_id m)) ''wake_recv'' (fr_started_ms r) (fr_ended_ms r)
               (millis (fr_ended_ns r - fr_started_ns r)) (dry_run_metadata (dry_run m))),
             SpawnFire d])"

lemma metadata_of_bool [simp]: "metadata_of (JScalar (JBool b)) = Some (dry_run_metadata b)"
  by (cases b) (simp_all add: metadata_of_def)

lemma handle_message:
  assumes "loads body = Inr (message_json m)" "fr_drains r"
  shows "\<exists>fx. handle_frame loads exc_text r body = (fx, True) \<and> message_effects m r fx"
proof -
  obtain d where "decode_wake_message loads body = Inr d" "message_of d = Some m"
      "d ''correlation_id'' = Some (JScalar (JStr (correlation_id m)))" "d ''dry_run'' = Some (JScalar (JBool (dry_run m)))"
    using decode_message [where loads = loads and body = body and m = m, OF assms(1)] by blast
  then show ?thesis using assms(2) by (simp add: handle_frame_def message_effects_def sql_of_jvalue_def)
qed

lemma steps_messages:
  assumes "\<And>i. fr_drains (rd i)" "list_all (\<lambda>m. loads (dumps (message_json m)) = Inr (message_json m)) ms"
  shows "\<exists>fxs. steps (frame_step loads exc_text rd) (fx, i) (map (\<lambda>m. dumps (message_json m)) ms) =
      Inr (fx @ concat fxs, i + length ms) \<and>
    length fxs = length ms \<and> (\<forall>j < length ms. message_effects (ms ! j) (rd (i + j)) (fxs ! j))"
  using assms(2)
proof (induction ms arbitrary: fx i)
  case (Cons m ms)
  obtain f where f: "handle_frame loads exc_text (rd i) (dumps (message_json m)) = (f, True)" "message_effects m (rd i) f"
    using handle_message [where r = "rd i" and body = "dumps (message_json m)" and m = m and loads = loads] Cons.prems assms(1)
    by auto
  obtain fxs where fxs: "steps (frame_step loads exc_text rd) (fx @ f, Suc i) (map (\<lambda>m. dumps (message_json m)) ms) =
      Inr ((fx @ f) @ concat fxs, Suc i + length ms)" "length fxs = length ms"
    "\<forall>j < length ms. message_effects (ms ! j) (rd (Suc i + j)) (fxs ! j)"
    using Cons.IH [of "fx @ f" "Suc i"] Cons.prems by auto
  have "\<forall>j < length (m # ms). message_effects ((m # ms) ! j) (rd (i + j)) ((f # fxs) ! j)"
    using f(2) fxs(3) by (auto simp: nth_Cons split: nat.split)
  moreover have "frame_step loads exc_text rd (fx, i) (dumps (message_json m)) = Inr (fx @ f, Suc i)"
    using f(1) by (simp add: frame_step_def)
  ultimately show ?case using fxs(1,2) by (intro exI [of _ "f # fxs"]) simp
qed simp

lemma messages_handled:
  assumes "list_all (\<lambda>m. loads (dumps (message_json m)) = Inr (message_json m) \<and>
      length (dumps (message_json m)) \<le> max_frame_bytes) ms"
    and "list_all2 (\<lambda>m f. encode_frame dumps (message_json m) = Inr f) ms frames"
    and "\<And>i. fr_drains (rd i)"
  shows "\<exists>fxs. handle_connection loads exc_text rd ([], 0) (concat frames) = (concat fxs, PeerClosed) \<and>
    length fxs = length ms \<and> (\<forall>j < length ms. message_effects (ms ! j) (rd j) (fxs ! j))"
proof -
  let ?bodies = "map (\<lambda>m. dumps (message_json m)) ms"
  have "frames = map framed ?bodies"
    using assms(2) by (induction rule: list_all2_induct) (auto dest: encode_framed)
  moreover have "list_all fits_frame ?bodies"
    using assms(1) by (auto simp: list_all_iff fits_frame_def)
  moreover obtain fxs where fxs: "steps (frame_step loads exc_text rd) ([], 0) ?bodies = Inr ([] @ concat fxs, 0 + length ms)"
    "length fxs = length ms" "\<forall>j < length ms. message_effects (ms ! j) (rd (0 + j)) (fxs ! j)"
    using steps_messages [where rd = rd and loads = loads and dumps = dumps and ms = ms and fx = "[]" and i = 0
        and exc_text = exc_text] assms(1,3) by (auto simp: list_all_iff)
  ultimately show ?thesis
    using connection_reads [of ?bodies loads exc_text rd "([], 0)"] by (intro exI [of _ fxs]) simp
qed

lemma steps_garbage:
  assumes "list_all (\<lambda>b. \<exists>e. decode_wake_message loads b = Inl e) bodies" "\<And>i. fr_drains (rd i)"
  shows "steps (frame_step loads exc_text rd) (fx, i) bodies =
    Inr (fx @ map (\<lambda>j. SendAck (reject_ack (exc_text (projl (decode_wake_message loads (bodies ! j))))
      (fr_started_ms (rd (i + j))))) [0..<length bodies], i + length bodies)"
  using assms(1)
proof (induction bodies arbitrary: fx i)
  case (Cons b bodies)
  obtain e where e: "decode_wake_message loads b = Inl e" using Cons.prems by auto
  have up: "[0..<Suc (length bodies)] = 0 # map Suc [0..<length bodies]"
    by (simp add: upt_conv_Cons map_Suc_upt del: upt_Suc)
  show ?case using Cons.IH [of _ "Suc i"] Cons.prems assms(2) e
    by (simp add: frame_step_def handle_frame_def up comp_def del: upt_Suc)
qed simp

text \<open>C22. A connection outlives any number of frames that cannot be decoded: each is answered by one
  rejecting acknowledgement that names its error, and what follows is handled as if they had not
  been sent.\<close>
theorem connection_survives_garbage:
  assumes "list_all fits_frame bodies" "list_all (\<lambda>b. \<exists>e. decode_wake_message loads b = Inl e) bodies"
    and "\<And>i. fr_drains (rd i)"
  shows "handle_connection loads exc_text rd (fx, i) (concat (map framed bodies) @ stream) =
    handle_connection loads exc_text rd
      (fx @ map (\<lambda>j. SendAck (reject_ack (exc_text (projl (decode_wake_message loads (bodies ! j))))
         (fr_started_ms (rd (i + j))))) [0..<length bodies], i + length bodies) stream"
  by (subst wire.loop_reads_frames [where loop = "handle_connection loads exc_text rd"
        and body = "frame_step loads exc_text rd"
        and stop = "\<lambda>s e. (fst s, if e = IncompleteRead then PeerClosed else Oversized)",
        OF handle_connection_loop assms(1)])
    (simp add: steps_garbage [OF assms(2,3)])

section \<open>Witnesses\<close>

definition sample_reading :: "nat \<Rightarrow> frame_reading" where
  "sample_reading i =
     \<lparr>fr_started_ms = 1000 + int i, fr_started_ns = 0, fr_ended_ms = 1000 + int i, fr_ended_ns = 500000, fr_drains = True\<rparr>"

theorem connection_survives_garbage_witness:
  "handle_connection (\<lambda>_. Inl ValueError) (\<lambda>_. ''bad'') sample_reading ([], 0) (concat (map framed [[1, 2], []]) @ []) =
    ([SendAck (reject_ack ''bad'' 1000), SendAck (reject_ack ''bad'' 1001)], PeerClosed)"
proof -
  have "handle_connection (\<lambda>_. Inl ValueError) (\<lambda>_. ''bad'') sample_reading s [] = (fst s, PeerClosed)" for s
    by (subst handle_connection_loop) (simp add: wire.get_end)
  then show ?thesis
    by (subst connection_survives_garbage)
      (simp_all add: fits_frame_def max_frame_bytes_def decode_wake_message_def sample_reading_def)
qed

end
