(* ===== verification/Poller_Client.thy ===== *)
theory Poller_Client
  imports Executor_Connection
begin

text \<open>
  \<open>ipc/poller_client.py\<close>: the bounded queue in front of the wake channel, the loops of one
  connection and the bounds of the reconnect backoff; and, with the executor's side of the connection, the
  delivery of wakes from one process to the other.
\<close>

section \<open>The queue\<close>

record poller =
  pc_queue :: "wake_message list"
  pc_maxsize :: int
  pc_dropped :: nat
  pc_dropped_shadow :: nat
  pc_shadow_limit :: int
  pc_running :: bool

definition shadow_queue_fraction :: pyfloat where "shadow_queue_fraction = lit 25 100"
definition drop_log_sample_every :: nat where "drop_log_sample_every = 20"

definition new_poller :: "int \<Rightarrow> poller" where
  "new_poller queue_maxsize =
     \<lparr>pc_queue = [], pc_maxsize = queue_maxsize, pc_dropped = 0, pc_dropped_shadow = 0,
      pc_shadow_limit = max 1 (py_int (fmul (float_of queue_maxsize) shadow_queue_fraction)), pc_running = False\<rparr>"

text \<open>\<open>asyncio.Queue.put_nowait\<close> raises when a queue with a positive bound is full.\<close>

definition wake_queue_full :: "poller \<Rightarrow> bool" where
  "wake_queue_full p \<longleftrightarrow> 0 < pc_maxsize p \<and> pc_maxsize p \<le> int (length (pc_queue p))"

text \<open>The flag says whether a drop is logged.\<close>

definition send_wake :: "wake_message \<Rightarrow> poller \<Rightarrow> bool \<times> poller" where
  "send_wake m p =
     (if dry_run m \<and> pc_shadow_limit p \<le> int (length (pc_queue p)) then
        (let n = pc_dropped_shadow p + 1 in (n mod drop_log_sample_every = 1, p\<lparr>pc_dropped_shadow := n\<rparr>))
      else if wake_queue_full p then
        (let n = pc_dropped p + 1 in (n mod drop_log_sample_every = 1, p\<lparr>pc_dropped := n\<rparr>))
      else (False, p\<lparr>pc_queue := pc_queue p @ [m]\<rparr>))"

definition poller_start :: "poller \<Rightarrow> poller" where "poller_start p = p\<lparr>pc_running := True\<rparr>"
definition poller_close :: "poller \<Rightarrow> poller" where "poller_close p = p\<lparr>pc_running := False\<rparr>"

section \<open>The loops of a connection\<close>

text \<open>What the writer reads after the \<open>drain()\<close> of a frame, which may also find the peer gone.\<close>

record write_reading =
  wr_drains :: bool
  wr_ended_ms :: ms
  wr_now_ns :: ns

datatype write_effect = SentFrame bytes | SentRow sqlrow
datatype write_end = AwaitsWake | WriterFailed

definition wake_send_row :: "wake_message \<Rightarrow> write_reading \<Rightarrow> sqlrow" where
  "wake_send_row m r =
     latency_row (SText (correlation_id m)) ''wake_send'' (sent_at_ms m) (wr_ended_ms r)
       (millis (wr_now_ns r - sent_at_ns m)) (dry_run_metadata (dry_run m))"

text \<open>\<open>_write_loop\<close>, for as many turns as there are readings, until it waits or fails.\<close>

fun write_loop ::
    "(jvalue \<Rightarrow> bytes) \<Rightarrow> write_reading list \<Rightarrow> poller \<Rightarrow> write_effect list \<times> poller \<times> write_end" where
  "write_loop dumps [] p = ([], p, AwaitsWake)"
| "write_loop dumps (r # rs) p =
     (case pc_queue p of
        [] \<Rightarrow> ([], p, AwaitsWake)
      | m # rest \<Rightarrow>
          (let p' = p\<lparr>pc_queue := rest\<rparr>
           in case encode_frame dumps (message_json m) of
                Inl e \<Rightarrow> ([], p', WriterFailed)
              | Inr frame \<Rightarrow>
                  if \<not> wr_drains r then ([SentFrame frame], p', WriterFailed)
                  else (let (fx, p'', ended) = write_loop dumps rs p'
                        in (SentFrame frame # SentRow (wake_send_row m r) # fx, p'', ended))))"

text \<open>\<open>_read_ack_loop\<close>: the warnings it logs and the exception it ends with.\<close>

function read_ack_loop ::
    "(bytes \<Rightarrow> exc + jvalue) \<Rightarrow> (jvalue \<times> jvalue) list \<Rightarrow> bytes \<Rightarrow> (jvalue \<times> jvalue) list \<times> exc" where
  "read_ack_loop loads warned stream =
     (case read_frame_body stream of
        Inl e \<Rightarrow> (warned, e)
      | Inr (body, rest) \<Rightarrow>
          (case decode_wake_ack loads body of
             Inl e \<Rightarrow> (warned, e)
           | Inr a \<Rightarrow>
               read_ack_loop loads
                 (if a ''status'' = Some (JScalar (JStr ''accepted'')) then warned
                  else warned @ [(the (a ''correlation_id''), the (a ''reason''))]) rest))"
  by pat_completeness auto
termination
  by (relation "measure (\<lambda>(_, _, stream). length stream)") (auto dest: read_frame_shorter)

declare read_ack_loop.simps [simp del]

section \<open>Reconnecting\<close>

definition initial_backoff :: pyfloat where "initial_backoff = 1"
definition max_backoff :: pyfloat where "max_backoff = 30"

section \<open>Accounting of wakes\<close>

datatype poller_event = Offered wake_message | Taken

text \<open>The client after a sequence of events, and the messages its writer has taken, in order.\<close>

fun poller_step :: "poller_event \<Rightarrow> poller \<times> wake_message list \<Rightarrow> poller \<times> wake_message list" where
  "poller_step (Offered m) (p, taken) = (snd (send_wake m p), taken)"
| "poller_step Taken (p, taken) =
     (case pc_queue p of [] \<Rightarrow> (p, taken) | m # rest \<Rightarrow> (p\<lparr>pc_queue := rest\<rparr>, taken @ [m]))"

definition offered :: "poller_event list \<Rightarrow> wake_message list" where
  "offered events = concat (map (\<lambda>e. case e of Offered m \<Rightarrow> [m] | Taken \<Rightarrow> []) events)"

definition shadows :: "wake_message list \<Rightarrow> nat" where "shadows ms = length (filter dry_run ms)"
definition reals :: "wake_message list \<Rightarrow> nat" where "reals ms = length (filter (\<lambda>m. \<not> dry_run m) ms)"

lemma counts [simp]:
  "shadows [] = 0" "shadows (m # ms) = (if dry_run m then 1 else 0) + shadows ms"
  "reals [] = 0" "reals (m # ms) = (if dry_run m then 0 else 1) + reals ms"
  "shadows (ms @ ms') = shadows ms + shadows ms'" "reals (ms @ ms') = reals ms + reals ms'"
  by (simp_all add: shadows_def reals_def)

definition poller_inv :: "int \<Rightarrow> int \<Rightarrow> wake_message list \<Rightarrow> poller \<times> wake_message list \<Rightarrow> bool" where
  "poller_inv n limit ms s \<longleftrightarrow>
     (let (p, taken) = s in
      pc_maxsize p = n \<and> pc_shadow_limit p = limit \<and> int (length (pc_queue p)) \<le> n \<and>
      int (shadows (pc_queue p)) \<le> limit \<and>
      reals ms = reals (taken @ pc_queue p) + pc_dropped p \<and>
      shadows ms = shadows (taken @ pc_queue p) + pc_dropped_shadow p)"

lemma shadows_le: "shadows ms \<le> length ms"
  by (simp add: shadows_def)

lemma poller_inv_step:
  assumes "0 < n" "limit \<le> n" "poller_inv n limit ms s"
  shows "poller_inv n limit (ms @ offered [e]) (poller_step e s)"
proof (cases e)
  case (Offered m)
  then show ?thesis using assms shadows_le [of "pc_queue (fst s)"]
    by (cases s) (auto simp: poller_inv_def offered_def send_wake_def wake_queue_full_def Let_def)
next
  case Taken
  then show ?thesis using assms
    by (cases s) (auto simp: poller_inv_def offered_def split: list.split)
qed

lemma offered_append: "offered (es @ es') = offered es @ offered es'"
  by (simp add: offered_def)

lemma poller_inv_run:
  assumes "0 < n" "limit \<le> n" "poller_inv n limit ms s"
  shows "poller_inv n limit (ms @ offered events) (fold poller_step events s)"
  using assms(3)
proof (induction events arbitrary: ms s)
  case (Cons e events)
  from Cons.IH [OF poller_inv_step [OF assms(1,2) Cons.prems, of e]]
  show ?case using offered_append [of "[e]" events] by simp
qed (simp add: offered_def)

lemma shadow_limit_le:
  assumes "0 < n" "n < 2 ^ 53"
  shows "pc_shadow_limit (new_poller n) \<le> n \<and> 1 \<le> pc_shadow_limit (new_poller n)"
proof -
  have q: "shadow_queue_fraction = 1 / 4" by code_simp
  have "float_of n * (1 / 4) \<le> of_int n" using assms by (simp add: float_of_exact)
  then have "fmul (float_of n) (1 / 4) \<le> of_int n"
    unfolding fmul_def by (rule f64.rd_le_int) (use assms in simp)
  then have "py_int (fmul (float_of n) (1 / 4)) \<le> n" using py_int_mono py_int_of_int by metis
  then show ?thesis using assms by (simp add: new_poller_def q)
qed

text \<open>C19. Every wake offered to the poller is taken by the writer, still queued or counted as
  dropped, shadow fires never hold more than their share of the queue, and a real fire is dropped
  only when real fires fill the rest of it.\<close>
theorem wakes_are_accounted_for:
  assumes "0 < n" "n < 2 ^ 53" "fold poller_step events (new_poller n, []) = (p, taken)"
  shows "int (length (pc_queue p)) \<le> n \<and> int (shadows (pc_queue p)) \<le> pc_shadow_limit (new_poller n) \<and>
    reals (offered events) = reals (taken @ pc_queue p) + pc_dropped p \<and>
    shadows (offered events) = shadows (taken @ pc_queue p) + pc_dropped_shadow p \<and>
    (0 < pc_dropped (snd (send_wake m p)) - pc_dropped p \<longrightarrow>
       \<not> dry_run m \<and> n - pc_shadow_limit (new_poller n) \<le> int (reals (pc_queue p)))"
proof -
  have "poller_inv n (pc_shadow_limit (new_poller n)) [] (new_poller n, [])"
    using shadow_limit_le [OF assms(1,2)] assms(1) by (simp add: poller_inv_def new_poller_def)
  from poller_inv_run [OF assms(1) _ this, of events] shadow_limit_le [OF assms(1,2)] assms(3)
  have inv: "poller_inv n (pc_shadow_limit (new_poller n)) (offered events) (p, taken)" by simp
  have "length (pc_queue p) = shadows (pc_queue p) + reals (pc_queue p)"
    unfolding shadows_def reals_def by (rule sum_length_filter_compl [symmetric])
  then show ?thesis using inv shadow_limit_le [OF assms(1,2)]
    by (auto simp: poller_inv_def send_wake_def wake_queue_full_def Let_def)
qed

section \<open>Delivery\<close>

definition frames_sent :: "write_effect list \<Rightarrow> bytes list" where
  "frames_sent fx = concat (map (\<lambda>x. case x of SentFrame f \<Rightarrow> [f] | SentRow _ \<Rightarrow> []) fx)"

lemma write_loop_sends:
  assumes "list_all wr_drains rs" "length (pc_queue p) \<le> length rs"
    and "list_all (\<lambda>m. length (dumps (message_json m)) \<le> max_frame_bytes) (pc_queue p)"
  shows "\<exists>fx. write_loop dumps rs p = (fx, p\<lparr>pc_queue := []\<rparr>, AwaitsWake) \<and>
    list_all2 (\<lambda>m f. encode_frame dumps (message_json m) = Inr f) (pc_queue p) (frames_sent fx)"
  using assms
proof (induction dumps rs p rule: write_loop.induct)
  case (2 dumps r rs p)
  show ?case
  proof (cases "pc_queue p")
    case Nil
    then show ?thesis by (simp add: frames_sent_def)
  next
    case (Cons m rest)
    have "length (dumps (message_json m)) < 2 ^ 32" using "2.prems"(3) Cons by (simp add: max_frame_bytes_def)
    then obtain f where f: "encode_frame dumps (message_json m) = Inr f"
      using read_encoded [where dumps = dumps and payload = "message_json m" and rest = "[]"] by blast
    obtain fx where fx: "write_loop dumps rs (p\<lparr>pc_queue := rest\<rparr>) = (fx, p\<lparr>pc_queue := []\<rparr>, AwaitsWake)"
        "list_all2 (\<lambda>m f. encode_frame dumps (message_json m) = Inr f) rest (frames_sent fx)"
      using "2.IH" [OF Cons refl f] "2.prems" Cons by auto
    then show ?thesis using f "2.prems"(1) Cons by (simp add: frames_sent_def)
  qed
qed (simp add: frames_sent_def)


section \<open>Acks\<close>

definition ack_step ::
    "(bytes \<Rightarrow> exc + jvalue) \<Rightarrow> (jvalue \<times> jvalue) list \<Rightarrow> bytes \<Rightarrow> ((jvalue \<times> jvalue) list \<times> exc) + (jvalue \<times> jvalue) list" where
  "ack_step loads warned body =
     (case decode_wake_ack loads body of
        Inl e \<Rightarrow> Inl (warned, e)
      | Inr a \<Rightarrow> Inr (if a ''status'' = Some (JScalar (JStr ''accepted'')) then warned
          else warned @ [(the (a ''correlation_id''), the (a ''reason''))]))"

lemma read_ack_step:
  "read_ack_loop loads warned stream =
     (case read_frame_body stream of
        Inl e \<Rightarrow> (warned, e)
      | Inr (body, rest) \<Rightarrow>
          (case ack_step loads warned body of Inl r \<Rightarrow> r | Inr warned' \<Rightarrow> read_ack_loop loads warned' rest))"
  by (subst read_ack_loop.simps) (simp add: ack_step_def split: sum.split prod.split)

lemma decode_ack:
  "loads body = Inr (ack_json a) \<Longrightarrow>
     ack_step loads warned body = Inr (case ack_status a of AckAccepted \<Rightarrow> warned
       | AckRejected \<Rightarrow> warned @ [(ack_correlation_id a, JScalar (case ack_reason a of None \<Rightarrow> JNull | Some s \<Rightarrow> JStr s))])"
  by (cases "ack_status a")
    (simp_all add: ack_step_def decode_wake_ack_def init_fields_def ack_fields_def ack_json_def)

lemma steps_acks:
  "list_all (\<lambda>a. loads (dumps (ack_json a)) = Inr (ack_json a) \<and> ack_status a = AckAccepted) acks \<Longrightarrow>
     steps (ack_step loads) warned (map (\<lambda>a. dumps (ack_json a)) acks) = Inr warned"
  by (induction acks) (simp_all add: decode_ack)

text \<open>Acks of accepted wakes are read silently, however many there are, until the executor closes.\<close>

lemma accepted_acks_are_silent:
  assumes "list_all (\<lambda>a. loads (dumps (ack_json a)) = Inr (ack_json a) \<and> ack_status a = AckAccepted \<and>
      length (dumps (ack_json a)) \<le> max_frame_bytes) acks"
  shows "read_ack_loop loads [] (concat (map (\<lambda>a. framed (dumps (ack_json a))) acks)) = ([], IncompleteRead)"
proof -
  have "list_all fits_frame (map (\<lambda>a. dumps (ack_json a)) acks)"
    using assms by (simp add: list_all_iff fits_frame_def)
  from wire.loop_ends_with_stream [where loop = "read_ack_loop loads" and body = "ack_step loads"
      and stop = "\<lambda>s e. (s, e)", OF read_ack_step this]
  have "read_ack_loop loads [] (concat (map framed (map (\<lambda>a. dumps (ack_json a)) acks))) =
      (case steps (ack_step loads) [] (map (\<lambda>a. dumps (ack_json a)) acks) of Inl r \<Rightarrow> r | Inr s' \<Rightarrow> (s', IncompleteRead))"
    by simp
  moreover have "steps (ack_step loads) [] (map (\<lambda>a. dumps (ack_json a)) acks) = Inr []"
    using assms by (intro steps_acks) (simp add: list_all_iff)
  ultimately show ?thesis by (simp add: comp_def)
qed

section \<open>Waits between attempts\<close>

lemma backoff_wait:
  assumes "1 \<le> b" "b \<le> 30" "0 \<le> d" "d \<le> 1"
  shows "1 / 2 \<le> fmul b (fadd (lit 5 10) d) \<and> fmul b (fadd (lit 5 10) d) \<le> 45"
proof -
  have half: "lit 5 10 = 1 / 2" by code_simp
  have exact: "rnd (1 / 2) = 1 / 2" "rnd (3 / 2) = 3 / 2" "rnd 45 = 45" by code_simp+
  have lo: "1 / 2 \<le> fadd (1 / 2) d"
    unfolding fadd_def by (rule f64.rd_ge_fixed [OF _ exact(1)]) (use assms(3) in simp)
  have hi: "fadd (1 / 2) d \<le> 3 / 2"
    unfolding fadd_def by (rule f64.rd_le_fixed [OF _ exact(2)]) (use assms(4) in simp)
  have "1 / 2 \<le> b * fadd (1 / 2) d" using mult_mono [of 1 b "1 / 2" "fadd (1 / 2) d"] assms(1) lo by simp
  then have low: "1 / 2 \<le> fmul b (fadd (1 / 2) d)" unfolding fmul_def by (rule f64.rd_ge_fixed [OF _ exact(1)])
  have "b * fadd (1 / 2) d \<le> 30 * (3 / 2)" using assms(1,2) lo hi by (intro mult_mono) simp_all
  then have "b * fadd (1 / 2) d \<le> 45" by simp
  then have "fmul b (fadd (1 / 2) d) \<le> 45" unfolding fmul_def by (rule f64.rd_le_fixed [OF _ exact(3)])
  then show ?thesis unfolding half using low by simp
qed

lemma backoff_doubles:
  assumes "1 \<le> b" "b \<le> 30"
  shows "1 \<le> min (fmul b 2) max_backoff \<and> min (fmul b 2) max_backoff \<le> 30"
proof -
  have "1 \<le> fmul b 2" unfolding fmul_def by (rule f64.rd_ge_fixed) (use assms in simp_all)
  then show ?thesis by (simp add: max_backoff_def)
qed

section \<open>Witnesses\<close>

theorem wakes_are_accounted_for_witness:
  "case fold poller_step [Offered (sample_message\<lparr>dry_run := True\<rparr>), Offered sample_message, Taken] (new_poller 4, []) of
     (p, taken) \<Rightarrow> reals [sample_message\<lparr>dry_run := True\<rparr>, sample_message] = reals (taken @ pc_queue p) + pc_dropped p \<and>
       reals [sample_message\<lparr>dry_run := True\<rparr>, sample_message] = 1"
proof -
  obtain p taken where f: "fold poller_step [Offered (sample_message\<lparr>dry_run := True\<rparr>), Offered sample_message, Taken]
      (new_poller 4, []) = (p, taken)" by force
  have "offered [Offered (sample_message\<lparr>dry_run := True\<rparr>), Offered sample_message, Taken] =
      [sample_message\<lparr>dry_run := True\<rparr>, sample_message]" by (simp add: offered_def)
  moreover have "\<not> dry_run sample_message" by (simp add: sample_message_def)
  moreover have "(0 :: int) < 4" "(4 :: int) < 2 ^ 53" by simp_all
  note wakes_are_accounted_for [OF this f]
  ultimately show ?thesis using f by simp
qed


end
