(* ===== verification/Poller_Connection.thy ===== *)
theory Poller_Connection
  imports Poller_Client "HOL-Library.Sublist"
begin

text \<open>
  The life of the poller's client over any number of connections: \<open>_run\<close> and \<open>_run_connection\<close> of
  \<open>ipc/poller_client.py\<close> as a step relation, what a lost connection costs, and the wakes the
  executor sees at the other end of all of them.
\<close>

section \<open>The client and its steps\<close>

text \<open>
  \<open>Waiting b\<close>: about to open a connection, with \<open>b\<close> the next backoff. The frames are kept by
  connection, the newest one first, and the rows and waits in the order they occurred.
\<close>

datatype phase = Stopped | Waiting pyfloat | Online

record client =
  cl_poller :: poller
  cl_phase :: phase
  cl_wire :: "bytes list list"
  cl_rows :: "sqlrow list"
  cl_waits :: "pyfloat list"
  cl_warned :: "(jvalue \<times> jvalue) list"

definition new_poller_client :: "int \<Rightarrow> client" where
  "new_poller_client n = \<lparr>cl_poller = new_poller n, cl_phase = Stopped, cl_wire = [], cl_rows = [], cl_waits = [], cl_warned = []\<rparr>"

definition rows_recorded :: "write_effect list \<Rightarrow> sqlrow list" where
  "rows_recorded fx = concat (map (\<lambda>x. case x of SentFrame _ \<Rightarrow> [] | SentRow r \<Rightarrow> [r]) fx)"

text \<open>The effects of a turn of the write loop on the current connection.\<close>

definition turn_done :: "write_effect list \<Rightarrow> poller \<Rightarrow> client \<Rightarrow> client" where
  "turn_done fx p c =
     c\<lparr>cl_poller := p, cl_rows := cl_rows c @ rows_recorded fx,
       cl_wire := (case cl_wire c of [] \<Rightarrow> [] | w # ws \<Rightarrow> (w @ frames_sent fx) # ws)\<rparr>"

text \<open>
  The steps of \<open>_run\<close>. A refused connection sleeps for the jittered backoff and doubles it; an opened
  one resets it and starts the two loop tasks. The first task that ends takes the connection
  down: a write that fails, or a reader that meets the end of the stream or an ack it cannot
  decode. A writer that is cancelled inside \<open>drain()\<close>, by the end of the reader or by \<open>close()\<close>, is a
  write that fails. \<open>start\<close> and \<open>close\<close> are idempotent.
\<close>

inductive client_step ::
    "(jvalue \<Rightarrow> bytes) \<Rightarrow> (bytes \<Rightarrow> exc + jvalue) \<Rightarrow> client \<Rightarrow> client \<Rightarrow> bool" for dumps loads where
  started:
    "cl_phase c = Stopped \<Longrightarrow>
     client_step dumps loads c (c\<lparr>cl_poller := poller_start (cl_poller c), cl_phase := Waiting initial_backoff\<rparr>)"
| unreachable:
    "cl_phase c = Waiting b \<Longrightarrow> 0 \<le> d \<Longrightarrow> d < 1 \<Longrightarrow>
     client_step dumps loads c
       (c\<lparr>cl_waits := cl_waits c @ [fmul b (fadd (lit 5 10) d)], cl_phase := Waiting (min (fmul b 2) max_backoff)\<rparr>)"
| connected:
    "cl_phase c = Waiting b \<Longrightarrow> client_step dumps loads c (c\<lparr>cl_wire := [] # cl_wire c, cl_phase := Online\<rparr>)"
| sent:
    "cl_phase c = Online \<Longrightarrow> write_loop dumps [r] (cl_poller c) = (fx, p, AwaitsWake) \<Longrightarrow>
     client_step dumps loads c (turn_done fx p c)"
| send_failed:
    "cl_phase c = Online \<Longrightarrow> write_loop dumps [r] (cl_poller c) = (fx, p, WriterFailed) \<Longrightarrow>
     client_step dumps loads c (turn_done fx p c\<lparr>cl_phase := Waiting initial_backoff\<rparr>)"
| acked:
    "cl_phase c = Online \<Longrightarrow> ack_step loads (cl_warned c) body = Inr w \<Longrightarrow>
     client_step dumps loads c (c\<lparr>cl_warned := w\<rparr>)"
| ack_failed:
    "cl_phase c = Online \<Longrightarrow> ack_step loads (cl_warned c) body = Inl (w, e) \<Longrightarrow>
     client_step dumps loads c (c\<lparr>cl_phase := Waiting initial_backoff\<rparr>)"
| peer_left:
    "cl_phase c = Online \<Longrightarrow> client_step dumps loads c (c\<lparr>cl_phase := Waiting initial_backoff\<rparr>)"
| stopped:
    "client_step dumps loads c (c\<lparr>cl_poller := poller_close (cl_poller c), cl_phase := Stopped\<rparr>)"

text \<open>The clients reached while the decision process offers wakes, in the order of the list.\<close>

inductive client_run ::
    "(jvalue \<Rightarrow> bytes) \<Rightarrow> (bytes \<Rightarrow> exc + jvalue) \<Rightarrow> int \<Rightarrow> wake_message list \<Rightarrow> client \<Rightarrow> bool" for dumps loads n where
  fresh: "client_run dumps loads n [] (new_poller_client n)"
| offers: "client_run dumps loads n ms c \<Longrightarrow>
     client_run dumps loads n (ms @ [m]) (c\<lparr>cl_poller := snd (send_wake m (cl_poller c))\<rparr>)"
| runs: "client_run dumps loads n ms c \<Longrightarrow> client_step dumps loads c c' \<Longrightarrow> client_run dumps loads n ms c'"

section \<open>A turn of the write loop\<close>

text \<open>It takes the first queued message: sends and records it, or loses it with the connection.\<close>

lemma write_turn:
  assumes "write_loop dumps [r] p = (fx, p', e)"
  obtains (idle) "pc_queue p = []" "fx = []" "p' = p" "e = AwaitsWake"
  | (sent) m rest f row where "pc_queue p = m # rest" "p' = p\<lparr>pc_queue := rest\<rparr>" "e = AwaitsWake"
      "encode_frame dumps (message_json m) = Inr f" "fx = [SentFrame f, SentRow row]"
  | (unencoded) m rest where "pc_queue p = m # rest" "p' = p\<lparr>pc_queue := rest\<rparr>" "e = WriterFailed" "fx = []"
  | (undrained) m rest f where "pc_queue p = m # rest" "p' = p\<lparr>pc_queue := rest\<rparr>" "e = WriterFailed"
      "encode_frame dumps (message_json m) = Inr f" "fx = [SentFrame f]"
  using assms by (auto simp: Let_def split: list.splits sum.splits if_splits prod.splits)

lemma effects_of_turn [simp]:
  "frames_sent [] = []" "frames_sent (SentFrame f # fx) = f # frames_sent fx" "frames_sent (SentRow w # fx) = frames_sent fx"
  "rows_recorded [] = []" "rows_recorded (SentFrame f # fx) = rows_recorded fx"
  "rows_recorded (SentRow w # fx) = w # rows_recorded fx"
  by (simp_all add: frames_sent_def rows_recorded_def)

lemma client_fields [simp]:
  "cl_phase (turn_done fx p c) = cl_phase c" "cl_poller (turn_done fx p c) = p" "cl_waits (turn_done fx p c) = cl_waits c"
  "pc_queue (poller_start p) = pc_queue p" "pc_queue (poller_close p) = pc_queue p"
  "pc_dropped (poller_start p) = pc_dropped p" "pc_dropped (poller_close p) = pc_dropped p"
  "pc_dropped_shadow (poller_start p) = pc_dropped_shadow p" "pc_dropped_shadow (poller_close p) = pc_dropped_shadow p"
  by (simp_all add: turn_done_def poller_start_def poller_close_def)

section \<open>Waits between attempts\<close>

lemma client_waits:
  assumes "client_run dumps loads n ms c"
  shows "list_all (\<lambda>w. 1 / 2 \<le> w \<and> w \<le> 45) (cl_waits c) \<and> (\<forall>b. cl_phase c = Waiting b \<longrightarrow> 1 \<le> b \<and> b \<le> 30)"
  using assms
proof induction
  case (runs ms c c')
  from runs.hyps(2) runs.IH show ?case
    by cases (use backoff_wait backoff_doubles in \<open>auto simp: initial_backoff_def\<close>)
qed (simp_all add: new_poller_client_def)

section \<open>What was written\<close>

text \<open>The messages whose frames were written, by connection, are offered ones in their order.\<close>

definition written_as :: "(jvalue \<Rightarrow> bytes) \<Rightarrow> wake_message list list \<Rightarrow> bytes list list \<Rightarrow> bool" where
  "written_as dumps = list_all2 (list_all2 (\<lambda>m f. encode_frame dumps (message_json m) = Inr f))"

definition wire_inv :: "(jvalue \<Rightarrow> bytes) \<Rightarrow> wake_message list \<Rightarrow> client \<Rightarrow> bool" where
  "wire_inv dumps ms c \<longleftrightarrow>
     (\<exists>sent. written_as dumps sent (cl_wire c) \<and> subseq (concat (rev sent) @ pc_queue (cl_poller c)) ms) \<and>
     (cl_phase c = Online \<longrightarrow> cl_wire c \<noteq> [])"

lemma wire_inv_offers:
  assumes "wire_inv dumps ms c"
  shows "wire_inv dumps (ms @ [m]) (c\<lparr>cl_poller := snd (send_wake m (cl_poller c))\<rparr>)"
proof -
  obtain sent where s: "written_as dumps sent (cl_wire c)" "subseq (concat (rev sent) @ pc_queue (cl_poller c)) ms"
    using assms by (auto simp: wire_inv_def)
  from s(2) have "subseq (concat (rev sent) @ pc_queue (snd (send_wake m (cl_poller c)))) (ms @ [m])"
    using list_emb_append_mono [OF s(2), of "[m]" "[m]"] subseq_order.order_trans [OF s(2), of "ms @ [m]"]
    by (auto simp: send_wake_def Let_def)
  then show ?thesis using s(1) assms by (auto simp: wire_inv_def)
qed

lemma wire_inv_turn:
  assumes inv: "wire_inv dumps ms c" and "cl_phase c = Online" and turn: "write_loop dumps [r] (cl_poller c) = (fx, p, e)"
  shows "wire_inv dumps ms (turn_done fx p c)"
proof -
  obtain sent where s: "written_as dumps sent (cl_wire c)" "subseq (concat (rev sent) @ pc_queue (cl_poller c)) ms"
    using inv by (auto simp: wire_inv_def)
  obtain w ws where w: "cl_wire c = w # ws" using inv assms(2) by (cases "cl_wire c") (auto simp: wire_inv_def)
  then obtain t ts where t: "sent = t # ts" "list_all2 (\<lambda>m f. encode_frame dumps (message_json m) = Inr f) t w"
      "written_as dumps ts ws"
    using s(1) by (auto simp: written_as_def list_all2_Cons2)
  have step: "wire_inv dumps ms (turn_done fx p c)"
    if "list_all2 (\<lambda>m f. encode_frame dumps (message_json m) = Inr f) new (frames_sent fx)"
      "subseq (new @ pc_queue p) (pc_queue (cl_poller c))" for new
  proof -
    have "subseq (concat (rev ts) @ t @ new @ pc_queue p) ms"
    proof -
      have "subseq ((concat (rev ts) @ t) @ new @ pc_queue p) ((concat (rev ts) @ t) @ pc_queue (cl_poller c))"
        using that(2) by (simp only: subseq_append')
      then show ?thesis using s(2) unfolding t(1) by (auto intro: subseq_order.order_trans)
    qed
    then show ?thesis using that(1) t(2,3) w
      by (auto simp: wire_inv_def turn_done_def written_as_def list_all2_appendI intro!: exI [of _ "(t @ new) # ts"])
  qed
  from turn show ?thesis
  proof (cases rule: write_turn)
    case idle
    then show ?thesis by (intro step [of "[]"]) simp_all
  next
    case (sent m rest f row)
    then show ?thesis by (intro step [of "[m]"]) simp_all
  next
    case (unencoded m rest)
    then show ?thesis by (intro step [of "[]"]) (simp_all add: subseq_order.less_imp_le list_emb_Cons)
  next
    case (undrained m rest f)
    then show ?thesis by (intro step [of "[m]"]) simp_all
  qed
qed

lemma wire_inv_run: "client_run dumps loads n ms c \<Longrightarrow> wire_inv dumps ms c"
proof (induction rule: client_run.induct)
  case (runs ms c c')
  from runs.hyps(2) show ?case
  proof cases
    case (sent r fx p)
    then show ?thesis using wire_inv_turn [OF runs.IH] by simp
  next
    case (send_failed r fx p)
    then show ?thesis using wire_inv_turn [OF runs.IH send_failed(2,3)] by (simp add: wire_inv_def)
  next
    case connected
    obtain sent where "written_as dumps sent (cl_wire c)" "subseq (concat (rev sent) @ pc_queue (cl_poller c)) ms"
      using runs.IH by (auto simp: wire_inv_def)
    then show ?thesis using connected
      by (auto simp: wire_inv_def written_as_def intro!: exI [of _ "[] # sent"])
  qed (use runs.IH in \<open>auto simp: wire_inv_def\<close>)
next
  case fresh
  then show ?case by (auto simp: wire_inv_def new_poller_client_def new_poller_def written_as_def)
qed (rule wire_inv_offers)

section \<open>What a lost connection costs\<close>

text \<open>
  Every wake offered is recorded as sent, still queued, counted as dropped, or lost with a
  connection, which loses at most one.
\<close>

definition account_inv :: "wake_message list \<Rightarrow> client \<Rightarrow> bool" where
  "account_inv ms c \<longleftrightarrow>
     (\<exists>lost. length ms = length (cl_rows c) + lost + length (pc_queue (cl_poller c)) +
         pc_dropped (cl_poller c) + pc_dropped_shadow (cl_poller c) \<and>
       lost + (if cl_phase c = Online then 1 else 0) \<le> length (cl_wire c))"

lemma account_inv_turn:
  assumes "write_loop dumps [r] p = (fx, p', e)"
  shows "length (rows_recorded fx) + (if e = WriterFailed then 1 else 0) + length (pc_queue p') = length (pc_queue p) \<and>
    pc_dropped p' = pc_dropped p \<and> pc_dropped_shadow p' = pc_dropped_shadow p"
  using assms by (cases rule: write_turn) simp_all

lemma wire_of_turn: "length (cl_wire (turn_done fx p c)) = length (cl_wire c)" "cl_rows (turn_done fx p c) = cl_rows c @ rows_recorded fx"
  by (simp_all add: turn_done_def split: list.split)

lemma account_inv_run: "client_run dumps loads n ms c \<Longrightarrow> account_inv ms c"
proof (induction rule: client_run.induct)
  case (offers ms c m)
  then show ?case by (auto simp: account_inv_def send_wake_def Let_def)
next
  case (runs ms c c')
  obtain lost where l: "length ms = length (cl_rows c) + lost + length (pc_queue (cl_poller c)) +
         pc_dropped (cl_poller c) + pc_dropped_shadow (cl_poller c)"
      "lost + (if cl_phase c = Online then 1 else 0) \<le> length (cl_wire c)"
    using runs.IH by (auto simp: account_inv_def)
  from runs.hyps(2) show ?case
  proof cases
    case (sent r fx p)
    then show ?thesis using account_inv_turn [OF sent(3)] l
      by (auto simp: account_inv_def wire_of_turn intro!: exI [of _ lost])
  next
    case (send_failed r fx p)
    then show ?thesis using account_inv_turn [OF send_failed(3)] l
      by (auto simp: account_inv_def wire_of_turn intro!: exI [of _ "Suc lost"])
  qed (use l in \<open>auto simp: account_inv_def intro!: exI [of _ lost]\<close>)
qed (simp add: account_inv_def new_poller_client_def new_poller_def)

text \<open>However often the connection breaks, each wake offered to the client is recorded as sent, still
  queued, counted as dropped, or lost in the writer's hand, and the last happens at most once per
  connection; the client never waits longer than 45 seconds between two attempts.\<close>
text \<open>C20. However often the connection breaks, each wake offered to the client is recorded as sent,
  still queued, counted as dropped, or lost in the writer's hand, and the last happens at most
  once per connection; the client never waits longer than 45 seconds between two attempts.\<close>
theorem broken_connections_lose_one_wake_each:
  assumes "client_run dumps loads n ms c"
  shows "\<exists>lost \<le> length (cl_wire c).
      length ms = length (cl_rows c) + lost + length (pc_queue (cl_poller c)) +
        pc_dropped (cl_poller c) + pc_dropped_shadow (cl_poller c) \<and>
      list_all (\<lambda>w. 1 / 2 \<le> w \<and> w \<le> 45) (cl_waits c)"
  using account_inv_run [OF assms] client_waits [OF assms] by (force simp: account_inv_def)

section \<open>Streams that are cut\<close>

text \<open>A connection delivers some prefix of what was written, cut at any byte.\<close>

locale cut_framing = framing +
  assumes get_cut: "fits x \<Longrightarrow> k < length (put x) \<Longrightarrow> get (take k (put x)) = Inl IncompleteRead"
begin

text \<open>A loop that reads frames sees the frames that arrived whole.\<close>

lemma loop_reads_cut_stream:
  assumes loop: "\<And>s stream. loop s stream =
      (case get stream of Inl e \<Rightarrow> stop s e
       | Inr (x, rest) \<Rightarrow> (case body s x of Inl r \<Rightarrow> r | Inr s' \<Rightarrow> loop s' rest))"
    and "list_all fits xs" "prefix stream (concat (map put xs))"
  shows "\<exists>j. loop s stream = (case steps body s (take j xs) of Inl r \<Rightarrow> r | Inr s' \<Rightarrow> stop s' IncompleteRead)"
  using assms(2,3)
proof (induction xs arbitrary: s stream)
  case Nil
  then show ?case by (simp add: loop get_end)
next
  case (Cons x xs)
  show ?case
  proof (cases "length stream < length (put x)")
    case True
    then have "stream = take (length stream) (put x)"
      using Cons.prems(2) by (metis append_eq_append_conv_if concat.simps(2) linorder_not_less list.simps(9) nat_less_le prefixE)
    then have "get stream = Inl IncompleteRead" using get_cut [of x "length stream"] Cons.prems(1) True by simp
    then show ?thesis by (intro exI [of _ 0], subst loop) simp
  next
    case False
    then obtain rest where rest: "stream = put x @ rest" "prefix rest (concat (map put xs))"
      using Cons.prems(2) by (auto simp: prefix_def append_eq_append_conv2)
    have here: "loop s stream = (case body s x of Inl r \<Rightarrow> r | Inr s' \<Rightarrow> loop s' rest)"
      using Cons.prems(1) rest(1) by (subst loop) (simp add: get_put)
    show ?thesis
    proof (cases "body s x")
      case (Inl r)
      then show ?thesis using here by (intro exI [of _ 1]) simp
    next
      case (Inr s')
      then obtain j where "loop s' rest = (case steps body s' (take j xs) of Inl r \<Rightarrow> r | Inr s' \<Rightarrow> stop s' IncompleteRead)"
        using Cons.IH [OF _ rest(2), of s'] Cons.prems(1) by auto
      then show ?thesis using here Inr by (intro exI [of _ "Suc j"]) simp
    qed
  qed
qed

end

lemma pack_length: "pack_u32 n = Inr pre \<Longrightarrow> length pre = 4"
  by (auto simp: pack_u32_def split: if_splits)

interpretation cut_wire: cut_framing framed read_frame_body fits_frame
proof
  fix body and k :: nat
  assume fits: "fits_frame body" and k: "k < length (framed body)"
  obtain pre where p: "pack_u32 (length body) = Inr pre" using k by (auto simp: framed_def split: sum.splits)
  have f: "framed body = pre @ body" by (simp add: framed_def p)
  show "read_frame_body (take k (framed body)) = Inl IncompleteRead"
  proof (cases "k < 4")
    case True
    then show ?thesis using pack_length [OF p]
      by (simp add: f read_frame_body_def readexactly_def frame_length_bytes_def)
  next
    case False
    have "read_frame_body (framed body @ []) = Inr (body, [])" by (rule wire.get_put [OF fits])
    then show ?thesis using False k pack_length [OF p] fits
      by (auto simp: f read_frame_body_def readexactly_def frame_length_bytes_def Let_def split: sum.splits if_splits)
  qed
qed

section \<open>At most one fire for a wake\<close>

text \<open>A message fires once when its ack is drained, and not at all when the peer is gone.\<close>

lemma message_fires:
  assumes "loads body = Inr (message_json m)"
  shows "\<exists>fx. handle_frame loads exc_text r body = (fx, fr_drains r) \<and>
    map message_of (fires_of fx) = (if fr_drains r then [Some m] else [])"
proof -
  obtain d where "decode_wake_message loads body = Inr d" "message_of d = Some m"
      "d ''correlation_id'' = Some (JScalar (JStr (correlation_id m)))" "d ''dry_run'' = Some (JScalar (JBool (dry_run m)))"
    using decode_message [where loads = loads and body = body and m = m, OF assms(1)] by blast
  then show ?thesis by (auto simp: handle_frame_def Let_def)
qed

lemma steps_fire:
  assumes "list_all (\<lambda>m. loads (dumps (message_json m)) = Inr (message_json m)) ms"
  shows "\<exists>fx' j. steps (frame_step loads exc_text rd) (fx, i) (map (\<lambda>m. dumps (message_json m)) ms) \<in>
      {Inl (fx @ fx', Aborted), Inr (fx @ fx', i + j)} \<and>
    map message_of (fires_of fx') = map Some (take j ms)"
  using assms
proof (induction ms arbitrary: fx i)
  case (Cons m ms)
  obtain f where f: "handle_frame loads exc_text (rd i) (dumps (message_json m)) = (f, fr_drains (rd i))"
      "map message_of (fires_of f) = (if fr_drains (rd i) then [Some m] else [])"
    using message_fires [where loads = loads and body = "dumps (message_json m)" and m = m] Cons.prems by auto
  show ?case
  proof (cases "fr_drains (rd i)")
    case False
    then have "frame_step loads exc_text rd (fx, i) (dumps (message_json m)) = Inl (fx @ f, Aborted)"
      using f(1) by (simp add: frame_step_def)
    then show ?thesis using f(2) False by (intro exI [of _ f] exI [of _ 0]) simp
  next
    case True
    then have here: "frame_step loads exc_text rd (fx, i) (dumps (message_json m)) = Inr (fx @ f, Suc i)"
      using f(1) by (simp add: frame_step_def)
    obtain fx' j where "steps (frame_step loads exc_text rd) (fx @ f, Suc i) (map (\<lambda>m. dumps (message_json m)) ms) \<in>
        {Inl ((fx @ f) @ fx', Aborted), Inr ((fx @ f) @ fx', Suc i + j)}"
        "map message_of (fires_of fx') = map Some (take j ms)"
      using Cons.IH [of "fx @ f" "Suc i"] Cons.prems by auto
    then show ?thesis using f(2) True here by (intro exI [of _ "f @ fx'"] exI [of _ "Suc j"]) simp
  qed
qed (auto intro: exI [of _ "[]"])

lemma take_map_prefix: "map f (take j ms) = take j (map f ms)"
  by (simp add: take_map)

text \<open>What one connection fires is a prefix of what was written to it.\<close>

lemma connection_fires:
  assumes "list_all (\<lambda>m. loads (dumps (message_json m)) = Inr (message_json m) \<and>
      length (dumps (message_json m)) \<le> max_frame_bytes) ms"
    and "list_all2 (\<lambda>m f. encode_frame dumps (message_json m) = Inr f) ms frames"
    and "prefix stream (concat frames)"
  shows "\<exists>j. map message_of (fires_of (fst (handle_connection loads exc_text rd ([], 0) stream))) = map Some (take j ms)"
proof -
  let ?bodies = "map (\<lambda>m. dumps (message_json m)) ms"
  have "frames = map framed ?bodies"
    using assms(2) by (induction ms frames rule: list_all2_induct) (simp_all add: encode_framed)
  moreover have "list_all fits_frame ?bodies" using assms(1) by (simp add: list_all_iff fits_frame_def)
  moreover note assms(3)
  ultimately have "list_all fits_frame ?bodies" "prefix stream (concat (map framed ?bodies))" by simp_all
  from cut_wire.loop_reads_cut_stream [where loop = "handle_connection loads exc_text rd"
        and body = "frame_step loads exc_text rd" and s = "([], 0)"
        and stop = "\<lambda>s e. (fst s, if e = IncompleteRead then PeerClosed else Oversized)", OF handle_connection_loop this]
  obtain j where j: "handle_connection loads exc_text rd ([], 0) stream =
      (case steps (frame_step loads exc_text rd) ([], 0) (take j ?bodies) of Inl r \<Rightarrow> r | Inr s' \<Rightarrow> (fst s', PeerClosed))"
    by auto
  have "list_all (\<lambda>m. loads (dumps (message_json m)) = Inr (message_json m)) (take j ms)"
    using assms(1) by (auto simp: list_all_iff dest: in_set_takeD)
  from steps_fire [where rd = rd and exc_text = exc_text and fx = "[]" and i = 0, OF this] obtain fx' k where
    "steps (frame_step loads exc_text rd) ([], 0) (take j ?bodies) \<in> {Inl (fx', Aborted), Inr (fx', k)}"
    "map message_of (fires_of fx') = map Some (take k (take j ms))"
    by (auto simp: take_map)
  then show ?thesis unfolding j by (auto simp: take_take)
qed

text \<open>
  The fires of the executor for what it receives, connection by connection: the readings of its
  handler and the bytes that arrive before the connection ends.
\<close>

definition executor_fires ::
    "(bytes \<Rightarrow> exc + jvalue) \<Rightarrow> (exc \<Rightarrow> string) \<Rightarrow> ((nat \<Rightarrow> frame_reading) \<times> bytes) list \<Rightarrow> (string \<rightharpoonup> jvalue) list" where
  "executor_fires loads exc_text received =
     concat (map (\<lambda>(rd, stream). fires_of (fst (handle_connection loads exc_text rd ([], 0) stream))) received)"

lemma subseq_concat:
  "list_all2 subseq xss yss \<Longrightarrow> subseq (concat xss) (concat yss)"
  by (induction rule: list_all2_induct) (auto intro: list_emb_append_mono)

lemma fires_of_connections:
  assumes "\<forall>m \<in> set (concat sent). loads (dumps (message_json m)) = Inr (message_json m) \<and>
      length (dumps (message_json m)) \<le> max_frame_bytes"
    and "written_as dumps sent wire"
    and "list_all2 (\<lambda>frames (rd, stream). prefix stream (concat frames)) wire received"
  shows "subseq (map message_of (executor_fires loads exc_text received)) (map Some (concat sent))"
  using assms(2,3,1) unfolding written_as_def
proof (induction sent wire arbitrary: received rule: list_all2_induct)
  case (Cons ms sent frames wire)
  then obtain rd stream received' where r: "received = (rd, stream) # received'" "prefix stream (concat frames)"
      "list_all2 (\<lambda>frames (rd, stream). prefix stream (concat frames)) wire received'"
    by (auto simp: list_all2_Cons1)
  obtain j where j: "map message_of (fires_of (fst (handle_connection loads exc_text rd ([], 0) stream))) = map Some (take j ms)"
    using connection_fires [where ms = ms and frames = frames and stream = stream and rd = rd and loads = loads
        and dumps = dumps and exc_text = exc_text] Cons.hyps(1) Cons.prems(2) r(2)
    by (auto simp: list_all_iff)
  have "subseq (map Some (take j ms)) (map Some ms)"
    by (intro subseq_map prefix_imp_subseq take_is_prefix)
  then show ?case using Cons.IH [OF r(3)] Cons.prems(2) j r(1)
    by (simp add: executor_fires_def list_emb_append_mono)
qed (simp add: executor_fires_def)

text \<open>
  What the executor fires, read connection by connection, is a selection of the wakes offered to the
  poller, in their order: no wake fires twice and nothing fires that was not offered.
\<close>

lemma fires_are_offered:
  assumes "client_run dumps loads n ms c"
    and "list_all2 (\<lambda>frames (rd, stream). prefix stream (concat frames)) (rev (cl_wire c)) received"
    and "\<forall>m \<in> set ms. loads (dumps (message_json m)) = Inr (message_json m) \<and>
      length (dumps (message_json m)) \<le> max_frame_bytes"
  shows "subseq (map message_of (executor_fires loads exc_text received)) (map Some ms)"
proof -
  obtain sent where s: "written_as dumps sent (cl_wire c)" "subseq (concat (rev sent) @ pc_queue (cl_poller c)) ms"
    using wire_inv_run [OF assms(1)] by (auto simp: wire_inv_def)
  have sub: "subseq (concat (rev sent)) ms"
    using s(2) by (meson prefixI prefix_imp_subseq subseq_order.order_trans)
  have "written_as dumps (rev sent) (rev (cl_wire c))" using s(1) by (simp add: written_as_def list_all2_rev)
  moreover have "\<forall>m \<in> set (concat (rev sent)). loads (dumps (message_json m)) = Inr (message_json m) \<and>
      length (dumps (message_json m)) \<le> max_frame_bytes"
  proof
    fix m
    assume "m \<in> set (concat (rev sent))"
    with sub obtain m' where "m' \<in> set ms" "m = m'" by (rule list_emb_set)
    then show "loads (dumps (message_json m)) = Inr (message_json m) \<and> length (dumps (message_json m)) \<le> max_frame_bytes"
      using assms(3) by blast
  qed
  ultimately have "subseq (map message_of (executor_fires loads exc_text received)) (map Some (concat (rev sent)))"
    by (metis fires_of_connections assms(2))
  then show ?thesis by (rule subseq_order.order_trans) (rule subseq_map [OF sub])
qed

section \<open>Witnesses\<close>

text \<open>A client that writes one wake, loses its connection in \<open>drain()\<close> and opens another.\<close>

definition sample_turn :: write_reading where "sample_turn = \<lparr>wr_drains = False, wr_ended_ms = 5, wr_now_ns = 9\<rparr>"

lemma sample_client:
  obtains c frame where "client_run (\<lambda>_. [7]) loads 4 [sample_message] c" "cl_wire c = [[], [framed [7]]]"
    "cl_rows c = []" "pc_queue (cl_poller c) = []" "pc_dropped (cl_poller c) = 0" "pc_dropped_shadow (cl_poller c) = 0"
proof -
  let ?run = "client_run (\<lambda>_. [7]) loads 4"
  have q: "pc_queue (snd (send_wake sample_message (new_poller 4))) = [sample_message]"
      "pc_dropped (snd (send_wake sample_message (new_poller 4))) = 0"
      "pc_dropped_shadow (snd (send_wake sample_message (new_poller 4))) = 0"
    by (simp_all add: send_wake_def new_poller_def wake_queue_full_def sample_message_def)
  have f: "encode_frame (\<lambda>_. [7]) (message_json sample_message) = Inr (framed [7])"
    by (simp add: encode_frame_def framed_def pack_u32_def)
  define c1 where "c1 = (new_poller_client 4)\<lparr>cl_poller := snd (send_wake sample_message (cl_poller (new_poller_client 4)))\<rparr>"
  have r1: "?run [sample_message] c1"
    using client_run.offers [OF client_run.fresh, of "\<lambda>_. [7]" loads 4 sample_message] by (simp add: c1_def)
  define c2 where "c2 = c1\<lparr>cl_poller := poller_start (cl_poller c1), cl_phase := Waiting initial_backoff\<rparr>"
  have r2: "?run [sample_message] c2" unfolding c2_def
    by (rule client_run.runs [OF r1 client_step.started]) (simp add: c1_def new_poller_client_def)
  define c3 where "c3 = c2\<lparr>cl_wire := [] # cl_wire c2, cl_phase := Online\<rparr>"
  have r3: "?run [sample_message] c3" unfolding c3_def
    by (rule client_run.runs [OF r2 client_step.connected]) (simp add: c2_def)
  have q3: "pc_queue (cl_poller c3) = [sample_message]" using q by (simp add: c3_def c2_def c1_def new_poller_client_def)
  have t: "write_loop (\<lambda>_. [7]) [sample_turn] (cl_poller c3) =
      ([SentFrame (framed [7])], (cl_poller c3)\<lparr>pc_queue := []\<rparr>, WriterFailed)"
    using f q3 by (simp add: sample_turn_def)
  define c4 where "c4 = turn_done [SentFrame (framed [7])] ((cl_poller c3)\<lparr>pc_queue := []\<rparr>) c3\<lparr>cl_phase := Waiting initial_backoff\<rparr>"
  have r4: "?run [sample_message] c4" unfolding c4_def
    by (rule client_run.runs [OF r3 client_step.send_failed [OF _ t]]) (simp add: c3_def)
  define c5 where "c5 = c4\<lparr>cl_wire := [] # cl_wire c4, cl_phase := Online\<rparr>"
  have r5: "?run [sample_message] c5" unfolding c5_def
    by (rule client_run.runs [OF r4 client_step.connected]) (simp add: c4_def)
  show ?thesis
    by (rule that [OF r5])
      (use q in \<open>simp_all add: c5_def c4_def c3_def c2_def c1_def turn_done_def new_poller_client_def poller_start_def\<close>)
qed

theorem broken_connections_lose_one_wake_each_witness:
  "\<exists>c. client_run (\<lambda>_. [7]) (\<lambda>_. Inl ValueError) 4 [sample_message] c \<and> cl_rows c = [] \<and> pc_queue (cl_poller c) = [] \<and>
    (\<exists>lost \<le> 2. lost = (1 :: nat))"
proof -
  obtain c where c: "client_run (\<lambda>_. [7]) (\<lambda>_. Inl ValueError) 4 [sample_message] c" "cl_wire c = [[], [framed [7]]]"
    "cl_rows c = []" "pc_queue (cl_poller c) = []" "pc_dropped (cl_poller c) = 0" "pc_dropped_shadow (cl_poller c) = 0"
    by (rule sample_client)
  from broken_connections_lose_one_wake_each [OF c(1)] show ?thesis using c by auto
qed

end
