(* ===== verification/Order_Sizing.thy ===== *)
theory Order_Sizing
  imports Prelude
begin

text \<open>
  How the executor decides on what exactly to send: the Kelly stake of
  \<open>execution/position_sizing.py\<close>, the order template of \<open>execution/prebuilt_orders.py\<close>, and from
  \<open>ipc/executor_server.py\<close> the snapping of a price to the market's grid and its four-decimal text.
\<close>

section \<open>Position sizing\<close>

record balance_cache =
  balance_dollars :: pyfloat
  updated_at_ms :: ms

definition empty_balance :: balance_cache where
  "empty_balance = \<lparr>balance_dollars = 0, updated_at_ms = 0\<rparr>"

definition size_position ::
    "pyfloat \<Rightarrow> pyfloat \<Rightarrow> pyfloat \<Rightarrow> pyfloat \<Rightarrow> pyfloat \<Rightarrow> int \<Rightarrow> int" where
  "size_position edge kalshi_price balance kelly_fraction max_pct min_count =
     (if \<not> (0 < kalshi_price \<and> kalshi_price < 1) \<or> balance \<le> 0 then min_count
      else
        let full_kelly_fraction = fdiv (max 0 edge) (fsub 1 kalshi_price);
            stake_fraction = min (fmul full_kelly_fraction (max 0 kelly_fraction)) max_pct;
            stake_dollars = fmul stake_fraction balance;
            count = py_int (fdiv stake_dollars kalshi_price)
        in max count min_count)"

text \<open>A float strictly between 0 and 1 leaves a positive complement.\<close>

lemma fsub_one_pos:
  assumes "is_f64 p" "0 < p" "p < 1"
  shows "0 < fsub 1 p"
proof -
  have "0 \<le> fsub 1 p" using assms(3) by (simp add: fsub_def f64.rd_nonneg)
  moreover have "fsub 1 p \<noteq> 0"
  proof
    assume z: "fsub 1 p = 0"
    show False
    proof (cases "p \<le> 1 / 2")
      case True
      then have "rnd (1 / 2) \<le> rnd (1 - p)" by (intro rnd_mono) simp
      moreover have "rnd (1 / 2) = 1 / 2" using rnd_dyadic [of 1 "- 1"] by (simp add: power_int_minus)
      ultimately show False using z by (simp add: fsub_def)
    next
      case False
      define e where "e = ulp_exp p"
      define m where "m = round_even (p * 2 powi (- e))"
      have p: "p = of_int m * 2 powi e"
        using assms by (simp add: is_f64_def rnd_def Let_def m_def e_def)
      have "ilog2 p \<le> -1" using assms(2,3) ilog2_less [of p 0] by simp
      moreover have "-1 \<le> ilog2 p"
        using False assms(2) ilog2_ge [of p "- 1"] by (simp add: power_int_minus)
      ultimately have e: "e = - 53" using assms(2) by (simp add: e_def ulp_exp_def)
      have powi_53: "(2 :: rat) powi (- 53) = 1 / 2 ^ 53" by (simp add: power_int_minus)
      have "p = of_int m / 2 ^ 53" using p unfolding e powi_53 by simp
      then have one_p: "1 - p = of_int (2 ^ 53 - m) * 2 powi (- 53)"
        using \<open>p = of_int m / 2 ^ 53\<close> powi_53 by (simp only:) (simp add: diff_divide_distrib)
      have "(of_int m :: rat) < of_int (2 ^ 53)" using assms(3) \<open>p = of_int m / 2 ^ 53\<close> by simp
      then have "m < 2 ^ 53" by (simp only: of_int_less_iff)
      moreover have "0 \<le> m" unfolding m_def using assms(2) by (intro round_even_bounds(1)) simp
      moreover have "m \<noteq> 0" using p assms(2) by auto
      ultimately have "rnd (1 - p) = 1 - p" unfolding one_p by (intro rnd_dyadic) auto
      then show False using z assms(3) by (simp add: fsub_def)
    qed
  qed
  ultimately show ?thesis by simp
qed

text \<open>
  The stake is never below the floor, and above it the count is at most the quotient of the capped
  share of the balance by the price.
\<close>



text \<open>The size of a real fire does not decrease when the edge, the Kelly fraction or the balance
  grows.\<close>
theorem size_position_mono:
  assumes "is_f64 p" "edge \<le> edge'" "kelly \<le> kelly'" "balance \<le> balance'" "0 \<le> max_pct"
  shows "size_position edge p balance kelly max_pct n \<le> size_position edge' p balance' kelly' max_pct n"
proof (cases "\<not> (0 < p \<and> p < 1) \<or> balance \<le> 0")
  case True
  then show ?thesis by (auto simp: size_position_def Let_def)
next
  case False
  then have p: "0 < p" "p < 1" and b: "0 < balance" "0 < balance'" using assms(4) by auto
  let ?k = "\<lambda>e k. fmul (fdiv (max 0 e) (fsub 1 p)) (max 0 k)"
  have c: "0 < fsub 1 p" using assms(1) p by (rule fsub_one_pos)
  have "fdiv (max 0 edge) (fsub 1 p) \<le> fdiv (max 0 edge') (fsub 1 p)"
    using c assms(2) by (auto simp: fdiv_def intro!: f64.rd_divide_mono)
  moreover have pos: "0 \<le> fdiv (max 0 edge) (fsub 1 p)"
    using c by (simp add: fdiv_def f64.rd_divide_nonneg)
  ultimately have k: "0 \<le> ?k edge kelly" "?k edge kelly \<le> ?k edge' kelly'"
    using assms(3) by (auto simp: fmul_def intro!: rnd_nonneg rnd_mono mult_mono)
  then have "fmul (min (?k edge kelly) max_pct) balance \<le> fmul (min (?k edge' kelly') max_pct) balance'"
    using assms(4,5) b by (auto simp: fmul_def min_le_iff_disj intro!: rnd_mono mult_mono min.mono)
  then have "py_int (fdiv (fmul (min (?k edge kelly) max_pct) balance) p) \<le>
      py_int (fdiv (fmul (min (?k edge' kelly') max_pct) balance') p)"
    using p by (auto simp: fdiv_def intro!: py_int_mono f64.rd_divide_mono)
  then show ?thesis using p b by (simp add: size_position_def Let_def le_max_iff_disj) linarith
qed

theorem size_position_mono_witness:
  "size_position (1 / 8) (1 / 2) 500 (1 / 4) (1 / 8) 1 \<le> size_position (1 / 4) (1 / 2) 1000 (1 / 2) (1 / 8) 1"
proof -
  have "is_f64 (1 / 2)" by code_simp
  then show ?thesis by (rule size_position_mono) simp_all
qed

section \<open>Order templates\<close>

record order_template =
  tpl_ticker :: ticker
  tpl_outcome_side :: string

definition build_template :: "ticker \<Rightarrow> string \<Rightarrow> exc + order_template" where
  "build_template t outcome_side =
     (if outcome_side \<notin> {''yes'', ''no''} then Inl ValueError
      else Inr \<lparr>tpl_ticker = t, tpl_outcome_side = outcome_side\<rparr>)"

section \<open>The price grid\<close>

text \<open>
  \<open>_snap_to_grid\<close>. The ranges are decoded from the wire as lists of floats; the loop unpacks one
  range at a time and raises on one that is not a triple.
\<close>

fun snap_to_grid :: "pyfloat \<Rightarrow> pyfloat list list \<Rightarrow> exc + pyfloat" where
  "snap_to_grid price [] = Inr (fmul (float_of (round_even (fdiv price (lit 1 100)))) (lit 1 100))"
| "snap_to_grid price ([first, stop, step] # ranges) =
     (if 0 < step \<and> first \<le> price \<and> price \<le> stop
      then Inr (fmul (float_of (round_even (fdiv price step))) step)
      else snap_to_grid price ranges)"
| "snap_to_grid price (_ # ranges) = Inl ValueError"

text \<open>
  A price on a decimal grid is sent as its own text: the artifacts of the division and the
  multiplication never reach the fourth decimal.
\<close>

lemma rnd_rel_error:
  assumes "2 powi (- 1022) \<le> \<bar>x\<bar>"
  shows "\<bar>rnd x - x\<bar> \<le> \<bar>x\<bar> / 2 ^ 53"
proof -
  have pos: "0 < \<bar>x\<bar>" using assms powi_pos [of "- 1022"] by linarith
  then have x0: "x \<noteq> 0" by simp
  define e where "e = ulp_exp x"
  have "- 1022 \<le> ilog2 \<bar>x\<bar>" using pos assms by (rule ilog2_ge)
  then have e: "e = ilog2 \<bar>x\<bar> - 52" by (simp add: e_def ulp_exp_def)
  have "rnd x - x = (of_int (round_even (x * 2 powi (- e))) - x * 2 powi (- e)) * 2 powi e"
    using x0 by (simp add: rnd_def Let_def e_def left_diff_distrib mult.assoc powi_cancel)
  then have "\<bar>rnd x - x\<bar> = \<bar>of_int (round_even (x * 2 powi (- e))) - x * 2 powi (- e)\<bar> * 2 powi e"
    by (simp add: abs_mult)
  also have "\<dots> \<le> 1 / 2 * 2 powi e"
    by (intro mult_right_mono round_even_error) simp
  also have "\<dots> = 2 powi (ilog2 \<bar>x\<bar>) / 2 ^ 53"
    by (simp add: e power_int_diff)
  also have "\<dots> \<le> \<bar>x\<bar> / 2 ^ 53"
    using ilog2_bounds [OF pos] by (intro divide_right_mono) auto
  finally show ?thesis .
qed

lemma round_even_near: "\<bar>x - of_int n\<bar> < 1 / 2 \<Longrightarrow> round_even x = n"
proof -
  assume a: "\<bar>x - of_int n\<bar> < 1 / 2"
  show ?thesis
  proof (cases "of_int n \<le> x")
    case True
    then have "\<lfloor>x\<rfloor> = n" using a by linarith
    then show ?thesis using a True by (simp add: round_even_def Let_def)
  next
    case False
    then have "\<lfloor>x\<rfloor> = n - 1" using a by linarith
    then show ?thesis using a False by (simp add: round_even_def Let_def)
  qed
qed

lemma small_normal: "0 < k \<Longrightarrow> 0 < d \<Longrightarrow> d \<le> 10000 \<Longrightarrow> 2 powi (- 1022) \<le> \<bar>of_int k / of_int d :: rat\<bar>"
proof -
  assume "0 < k" "0 < d" "d \<le> 10000"
  then have "1 / 10000 \<le> (of_int k / of_int d :: rat)"
    by (intro frac_le) (auto simp flip: of_int_le_iff)
  moreover have "2 powi (- 1022) \<le> (2 powi (- 14) :: rat)" by (rule powi_le_mono) simp
  moreover have "(2 :: rat) powi (- 14) \<le> 1 / 10000" by (simp add: power_int_minus)
  ultimately show ?thesis by linarith
qed

text \<open>The relative error of a rounded value, and how it passes through a quotient and a product.\<close>

lemma rnd_factor:
  assumes "2 powi (- 1022) \<le> x"
  shows "\<exists>a. rnd x = x * (1 + a) \<and> \<bar>a\<bar> \<le> 1 / 2 ^ 53"
proof -
  have x: "0 < x" using assms powi_pos [of "- 1022"] by linarith
  define a where "a = rnd x / x - 1"
  have "rnd x = x * (1 + a)" using x by (simp add: a_def)
  moreover have "\<bar>a\<bar> * x = \<bar>rnd x - x\<bar>" using x by (simp add: a_def field_simps flip: abs_mult_pos)
  then have "\<bar>a\<bar> * x \<le> 1 / 2 ^ 53 * x" using rnd_rel_error [of x] assms x by simp
  then have "\<bar>a\<bar> \<le> 1 / 2 ^ 53" using x by (simp only: mult_le_cancel_right_pos)
  ultimately show ?thesis by blast
qed

lemma ratio_near_1:
  fixes a b :: rat
  assumes "\<bar>a\<bar> \<le> 1 / 2 ^ 53" "\<bar>b\<bar> \<le> 1 / 2 ^ 53"
  shows "\<bar>(1 + a) / (1 + b) - 1\<bar> \<le> 3 / 2 ^ 53"
proof -
  have b: "1 / 2 < 1 + b" using assms(2) by simp
  have "(1 + a) / (1 + b) - 1 = (a - b) / (1 + b)" using b by (simp add: field_simps)
  moreover have "a - b \<le> 3 / 2 ^ 53 * (1 + b)" "b - a \<le> 3 / 2 ^ 53 * (1 + b)"
    using assms by (simp_all add: abs_le_iff)
  then have "\<bar>a - b\<bar> \<le> 3 / 2 ^ 53 * (1 + b)" by (intro abs_leI) linarith+
  then have "\<bar>a - b\<bar> / (1 + b) \<le> 3 / 2 ^ 53" using b by (simp only: pos_divide_le_eq)
  ultimately show ?thesis using b by (simp only: abs_divide)
qed

lemma abs_product_minus_1:
  fixes r c :: rat
  assumes "0 \<le> r"
  shows "\<bar>r * (1 + c) - 1\<bar> \<le> \<bar>r - 1\<bar> + r * \<bar>c\<bar>"
proof -
  have "r * (1 + c) - 1 = (r - 1) + r * c" by (simp add: algebra_simps)
  moreover have "\<bar>r * c\<bar> = r * \<bar>c\<bar>" using assms by (simp add: abs_mult)
  ultimately show ?thesis using abs_triangle_ineq [of "r - 1" "r * c"] by simp
qed

lemma ring_factor: "x * y * z - x * z = x * z * (y - 1)" for x y z :: rat
  by (simp add: algebra_simps)

lemma on_grid:
  assumes "0 < d" "d dvd 10000"
  shows "(of_int k / of_int d :: rat) * 10000 = of_int (k * (10000 div d))"
proof -
  obtain m where m: "10000 = d * m" using assms(2) by (elim dvdE)
  then have "10000 div d = m" using assms(1) by (metis nonzero_mult_div_cancel_left order_less_irrefl)
  moreover have "(10000 :: rat) = of_int d * of_int m" using m by (metis of_int_mult of_int_numeral)
  moreover have "of_int k / of_int d * (of_int d * of_int m) = (of_int (k * m) :: rat)"
    using assms(1) by simp
  ultimately show ?thesis by simp
qed

lemma snap_quotient:
  assumes "0 < k" "k < d" "d \<le> 10000"
  shows "round_even (fdiv (lit k d) (lit 1 d)) = k"
proof -
  define K where "K = (of_int k :: rat)"
  define D where "D = (of_int d :: rat)"
  have K: "1 \<le> K" "K < 10000" "K < D" using assms by (simp_all add: K_def D_def)
  obtain a where a: "lit k d = K / D * (1 + a)" "\<bar>a\<bar> \<le> 1 / 2 ^ 53"
    using rnd_factor [of "K / D"] small_normal [of k d] assms K
    unfolding lit_def K_def D_def by auto
  obtain b where b: "lit 1 d = 1 / D * (1 + b)" "\<bar>b\<bar> \<le> 1 / 2 ^ 53"
    using rnd_factor [of "1 / D"] small_normal [of 1 d] assms K
    unfolding lit_def K_def D_def by auto
  have b1: "1 + b \<noteq> 0" using b(2) by auto
  define r where "r = (1 + a) / (1 + b)"
  have r: "\<bar>r - 1\<bar> \<le> 3 / 2 ^ 53" unfolding r_def using a(2) b(2) by (rule ratio_near_1)
  have q: "lit k d / lit 1 d = K * r" using K b1 by (simp add: a b r_def)
  have r2: "1 / 2 \<le> r" "r \<le> 3 / 2" using abs_le_D1 [OF r] abs_le_D2 [OF r] by simp_all
  have "1 * (1 / 2) \<le> K * r" using K r2 by (intro mult_mono) auto
  moreover have "2 powi (- 1022) \<le> (2 powi (- 1) :: rat)" by (rule powi_le_mono) simp
  ultimately have "2 powi (- 1022) \<le> K * r" by (simp add: power_int_minus)
  then obtain c where c: "rnd (K * r) = K * r * (1 + c)" "\<bar>c\<bar> \<le> 1 / 2 ^ 53"
    using rnd_factor by blast
  have "\<bar>r * (1 + c) - 1\<bar> \<le> \<bar>r - 1\<bar> + r * \<bar>c\<bar>"
    using r2 by (intro abs_product_minus_1) simp
  also have "\<dots> \<le> 3 / 2 ^ 53 + 3 / 2 * (1 / 2 ^ 53)"
    using r r2 c(2) by (intro add_mono mult_mono) auto
  finally have e: "\<bar>r * (1 + c) - 1\<bar> \<le> 1 / 40000" by simp
  have "\<bar>rnd (K * r) - K\<bar> = K * \<bar>r * (1 + c) - 1\<bar>"
    using K(1) unfolding c(1) by (simp add: abs_mult_pos' algebra_simps flip: abs_mult)
  also have "\<dots> \<le> K * (1 / 40000)" using e K(1) by (intro mult_left_mono) auto
  also have "\<dots> < 1 / 2" using K(2) by simp
  finally show ?thesis unfolding fdiv_def q by (intro round_even_near) (simp add: K_def)
qed

lemma snap_product:
  assumes "0 < k" "k < d" "d dvd 10000"
  shows "round_even (\<bar>fmul (of_int k) (lit 1 d)\<bar> * 10000) = k * (10000 div d)"
proof -
  define K where "K = (of_int k :: rat)"
  define D where "D = (of_int d :: rat)"
  have d: "0 < d" "d \<le> 10000" using assms by (auto dest: zdvd_imp_le)
  have K: "1 \<le> K" "K < D" using assms by (simp_all add: K_def D_def)
  obtain b where b: "lit 1 d = 1 / D * (1 + b)" "\<bar>b\<bar> \<le> 1 / 2 ^ 53"
    using rnd_factor [of "1 / D"] small_normal [of 1 d] d K
    unfolding lit_def D_def by auto
  have b2: "1 / 2 \<le> 1 + b" "1 + b \<le> 3 / 2" using b(2) by (simp_all add: abs_le_iff)
  have kd: "1 / 10000 \<le> K / D" using K d by (intro frac_le) (simp_all add: D_def)
  have ks: "K * lit 1 d = K / D * (1 + b)" by (simp add: b)
  have "1 / 10000 * (1 / 2) \<le> K / D * (1 + b)" using kd b2 K by (intro mult_mono) auto
  moreover have "2 powi (- 1022) \<le> (2 powi (- 15) :: rat)" by (rule powi_le_mono) simp
  moreover have "(2 :: rat) powi (- 15) \<le> 1 / 10000 * (1 / 2)" by (simp add: power_int_minus)
  ultimately have "2 powi (- 1022) \<le> K / D * (1 + b)" by linarith
  then obtain c where c: "rnd (K / D * (1 + b)) = K / D * (1 + b) * (1 + c)" "\<bar>c\<bar> \<le> 1 / 2 ^ 53"
    using rnd_factor by blast
  have c2: "1 / 2 \<le> 1 + c" using c(2) by (simp add: abs_le_iff)
  have "\<bar>(1 + b) * (1 + c) - 1\<bar> \<le> \<bar>b\<bar> + (1 + b) * \<bar>c\<bar>"
    using b2 abs_product_minus_1 [of "1 + b" c] by simp
  also have "\<dots> \<le> 1 / 2 ^ 53 + 3 / 2 * (1 / 2 ^ 53)"
    using b(2) b2 c(2) by (intro add_mono mult_mono) auto
  finally have e: "\<bar>(1 + b) * (1 + c) - 1\<bar> \<le> 1 / 40000" by simp
  have n: "K / D * 10000 = of_int (k * (10000 div d))"
    using on_grid [OF d(1) assms(3)] by (simp only: K_def D_def)
  have pos: "0 \<le> K / D * ((1 + b) * (1 + c))" using K b2 c2 by simp
  have "K / D * ((1 + b) * (1 + c)) * 10000 - K / D * 10000 = K / D * 10000 * ((1 + b) * (1 + c) - 1)"
    by (rule ring_factor)
  then have "\<bar>K / D * ((1 + b) * (1 + c)) * 10000 - K / D * 10000\<bar> =
      K / D * 10000 * \<bar>(1 + b) * (1 + c) - 1\<bar>" using K by (simp only: abs_mult) simp
  also have "\<dots> \<le> 1 * 10000 * (1 / 40000)" using e K by (intro mult_mono) auto
  finally have "\<bar>K / D * ((1 + b) * (1 + c)) * 10000 - of_int (k * (10000 div d))\<bar> < 1 / 2"
    unfolding n by simp
  moreover have "\<bar>fmul (of_int k) (lit 1 d)\<bar> = K / D * ((1 + b) * (1 + c))"
    unfolding fmul_def K_def [symmetric] ks c(1) mult.assoc by (rule abs_of_nonneg [OF pos])
  ultimately show ?thesis by (intro round_even_near) (simp only:)
qed

text \<open>A price on a decimal grid whose step divides a dollar into d parts, d dividing 10000, is
  snapped to a float whose four-decimal text is that of the price: binary rounding never reaches
  the wire.\<close>
theorem snap_keeps_grid_prices:
  assumes "0 < k" "k < d" "d dvd 10000"
  shows "\<exists>x. snap_to_grid (lit k d) [[0, 1, lit 1 d]] = Inr x \<and>
    fixed4 x = fixed4 (of_int k / of_int d)"
proof -
  have d: "0 < d" "d \<le> 10000" using assms by (auto dest: zdvd_imp_le)
  have "(of_int k / of_int d :: rat) \<le> of_int 1" "0 \<le> (of_int k / of_int d :: rat)"
    using assms d by simp_all
  then have le: "lit k d \<le> 1" "0 \<le> lit k d"
    unfolding lit_def using f64.rd_le_int [of _ 1] rnd_nonneg by auto
  have "0 < lit 1 d"
    using rnd_factor [of "1 / of_int d"] small_normal [of 1 d] d by (auto simp: lit_def abs_le_iff)
  then have snap: "snap_to_grid (lit k d) [[0, 1, lit 1 d]] = Inr (fmul (of_int k) (lit 1 d))"
    using le assms d snap_quotient [of k d] by (simp add: float_of_exact)
  have n: "(of_int k / of_int d :: rat) * 10000 = of_int (k * (10000 div d))"
    using d(1) assms(3) by (rule on_grid)
  have "0 \<le> fmul (of_int k) (lit 1 d)" using assms \<open>0 < lit 1 d\<close> by (simp add: fmul_def rnd_nonneg)
  moreover have "0 \<le> (of_int k / of_int d :: rat)" using assms d by simp
  moreover have "round_even (\<bar>of_int k / of_int d\<bar> * 10000) = k * (10000 div d)"
    unfolding abs_of_nonneg [OF calculation(2)] n by (rule round_even_of_int)
  ultimately have "fixed4 (fmul (of_int k) (lit 1 d)) = fixed4 (of_int k / of_int d)"
    unfolding fixed4_def Let_def snap_product [OF assms] by simp
  then show ?thesis using snap by blast
qed

theorem snap_keeps_grid_prices_witness:
  "\<exists>x. snap_to_grid (lit 57 100) [[0, 1, lit 1 100]] = Inr x \<and> fixed4 x = ''0.5700''"
proof -
  have "fixed4 (of_int 57 / of_int 100) = ''0.5700''" by code_simp
  then show ?thesis using snap_keeps_grid_prices [of 57 100] by simp
qed

text \<open>
  A price inside the open interval can leave it: four tenths of a cent snaps to nothing at all.
\<close>

abbreviation cent_grid :: "pyfloat list list" where
  "cent_grid \<equiv> [[0, 1, lit 1 100]]"

text \<open>Snapping can leave the open unit interval the executor has checked before it: on the cent
  grid 0.004 becomes 0 and 0.996 becomes 1.\<close>
theorem snap_can_leave_the_interval:
  "(0 :: pyfloat) < lit 4 1000 \<and> snap_to_grid (lit 4 1000) cent_grid = Inr 0 \<and>
   lit 996 1000 < 1 \<and> snap_to_grid (lit 996 1000) cent_grid = Inr 1"
  by code_simp

end
