(* ===== verification/Order_Dispatch.thy ===== *)
theory Order_Dispatch
  imports Order_Sizing
begin

text \<open>
  \<open>execution/order_dispatcher.py\<close>. A dispatch is one asynchronous call with one suspension point,
  the POST. It is modelled as the segment before it, which builds the request and the pending audit
  row, and the segment after it, which resolves the row from whatever the POST did. What the code
  hands to \<open>TelemetryDB\<close> is returned as the list of calls, in order; the rows are the dictionaries
  of the code, maps from column names to SQL values.
\<close>

section \<open>Responses\<close>

type_synonym response = "string \<rightharpoonup> json"

text \<open>\<open>response.get(key)\<close>, with \<open>None\<close> for an absent key.\<close>

definition resp_get :: "response \<Rightarrow> string \<Rightarrow> json" where
  "resp_get r k = get_default r k JNull"

definition fixed_point_str :: "json \<Rightarrow> string option" where
  "fixed_point_str v = (case v of JNull \<Rightarrow> None | JStr s \<Rightarrow> Some s | _ \<Rightarrow> Some (json_text v))"

definition fixed_point_float :: "json \<Rightarrow> pyfloat option" where
  "fixed_point_float v = (case v of JNull \<Rightarrow> None | _ \<Rightarrow> float_of_json v)"

definition sql_text :: "string option \<Rightarrow> sqlval" where
  "sql_text t = (case t of None \<Rightarrow> SNull | Some s \<Rightarrow> SText s)"

text \<open>
  An exception of the transport: the \<open>status\<close> attribute, if it has one, and \<open>str(exc)\<close>. A
  cancelled task raises \<open>CancelledError\<close>, which \<open>except Exception\<close> does not catch.
\<close>

record error =
  err_status :: "int option"
  err_text :: string

datatype outcome = Returned response | Raised error | Cancelled

datatype time_in_force = FillOrKill | GoodTillCanceled | ImmediateOrCancel

definition tif_text :: "time_in_force \<Rightarrow> string" where
  "tif_text t = (case t of FillOrKill \<Rightarrow> ''fill_or_kill''
     | GoodTillCanceled \<Rightarrow> ''good_till_canceled'' | ImmediateOrCancel \<Rightarrow> ''immediate_or_cancel'')"

datatype order_status = Pending | Submitted | Accepted | Filled | Canceled | Errored

definition status_text :: "order_status \<Rightarrow> string" where
  "status_text s = (case s of Pending \<Rightarrow> ''pending'' | Submitted \<Rightarrow> ''submitted''
     | Accepted \<Rightarrow> ''accepted'' | Filled \<Rightarrow> ''filled'' | Canceled \<Rightarrow> ''canceled'' | Errored \<Rightarrow> ''error'')"

definition resolve_post_only :: "time_in_force \<Rightarrow> bool option \<Rightarrow> bool" where
  "resolve_post_only tif post_only =
     (case post_only of Some b \<Rightarrow> b | None \<Rightarrow> tif = GoodTillCanceled)"

definition resolved_status :: "response \<Rightarrow> time_in_force \<Rightarrow> order_status" where
  "resolved_status r tif =
     (case fixed_point_float (resp_get r ''fill_count'') of
        None \<Rightarrow> Submitted
      | Some fill_count \<Rightarrow>
          if 0 < fill_count then Filled
          else if tif = GoodTillCanceled then Accepted else Canceled)"

text \<open>\<open>needle in text\<close>.\<close>

fun contains :: "string \<Rightarrow> string \<Rightarrow> bool" where
  "contains needle [] \<longleftrightarrow> needle = []"
| "contains needle (c # cs) \<longleftrightarrow> take (length needle) (c # cs) = needle \<or> contains needle cs"

definition is_post_only_rejection :: "error \<Rightarrow> bool" where
  "is_post_only_rejection e \<longleftrightarrow> err_status e = Some 400 \<and> contains ''invalid_order'' (err_text e)"

section \<open>Dispatch\<close>

record order_body =
  body_ticker :: ticker
  body_client_order_id :: string
  body_side :: string
  body_count :: string
  body_price :: string
  body_time_in_force :: time_in_force
  body_stp_type :: string
  body_post_only :: bool
  body_exchange_index :: int

record dispatch_args =
  da_template :: order_template
  da_count :: int
  da_price_dollars :: string
  da_time_in_force :: time_in_force
  da_stp_type :: string
  da_post_only :: "bool option"
  da_exchange_index :: int
  da_client_order_id :: "string option"
  da_correlation_id :: "string option"
  da_correlation_group :: string
  da_dry_run :: bool

text \<open>The two calls into \<open>TelemetryDB\<close>: \<open>record_order_fired(row, blocking=...)\<close> and \<open>record_order_resolution(row)\<close>.\<close>

datatype telemetry_call = OrderFired sqlrow bool | OrderResolution sqlrow

text \<open>\<open>x or uuid4().hex\<close>: an absent or empty identifier is replaced by the minted one.\<close>

definition or_minted :: "string option \<Rightarrow> string \<Rightarrow> string" where
  "or_minted x minted = (case x of None \<Rightarrow> minted | Some s \<Rightarrow> if s = [] then minted else s)"

definition order_body_of :: "dispatch_args \<Rightarrow> string \<Rightarrow> order_body" where
  "order_body_of a client_id =
     \<lparr>body_ticker = tpl_ticker (da_template a),
      body_client_order_id = client_id,
      body_side = (if tpl_outcome_side (da_template a) = ''yes'' then ''bid'' else ''ask''),
      body_count = int_text (da_count a) @ ''.00'',
      body_price = da_price_dollars a,
      body_time_in_force = da_time_in_force a,
      body_stp_type = da_stp_type a,
      body_post_only = resolve_post_only (da_time_in_force a) (da_post_only a),
      body_exchange_index = da_exchange_index a\<rparr>"

definition pending_row :: "dispatch_args \<Rightarrow> string \<Rightarrow> string \<Rightarrow> ms \<Rightarrow> sqlrow" where
  "pending_row a client_id corr_id requested_at = map_of
     [(''correlation_id'', SText corr_id),
      (''client_order_id'', SText client_id),
      (''kalshi_order_id'', SNull),
      (''ticker'', SText (tpl_ticker (da_template a))),
      (''correlation_group'',
         if da_correlation_group a = [] then SNull else SText (da_correlation_group a)),
      (''outcome_side'', SText (tpl_outcome_side (da_template a))),
      (''count'', SText (int_text (da_count a) @ ''.00'')),
      (''price_dollars'', SText (da_price_dollars a)),
      (''time_in_force'', SText (tif_text (da_time_in_force a))),
      (''self_trade_prevention_type'', SText (da_stp_type a)),
      (''post_only'', SInt (if resolve_post_only (da_time_in_force a) (da_post_only a) then 1 else 0)),
      (''status'', SText (status_text Pending)),
      (''error_message'', SNull),
      (''fill_count'', SNull),
      (''remaining_count'', SNull),
      (''average_fill_price'', SNull),
      (''average_fee_paid'', SNull),
      (''requested_at_ms'', SInt requested_at),
      (''submitted_at_ms'', SNull),
      (''acknowledged_at_ms'', SNull)]"

record in_dispatch =
  fl_args :: dispatch_args
  fl_body :: order_body
  fl_row :: sqlrow
  fl_submitted_at :: ms

text \<open>\<open>permit_orders\<close>, the guard of tests and fakes: it returns.\<close>

definition permit_orders :: "exc option" where "permit_orders = None"

text \<open>
  Up to the await. \<open>permitted\<close> is what the order guard does: \<open>None\<close> when it returns, the exception
  when it raises. The minted identifiers and the two clock readings are arguments.
\<close>

definition dispatch_begin ::
    "exc option \<Rightarrow> string \<times> string \<Rightarrow> ms \<times> ms \<Rightarrow> dispatch_args \<Rightarrow>
     exc + in_dispatch \<times> telemetry_call list" where
  "dispatch_begin permitted minted clock a =
     (case permitted of
        Some e \<Rightarrow> Inl e
      | None \<Rightarrow>
          (let client_id = or_minted (da_client_order_id a) (fst minted);
               corr_id = or_minted (da_correlation_id a) (snd minted);
               row = pending_row a client_id corr_id (fst clock)
           in Inr (\<lparr>fl_args = a, fl_body = order_body_of a client_id, fl_row = row,
                    fl_submitted_at = snd clock\<rparr>,
                   if da_dry_run a then [] else [OrderFired row False])))"

text \<open>\<open>{**row, ...}\<close>: the pending row with the resolved columns written over it.\<close>

definition resolution_row :: "in_dispatch \<Rightarrow> response \<Rightarrow> order_status \<Rightarrow> string option \<Rightarrow> ms \<Rightarrow> sqlrow" where
  "resolution_row d r status error_message acknowledged =
     fl_row d ++ map_of
       [(''kalshi_order_id'', sql_of_json (resp_get r ''order_id'')),
        (''status'', SText (status_text status)),
        (''error_message'', sql_text error_message),
        (''fill_count'', sql_text (fixed_point_str (resp_get r ''fill_count''))),
        (''remaining_count'', sql_text (fixed_point_str (resp_get r ''remaining_count''))),
        (''average_fill_price'', sql_text (fixed_point_str (resp_get r ''average_fill_price''))),
        (''average_fee_paid'', sql_text (fixed_point_str (resp_get r ''average_fee_paid''))),
        (''submitted_at_ms'', SInt (fl_submitted_at d)),
        (''acknowledged_at_ms'', if status = Errored then SNull else SInt acknowledged)]"

text \<open>From the await on: the outcome is passed on unchanged, after the \<open>finally\<close> block.\<close>

definition dispatch_end :: "in_dispatch \<Rightarrow> outcome \<Rightarrow> ms \<Rightarrow> outcome \<times> telemetry_call list" where
  "dispatch_end d res acknowledged =
     (let (r, status, msg) =
            (case res of
               Returned r \<Rightarrow> (r, resolved_status r (da_time_in_force (fl_args d)), None)
             | Raised e \<Rightarrow> (Map.empty, Errored, Some (err_text e))
             | Cancelled \<Rightarrow> (Map.empty, Errored, None))
      in (res,
          if da_dry_run (fl_args d) then []
          else [OrderResolution (resolution_row d r status msg acknowledged)]))"

text \<open>
  The whole call, with the POST as a parameter: what it does for this body and the dry-run flag.
\<close>

definition dispatch ::
    "exc option \<Rightarrow> string \<times> string \<Rightarrow> ms \<times> ms \<Rightarrow> (order_body \<Rightarrow> bool \<Rightarrow> outcome) \<Rightarrow> ms \<Rightarrow>
     dispatch_args \<Rightarrow> exc + outcome \<times> telemetry_call list" where
  "dispatch permitted minted clock post acknowledged a =
     (case dispatch_begin permitted minted clock a of
        Inl e \<Rightarrow> Inl e
      | Inr (d, before) \<Rightarrow>
          (let (res, after) = dispatch_end d (post (fl_body d) (da_dry_run a)) acknowledged
           in Inr (res, before @ after)))"

section \<open>Cancel and decrease\<close>

text \<open>The requests they build; the guard comes first in one and after the argument check in the other.\<close>

record rest_call =
  rc_method :: string
  rc_path :: string
  rc_params :: "(string \<times> string) list"
  rc_body :: "(string \<times> json) list option"

definition orders_path :: string where
  "orders_path = ''/portfolio/events/orders''"

definition cancel :: "exc option \<Rightarrow> string \<Rightarrow> int \<Rightarrow> exc + rest_call" where
  "cancel permitted order_id exchange_index =
     (case permitted of
        Some e \<Rightarrow> Inl e
      | None \<Rightarrow> Inr \<lparr>rc_method = ''DELETE'', rc_path = orders_path @ ''/'' @ order_id,
                      rc_params = [(''exchange_index'', int_text exchange_index)], rc_body = None\<rparr>)"

definition decrease ::
    "exc option \<Rightarrow> string \<Rightarrow> int option \<Rightarrow> int option \<Rightarrow> int \<Rightarrow> exc + rest_call" where
  "decrease permitted order_id reduce_to reduce_by exchange_index =
     (if (reduce_to = None) = (reduce_by = None) then Inl ValueError
      else case permitted of
        Some e \<Rightarrow> Inl e
      | None \<Rightarrow>
          Inr \<lparr>rc_method = ''POST'', rc_path = orders_path @ ''/'' @ order_id @ ''/decrease'',
               rc_params = [],
               rc_body = Some ((''exchange_index'', JInt exchange_index) #
                 (case reduce_to of
                    Some n \<Rightarrow> [(''reduce_to'', JStr (int_text n @ ''.00''))]
                  | None \<Rightarrow> [(''reduce_by'', JStr (int_text (the reduce_by) @ ''.00''))]))\<rparr>)"

section \<open>The audit trail of a dispatch\<close>

definition outcome_status :: "time_in_force \<Rightarrow> outcome \<Rightarrow> order_status" where
  "outcome_status tif res = (case res of Returned r \<Rightarrow> resolved_status r tif | _ \<Rightarrow> Errored)"

text \<open>The columns only the resolution knows.\<close>

definition resolved_columns :: "string set" where
  "resolved_columns =
     {''kalshi_order_id'', ''status'', ''error_message'', ''fill_count'', ''remaining_count'',
      ''average_fill_price'', ''average_fee_paid'', ''submitted_at_ms'', ''acknowledged_at_ms''}"

lemma resolution_row_same:
  "c \<notin> resolved_columns \<Longrightarrow> resolution_row d r status msg ack c = fl_row d c"
  by (auto simp: resolution_row_def resolved_columns_def map_add_def split: option.splits)

lemma resolution_row_status [simp]:
  "resolution_row d r status msg ack ''status'' = Some (SText (status_text status))"
  by (simp add: resolution_row_def map_add_def)

lemma resolution_row_fill [simp]:
  "resolution_row d r status msg ack ''fill_count'' =
     Some (sql_text (fixed_point_str (resp_get r ''fill_count'')))"
  by (simp add: resolution_row_def map_add_def)

lemma pending_row_simps [simp]:
  "pending_row a cid corr req ''client_order_id'' = Some (SText cid)"
  "pending_row a cid corr req ''status'' = Some (SText ''pending'')"
  by (simp_all add: pending_row_def status_text_def)

lemma status_text_inj: "status_text s = status_text s' \<Longrightarrow> s = s'"
  by (cases s; cases s') (simp_all add: status_text_def)

lemma order_body_of_dry [simp]: "order_body_of (a\<lparr>da_dry_run := b\<rparr>) cid = order_body_of a cid"
  by (simp add: order_body_of_def)

lemma dispatch_total: "\<exists>res calls. dispatch None minted clock post ack a = Inr (res, calls)"
  by (auto simp: dispatch_def dispatch_begin_def Let_def split_def)

text \<open>
  A real dispatch that the guard permits writes exactly two rows, in this order: the pending row,
  enqueued without blocking before the request exists, and its resolution. Both carry the client
  order id under which the order was sent, they agree on every column the outcome does not decide,
  and the resolution is never pending.
\<close>

text \<open>C13. A real dispatch that the guard permits writes exactly two rows, in this order: the pending
  row, enqueued without blocking, and its resolution. Both carry the client order id under which
  the order was sent, they agree on every column the outcome does not decide, and the resolution
  has the status of the outcome and is never pending.\<close>
theorem dispatch_audit_trail:
  assumes "\<not> da_dry_run a" "dispatch None minted clock post ack a = Inr (res, calls)"
  shows "\<exists>sent pend resol.
    sent = order_body_of a (or_minted (da_client_order_id a) (fst minted)) \<and> res = post sent False \<and>
    calls = [OrderFired pend False, OrderResolution resol] \<and>
    pend ''client_order_id'' = Some (SText (body_client_order_id sent)) \<and>
    pend ''status'' = Some (SText ''pending'') \<and>
    resol ''status'' = Some (SText (status_text (outcome_status (da_time_in_force a) res))) \<and>
    outcome_status (da_time_in_force a) res \<noteq> Pending \<and>
    (\<forall>c. c \<notin> resolved_columns \<longrightarrow> resol c = pend c)"
proof -
  define cid where "cid = or_minted (da_client_order_id a) (fst minted)"
  define pend where "pend = pending_row a cid (or_minted (da_correlation_id a) (snd minted)) (fst clock)"
  define sent where "sent = order_body_of a cid"
  define d where "d = \<lparr>fl_args = a, fl_body = sent, fl_row = pend, fl_submitted_at = snd clock\<rparr>"
  have first: "dispatch_begin None minted clock a = Inr (d, [OrderFired pend False])"
    using assms(1) by (simp add: dispatch_begin_def d_def pend_def sent_def cid_def Let_def)
  obtain r msg where end_: "dispatch_end d (post sent False) ack =
      (post sent False, [OrderResolution
        (resolution_row d r (outcome_status (da_time_in_force a) (post sent False)) msg ack)])"
    using assms(1) by (cases "post sent False") (auto simp: dispatch_end_def d_def outcome_status_def)
  have res: "res = post sent False" and calls: "calls = [OrderFired pend False, OrderResolution
      (resolution_row d r (outcome_status (da_time_in_force a) res) msg ack)]"
    using assms end_ by (auto simp: dispatch_def first d_def)
  have "outcome_status (da_time_in_force a) res \<noteq> Pending"
    by (auto simp: outcome_status_def resolved_status_def split: outcome.splits option.splits)
  moreover define resol where
    "resol = resolution_row d r (outcome_status (da_time_in_force a) res) msg ack"
  have "calls = [OrderFired pend False, OrderResolution resol]" by (simp add: calls resol_def)
  moreover have "resol ''status'' = Some (SText (status_text (outcome_status (da_time_in_force a) res)))"
    by (simp add: resol_def)
  moreover have "\<forall>c. c \<notin> resolved_columns \<longrightarrow> resol c = pend c"
    by (simp add: resol_def resolution_row_same d_def)
  moreover have "pend ''client_order_id'' = Some (SText (body_client_order_id sent))"
      "pend ''status'' = Some (SText ''pending'')"
    by (simp_all add: pend_def sent_def order_body_of_def)
  ultimately show ?thesis using res sent_def cid_def by blast
qed

definition sample_args :: "bool \<Rightarrow> dispatch_args" where
  "sample_args dry =
     \<lparr>da_template = \<lparr>tpl_ticker = ''BTC-26-T1'', tpl_outcome_side = ''yes''\<rparr>, da_count = 2,
      da_price_dollars = ''0.5600'', da_time_in_force = FillOrKill, da_stp_type = ''taker_at_cross'',
      da_post_only = None, da_exchange_index = 0, da_client_order_id = None, da_correlation_id = None,
      da_correlation_group = [], da_dry_run = dry\<rparr>"

lemma sample_args_simps:
  "da_time_in_force (sample_args b) = FillOrKill" "da_client_order_id (sample_args b) = None"
  "da_dry_run (sample_args b) = b"
  by (simp_all add: sample_args_def)

theorem dispatch_audit_trail_witness:
  "\<exists>pend resol. snd (projr (dispatch None (''k1'', ''c1'') (10, 11)
       (\<lambda>_ _. Returned [''fill_count'' \<mapsto> JStr ''2.00'']) 12 (sample_args False))) =
     [OrderFired pend False, OrderResolution resol] \<and>
     pend ''client_order_id'' = Some (SText ''k1'') \<and> resol ''client_order_id'' = Some (SText ''k1'') \<and>
     resol ''status'' = Some (SText ''filled'')"
proof -
  let ?post = "\<lambda>_ _. Returned [''fill_count'' \<mapsto> JStr ''2.00'']"
  obtain res calls where d: "dispatch None (''k1'', ''c1'') (10, 11) ?post 12 (sample_args False) = Inr (res, calls)"
    using dispatch_total by blast
  have "float_of_text ''2.00'' = Some 2" by code_simp
  then have s: "outcome_status FillOrKill (Returned [''fill_count'' \<mapsto> JStr ''2.00'']) = Filled"
    by (simp add: outcome_status_def resolved_status_def resp_get_def fixed_point_float_def)
  have c: "''client_order_id'' \<notin> resolved_columns" by (simp add: resolved_columns_def)
  obtain pend resol where "res = Returned [''fill_count'' \<mapsto> JStr ''2.00'']"
      "calls = [OrderFired pend False, OrderResolution resol]"
      "pend ''client_order_id'' = Some (SText ''k1'')"
      "resol ''status'' = Some (SText (status_text (outcome_status FillOrKill res)))"
      "\<forall>c. c \<notin> resolved_columns \<longrightarrow> resol c = pend c"
    using dispatch_audit_trail [OF _ d]
    by (auto simp: sample_args_simps order_body_of_def or_minted_def)
  then show ?thesis using s c by (simp add: d status_text_def)
qed

text \<open>
  A refused dispatch has no effect at all, and a shadow fire leaves no row: neither mints anything
  the audit trail would have to explain.
\<close>

text \<open>A dispatch the order guard refuses raises the guard's exception and has no other effect,
  and a shadow fire runs the POST in dry-run mode and writes no row.\<close>
theorem dispatch_without_trace:
  "dispatch (Some e) minted clock post ack a = Inl e \<and>
   dispatch None minted clock post ack (a\<lparr>da_dry_run := True\<rparr>) =
     Inr (post (order_body_of a (or_minted (da_client_order_id a) (fst minted))) True, [])"
  by (simp add: dispatch_def dispatch_begin_def dispatch_end_def Let_def split: outcome.split)

text \<open>
  What the recorded status claims: \<open>filled\<close> only on a positive fill count, a resting status only for
  a resting order, a kill only for an order that cannot rest, and nothing beyond \<open>submitted\<close> when
  the response says nothing.
\<close>

theorem resolved_status_sound:
  "(resolved_status r tif = Filled \<longleftrightarrow> (\<exists>x. fixed_point_float (resp_get r ''fill_count'') = Some x \<and> 0 < x)) \<and>
   (resolved_status r tif = Submitted \<longleftrightarrow> fixed_point_float (resp_get r ''fill_count'') = None) \<and>
   (resolved_status r GoodTillCanceled \<noteq> Canceled) \<and>
   (resolved_status r FillOrKill \<noteq> Accepted) \<and> resolved_status r ImmediateOrCancel \<noteq> Accepted"
  by (auto simp: resolved_status_def split: option.splits)

end
