(* ===== verification/Kill_Switch.thy ===== *)
theory Kill_Switch
  imports Prelude
begin

text \<open>
  \<open>runtime/killswitch.py\<close>: the operator's stop, a file whose existence halts new dispatch, read
  through a short cache. The file is part of the state, as \<open>None\<close> when absent and its text
  otherwise; the directory above it and failures of the filesystem other than absence are not
  modelled. Operations read the monotonic clock once, as an argument.
\<close>

record kill_switch =
  ttl_seconds :: pyfloat
  cached :: "bool option"
  checked_at_ns :: ns

type_synonym switch_file = "string option"

definition new_switch :: "pyfloat \<Rightarrow> kill_switch" where
  "new_switch ttl = \<lparr>ttl_seconds = ttl, cached = None, checked_at_ns = 0\<rparr>"

definition is_engaged :: "ns \<Rightarrow> switch_file \<Rightarrow> kill_switch \<Rightarrow> bool \<times> kill_switch" where
  "is_engaged now disk ks =
     (case cached ks of
        Some b \<Rightarrow>
          if of_int (now - checked_at_ns ks) < fmul (ttl_seconds ks) 1000000000 then (b, ks)
          else (disk \<noteq> None, ks\<lparr>cached := Some (disk \<noteq> None), checked_at_ns := now\<rparr>)
      | None \<Rightarrow> (disk \<noteq> None, ks\<lparr>cached := Some (disk \<noteq> None), checked_at_ns := now\<rparr>))"

definition invalidate :: "kill_switch \<Rightarrow> kill_switch" where
  "invalidate ks = ks\<lparr>cached := None, checked_at_ns := 0\<rparr>"

definition engage :: "string \<Rightarrow> kill_switch \<Rightarrow> switch_file \<times> kill_switch" where
  "engage reason ks = (Some (reason @ [CHR 0x0A]), invalidate ks)"

definition kill_release :: "kill_switch \<Rightarrow> switch_file \<times> kill_switch" where
  "kill_release ks = (None, invalidate ks)"

text \<open>\<open>read_text()\<close> opens in text mode, which reads every line ending as a newline.\<close>

fun universal_newlines :: "string \<Rightarrow> string" where
  "universal_newlines [] = []"
| "universal_newlines (c # cs) =
     (if c = CHR 0x0D then
        CHR 0x0A # (case cs of [] \<Rightarrow> []
          | d # ds \<Rightarrow> if d = CHR 0x0A then universal_newlines ds else universal_newlines cs)
      else c # universal_newlines cs)"

definition reason_of :: "switch_file \<Rightarrow> string option" where
  "reason_of disk = map_option (strip \<circ> universal_newlines) disk"

section \<open>The command line\<close>

fun join_blank :: "string list \<Rightarrow> string" where
  "join_blank [] = []"
| "join_blank [w] = w"
| "join_blank (w # ws) = w @ '' '' @ join_blank ws"

definition no_reason :: string where
  "no_reason = ''engaged via scripts/killswitch.py, no reason given''"

text \<open>\<open>run_cli\<close>: the exit code and the state it leaves; what it prints is left out.\<close>

definition run_cli ::
    "string list \<Rightarrow> ns \<Rightarrow> switch_file \<Rightarrow> kill_switch \<Rightarrow> int \<times> switch_file \<times> kill_switch" where
  "run_cli argv now disk ks =
     (case argv of
        [] \<Rightarrow> (1, disk, ks)
      | command # args \<Rightarrow>
          if command = ''engage'' then
            (let r = strip (join_blank args); reason = (if r = [] then no_reason else r)
             in (0, engage reason ks))
          else if command = ''release'' then
            (let (_, ks1) = is_engaged now disk ks in (0, kill_release ks1))
          else if command = ''status'' then
            (let (b, ks1) = is_engaged now disk ks in (if b then 2 else 0, disk, ks1))
          else (1, disk, ks))"

section \<open>Staleness\<close>

text \<open>
  Runs of one switch object beside a file that others may create and remove at any time.
  \<open>since\<close> is the time from which the file has been continuously present or continuously absent.
\<close>

inductive kill_run :: "kill_switch \<Rightarrow> switch_file \<Rightarrow> ns \<Rightarrow> ns \<Rightarrow> bool" where
  start: "0 \<le> t \<Longrightarrow> kill_run (new_switch ttl) disk t t"
| asked: "kill_run ks disk since t \<Longrightarrow> t \<le> now \<Longrightarrow> kill_run (snd (is_engaged now disk ks)) disk since now"
| changed: "kill_run ks disk since t \<Longrightarrow> t \<le> now \<Longrightarrow>
     kill_run ks disk' (if (disk' = None) = (disk = None) then since else now) now"
| engaged: "kill_run ks disk since t \<Longrightarrow> t \<le> now \<Longrightarrow> engage reason ks = (disk', ks') \<Longrightarrow>
     kill_run ks' disk' (if disk = None then now else since) now"
| released: "kill_run ks disk since t \<Longrightarrow> t \<le> now \<Longrightarrow> kill_release ks = (disk', ks') \<Longrightarrow>
     kill_run ks' disk' (if disk = None then since else now) now"

lemma kill_run_inv:
  "kill_run ks disk since t \<Longrightarrow>
     since \<le> t \<and> checked_at_ns ks \<le> t \<and>
     (\<forall>b. cached ks = Some b \<longrightarrow> b \<noteq> (disk \<noteq> None) \<longrightarrow> checked_at_ns ks \<le> since)"
proof (induction rule: kill_run.induct)
  case (start t ttl disk)
  then show ?case by (simp add: new_switch_def)
next
  case (asked ks disk since t now)
  then show ?case by (auto simp: is_engaged_def split: option.splits)
next
  case (changed ks disk since t now disk')
  show ?case
  proof (cases "(disk' = None) = (disk = None)")
    case True
    then show ?thesis using changed by auto
  next
    case False
    then show ?thesis using changed by simp
  qed
next
  case (engaged ks disk since t now reason disk' ks')
  have "0 \<le> t" using engaged.hyps(1) by (induction rule: kill_run.induct) auto
  then show ?case using engaged by (auto simp: engage_def invalidate_def)
next
  case (released ks disk since t now disk' ks')
  have "0 \<le> t" using released.hyps(1) by (induction rule: kill_run.induct) auto
  then show ?case using released by (auto simp: kill_release_def invalidate_def)
qed

text \<open>
  Once the file has been there (or gone) for the cache's lifetime, every check tells the truth.
\<close>

text \<open>C28. Once the kill-switch file has been there, or gone, for the lifetime of the cache, every
  check tells the truth, in every run of checks, engagements, releases and outside changes.\<close>
theorem kill_switch_staleness:
  assumes "kill_run ks disk since t" "t \<le> now"
    and "fmul (ttl_seconds ks) 1000000000 \<le> of_int (now - since)"
  shows "fst (is_engaged now disk ks) = (disk \<noteq> None)"
proof (cases "cached ks")
  case None
  then show ?thesis by (simp add: is_engaged_def)
next
  case (Some b)
  show ?thesis
  proof (cases "b = (disk \<noteq> None)")
    case True
    then show ?thesis using Some by (simp add: is_engaged_def)
  next
    case False
    then have "checked_at_ns ks \<le> since" using kill_run_inv [OF assms(1)] Some by blast
    then have "(of_int (now - since) :: rat) \<le> of_int (now - checked_at_ns ks)" by simp
    then have "\<not> of_int (now - checked_at_ns ks) < fmul (ttl_seconds ks) 1000000000"
      using assms(3) by linarith
    then show ?thesis using Some by (simp add: is_engaged_def)
  qed
qed

lemma rnd_billion: "rnd 1000000000 = 1000000000"
  using rnd_of_int [of 1000000000] by simp

theorem kill_switch_staleness_witness:
  "fst (is_engaged 3000000000 (Some ''halt'') \<lparr>ttl_seconds = 1, cached = Some False, checked_at_ns = 500\<rparr>)"
proof -
  have r0: "kill_run (new_switch 1) None 0 0" by (rule kill_run.start) simp
  have r1: "kill_run \<lparr>ttl_seconds = 1, cached = Some False, checked_at_ns = 500\<rparr> None 0 500"
    using kill_run.asked [OF r0, of 500] by (simp add: is_engaged_def new_switch_def)
  have r2: "kill_run \<lparr>ttl_seconds = 1, cached = Some False, checked_at_ns = 500\<rparr> (Some ''halt'') 1000 1000"
    using kill_run.changed [OF r1, of 1000 "Some ''halt''"] by simp
  show ?thesis using kill_switch_staleness [OF r2, of 3000000000]
    by (simp add: fmul_def rnd_billion)
qed

text \<open>
  The process that engages or releases the switch sees it at once, whatever it had cached, and the
  operator's status command agrees; the reason it finds is the one that was given.
\<close>

lemma universal_newlines_id: "CHR 0x0D \<notin> set s \<Longrightarrow> universal_newlines s = s"
  by (induction s) auto

lemma strip_snoc: "is_space c \<Longrightarrow> s \<noteq> [] \<Longrightarrow> \<not> is_space (hd s) \<Longrightarrow> strip (s @ [c]) = strip s"
  by (cases s) (simp_all add: strip_def)

theorem engage_is_immediate:
  "fst (is_engaged now (fst (engage reason ks)) (snd (engage reason ks))) \<and>
   \<not> fst (is_engaged now (fst (kill_release ks)) (snd (kill_release ks))) \<and>
   fst (run_cli [''status''] now (fst (engage reason ks)) (snd (engage reason ks))) = 2 \<and>
   fst (run_cli [''status''] now (fst (kill_release ks)) (snd (kill_release ks))) = 0"
  by (simp add: is_engaged_def engage_def kill_release_def invalidate_def run_cli_def)

lemma dropWhile_hd_id: "xs \<noteq> [] \<Longrightarrow> \<not> P (hd xs) \<Longrightarrow> dropWhile P xs = xs"
  by (cases xs) simp_all

theorem engage_reason_roundtrip:
  assumes "reason \<noteq> []" "\<not> is_space (hd reason)" "\<not> is_space (last reason)" "CHR 0x0D \<notin> set reason"
  shows "reason_of (fst (engage reason ks)) = Some reason"
proof -
  have nl: "is_space (CHR 0x0A)" by (simp add: is_space_def)
  have "strip reason = reason"
    using assms(1-3) by (simp add: strip_def dropWhile_hd_id hd_rev)
  then have "strip (reason @ [CHR 0x0A]) = reason"
    using strip_snoc [OF nl assms(1,2)] by simp
  moreover have "universal_newlines (reason @ [CHR 0x0A]) = reason @ [CHR 0x0A]"
    using assms(4) by (intro universal_newlines_id) simp
  ultimately show ?thesis by (simp add: reason_of_def engage_def)
qed

theorem engage_reason_roundtrip_witness:
  "reason_of (fst (engage ''stop it'' (new_switch 1))) = Some ''stop it''"
  by (rule engage_reason_roundtrip) (simp_all add: is_space_def)

end
