(* ===== verification/Executor_Fire.thy ===== *)
theory Executor_Fire
  imports Executor_Connection Risk_Invariants Order_Dispatch Kill_Switch
begin

text \<open>
  \<open>ExecutorServer._handle_fire\<close> and the rows it writes. A fire is one task with one suspension point,
  the dispatch: \<open>fire_begin\<close> is everything up to it, \<open>fire_end\<close> everything from it on. The messages
  of refusals are datatypes; their formatting (\<open>:g\<close> and the gate's texts) is a parameter. The state is
  the executor's own: its gate, its kill switch and its cached balance, each of which may be absent.
\<close>

record executor =
  ex_count :: int
  ex_time_in_force :: time_in_force
  ex_stp_type :: string
  ex_kelly_fraction :: pyfloat
  ex_max_position_pct :: pyfloat
  ex_clock_domain :: string
  ex_gate :: "gate option"
  ex_switch :: "kill_switch option"
  ex_balance :: "balance_cache option"

definition default_kelly_fraction :: pyfloat where "default_kelly_fraction = lit 15 100"
definition default_max_position_pct :: pyfloat where "default_max_position_pct = lit 2 100"

text \<open>
  What the part before the suspension reads from outside: clocks, the kill-switch file, the
  identifiers minted, and whether the order guard permits the order.
\<close>

record fire_reading =
  rd_switch_ns :: ns
  rd_switch_file :: switch_file
  rd_check_ms :: ms
  rd_record_ms :: ms
  rd_rejected_ms :: ms
  rd_rejected_id :: string
  rd_build_ns :: "ns \<times> ns"
  rd_permitted :: "exc option"
  rd_minted :: "string \<times> string"
  rd_dispatch_ms :: "ms \<times> ms"
  rd_timings_ms :: ms

datatype refusal = ThinBook pyfloat | Halted string | Gated rejection

record refusal_format =
  fmt_general :: "pyfloat \<Rightarrow> string"
  fmt_rejection :: "rejection \<Rightarrow> string"

definition refusal_text :: "refusal_format \<Rightarrow> refusal \<Rightarrow> string" where
  "refusal_text fmt r =
     (case r of
        ThinBook resting \<Rightarrow> ''insufficient resting volume: '' @ fmt_general fmt resting @ '' contracts at the level''
      | Halted reason \<Rightarrow> ''kill switch engaged: '' @ reason
      | Gated rej \<Rightarrow> ''risk gate: '' @ fmt_rejection fmt rej)"

text \<open>\<open>_record_rejected\<close>: the row, handed to \<open>record_order_fired\<close> on a pool thread.\<close>

definition rejected_row :: "executor \<Rightarrow> wake_message \<Rightarrow> int \<Rightarrow> pyfloat \<Rightarrow> string \<Rightarrow> string \<Rightarrow> ms \<Rightarrow> sqlrow" where
  "rejected_row e m count price reason minted now = map_of
     [(''correlation_id'', SText (correlation_id m)),
      (''client_order_id'', SText minted),
      (''kalshi_order_id'', SNull),
      (''ticker'', SText (market_ticker m)),
      (''correlation_group'', if correlation_group m = [] then SNull else SText (correlation_group m)),
      (''outcome_side'', SText (direction m)),
      (''count'', SText (int_text count @ ''.00'')),
      (''price_dollars'', SText (fixed4 price)),
      (''time_in_force'', SText (tif_text (ex_time_in_force e))),
      (''self_trade_prevention_type'', SText (ex_stp_type e)),
      (''status'', SText ''rejected''),
      (''error_message'', SText reason),
      (''requested_at_ms'', SInt now),
      (''submitted_at_ms'', SNull),
      (''acknowledged_at_ms'', SNull)]"

section \<open>The timing rows\<close>

definition stage_row :: "wake_message \<Rightarrow> ms \<Rightarrow> string \<Rightarrow> pyfloat \<Rightarrow> sqlrow" where
  "stage_row m ended stage duration =
     latency_row (SText (correlation_id m)) stage (ended - py_int duration) ended duration (dry_run_metadata (dry_run m))"

definition stage_rows :: "wake_message \<Rightarrow> ms \<Rightarrow> (string \<times> pyfloat option) list \<Rightarrow> sqlrow list" where
  "stage_rows m ended spans =
     concat (map (\<lambda>(stage, span_of). case span_of of None \<Rightarrow> [] | Some x \<Rightarrow> [stage_row m ended stage x]) spans)"

text \<open>\<open>_record_request_timings\<close> at wall time \<open>ended\<close>.\<close>

definition record_request_timings ::
    "string \<Rightarrow> wake_message \<Rightarrow> request_timings \<Rightarrow> pyfloat option \<Rightarrow> ms \<Rightarrow> sqlrow list" where
  "record_request_timings domain m t build_ms ended =
     stage_rows m ended
       [(''order_build'', build_ms), (''sign'', sign_ms t), (''dispatch_send'', dispatch_send_ms t),
        (''dispatch_ack'', dispatch_ack_ms t)] @
     (if sent_ns t = 0 \<or> \<not> is_clock_comparable_to m domain then []
      else [stage_row m ended ''detect_fire'' (millis (sent_ns t - recv_ns m))])"

section \<open>Up to the dispatch\<close>

datatype exec_call = OrderCall telemetry_call | LatencyCall sqlrow

record flight =
  fg_message :: wake_message
  fg_count :: int
  fg_price :: pyfloat
  fg_gated :: bool
  fg_build_ms :: "pyfloat option"
  fg_dispatch :: in_dispatch

text \<open>
  How a fire leaves its first segment: dropped for its wire price, dead from an exception before the
  \<open>try\<close>, refused with a row, ended by an exception inside the \<open>try\<close>, or waiting for the POST.
\<close>

datatype fire_start =
    Untradeable
  | Crashed exc
  | Refused refusal
  | Unsent exc
  | Waiting flight

definition request_of :: "wake_message \<Rightarrow> int \<Rightarrow> pyfloat \<Rightarrow> order_request" where
  "request_of m count price =
     \<lparr>rq_ticker = market_ticker m, rq_direction = direction m, rq_exchange_index = exchange_index m,
      rq_count = count, rq_price_dollars = price, rq_group = correlation_group m\<rparr>"

text \<open>The count of a fire, capped to the resting size the wake reported.\<close>

definition fire_count :: "executor \<Rightarrow> wake_message \<Rightarrow> int" where
  "fire_count e m =
     (if dry_run m then ex_count e
      else
        let count = size_position (edge m) (kalshi_price m)
              (case ex_balance e of None \<Rightarrow> 0 | Some b \<Rightarrow> balance_dollars b)
              (ex_kelly_fraction e) (ex_max_position_pct e) (ex_count e)
        in if 0 < available_size_contracts m then min count (py_int (available_size_contracts m)) else count)"

text \<open>The kill switch: engaged or not, through its cache, and the reason in the file.\<close>

definition consult_switch :: "fire_reading \<Rightarrow> executor \<Rightarrow> bool \<times> executor" where
  "consult_switch rd e =
     (case ex_switch e of
        None \<Rightarrow> (False, e)
      | Some ks \<Rightarrow>
          (let (engaged, ks') = is_engaged (rd_switch_ns rd) (rd_switch_file rd) ks
           in (engaged, e\<lparr>ex_switch := Some ks'\<rparr>)))"

definition halt_reason :: "fire_reading \<Rightarrow> string" where
  "halt_reason rd =
     (case reason_of (rd_switch_file rd) of
        None \<Rightarrow> ''(no reason recorded)'' | Some r \<Rightarrow> if r = [] then ''(no reason recorded)'' else r)"

text \<open>The gate: a rejection, or the attempt recorded and, with \<open>begin_dispatch\<close>, counted in flight.\<close>

definition consult_gate :: "fire_reading \<Rightarrow> order_request \<Rightarrow> executor \<Rightarrow> rejection option \<times> executor" where
  "consult_gate rd rq e =
     (case ex_gate e of
        None \<Rightarrow> (None, e)
      | Some g \<Rightarrow>
          (case check rq (rd_check_ms rd) g of
             (Some r, g') \<Rightarrow> (Some r, e\<lparr>ex_gate := Some g'\<rparr>)
           | (None, g') \<Rightarrow> (None, e\<lparr>ex_gate := Some (begin_dispatch (record_attempt rq (rd_record_ms rd) g'))\<rparr>)))"

definition settle_gate :: "bool \<Rightarrow> executor \<Rightarrow> executor" where
  "settle_gate gated e = (if gated then e\<lparr>ex_gate := map_option end_dispatch (ex_gate e)\<rparr> else e)"

definition dispatch_args_of :: "executor \<Rightarrow> wake_message \<Rightarrow> order_template \<Rightarrow> int \<Rightarrow> pyfloat \<Rightarrow> dispatch_args" where
  "dispatch_args_of e m t count price =
     \<lparr>da_template = t, da_count = count, da_price_dollars = fixed4 price, da_time_in_force = ex_time_in_force e,
      da_stp_type = ex_stp_type e, da_post_only = None, da_exchange_index = exchange_index m,
      da_client_order_id = None, da_correlation_id = Some (correlation_id m),
      da_correlation_group = correlation_group m, da_dry_run = dry_run m\<rparr>"

text \<open>The body of the \<open>try\<close> up to the await, and, when it raises there, the \<open>finally\<close>.\<close>

definition launch ::
    "fire_reading \<Rightarrow> wake_message \<Rightarrow> int \<Rightarrow> pyfloat \<Rightarrow> executor \<Rightarrow> fire_start \<times> executor \<times> exec_call list" where
  "launch rd m count price e =
     (let gated = (ex_gate e \<noteq> None \<and> \<not> dry_run m);
          timing_calls = (\<lambda>build. map LatencyCall
            (record_request_timings (ex_clock_domain e) m new_timings build (rd_timings_ms rd)))
      in case build_template (market_ticker m) (direction m) of
           Inl x \<Rightarrow> (Unsent x, settle_gate gated e, timing_calls None)
         | Inr t \<Rightarrow>
             (let build = Some (millis (snd (rd_build_ns rd) - fst (rd_build_ns rd)))
              in case dispatch_begin (rd_permitted rd) (rd_minted rd) (rd_dispatch_ms rd)
                        (dispatch_args_of e m t count price) of
                   Inl x \<Rightarrow> (Unsent x, settle_gate gated e, timing_calls build)
                 | Inr (d, calls) \<Rightarrow>
                     (Waiting \<lparr>fg_message = m, fg_count = count, fg_price = price, fg_gated = gated,
                        fg_build_ms = build, fg_dispatch = d\<rparr>, e, map OrderCall calls)))"

definition refuse ::
    "refusal_format \<Rightarrow> fire_reading \<Rightarrow> wake_message \<Rightarrow> int \<Rightarrow> pyfloat \<Rightarrow> refusal \<Rightarrow> executor \<Rightarrow>
     fire_start \<times> executor \<times> exec_call list" where
  "refuse fmt rd m count price r e =
     (Refused r, e, [OrderCall (OrderFired (rejected_row e m count price (refusal_text fmt r)
        (rd_rejected_id rd) (rd_rejected_ms rd)) True)])"

definition fire_begin ::
    "refusal_format \<Rightarrow> fire_reading \<Rightarrow> wake_message \<Rightarrow> executor \<Rightarrow> fire_start \<times> executor \<times> exec_call list" where
  "fire_begin fmt rd m e =
     (if \<not> dry_run m \<and> \<not> (0 < wire_price_yes_dollars m \<and> wire_price_yes_dollars m < 1) then (Untradeable, e, [])
      else case snap_to_grid (wire_price_yes_dollars m) (price_ranges m) of
        Inl x \<Rightarrow> (Crashed x, e, [])
      | Inr price \<Rightarrow>
          (let count = fire_count e m
           in if dry_run m then launch rd m count price e
              else if count < 1
                then refuse fmt rd m (ex_count e) price (ThinBook (available_size_contracts m)) e
              else case consult_switch rd e of
                (True, e1) \<Rightarrow> refuse fmt rd m count price (Halted (halt_reason rd)) e1
              | (False, e1) \<Rightarrow>
                  (case consult_gate rd (request_of m count price) e1 of
                     (Some rej, e2) \<Rightarrow> refuse fmt rd m count price (Gated rej) e2
                   | (None, e2) \<Rightarrow> launch rd m count price e2)))"

section \<open>From the dispatch on\<close>

record end_reading =
  er_acknowledged_ms :: ms
  er_fill_ms :: ms
  er_timings_ms :: ms

text \<open>\<open>float(response.get("fill_count", 0) or 0)\<close>, zero where \<open>float\<close> raises.\<close>

definition response_fill :: "response \<Rightarrow> pyfloat" where
  "response_fill r =
     (let v = get_default r ''fill_count'' (JInt 0)
      in if v \<in> {JNull, JBool False, JInt 0, JFloat 0, JStr []} then 0
         else (case float_of_json v of None \<Rightarrow> 0 | Some x \<Rightarrow> x))"

text \<open>The last component says whether the task ends in \<open>CancelledError\<close>; every other exception is logged.\<close>

definition fire_end ::
    "end_reading \<Rightarrow> flight \<Rightarrow> outcome \<Rightarrow> request_timings \<Rightarrow> executor \<Rightarrow> executor \<times> exec_call list \<times> bool" where
  "fire_end er f res t e =
     (let (res', calls) = dispatch_end (fg_dispatch f) res (er_acknowledged_ms er);
          e1 = (case res' of
                  Returned r \<Rightarrow>
                    if fg_gated f then e\<lparr>ex_gate := map_option
                      (record_fill (market_ticker (fg_message f)) (response_fill r) (er_fill_ms er)) (ex_gate e)\<rparr> else e
                | _ \<Rightarrow> e);
          e2 = settle_gate (fg_gated f) e1
      in (e2,
          map OrderCall calls @ map LatencyCall
            (record_request_timings (ex_clock_domain e) (fg_message f) t (fg_build_ms f) (er_timings_ms er)),
          res' = Cancelled))"

end
