(* ===== verification/Telemetry_Queue.thy ===== *)
theory Telemetry_Queue
  imports Telemetry_Audit Order_Dispatch
begin

text \<open>
  The thread side of \<open>telemetry/db.py\<close> and \<open>telemetry/heartbeat.py\<close>: the bounded queue between the
  callers and the writer thread, what happens when it is full, and the writer's loop. A queue entry
  is a job or the shutdown sentinel \<open>None\<close>. Every queue operation is atomic, as \<open>queue.Queue\<close> makes
  it; a blocking \<open>put\<close> is two steps, the attempt and what the two-second wait ended with.
\<close>

definition max_queue_size :: nat where "max_queue_size = 10000"
definition max_batch_size :: nat where "max_batch_size = 500"

definition undroppable_tables :: "string list" where
  "undroppable_tables = [''orders_fired'', order_resolution_job, ''fills'']"

definition latency_stages :: "string list" where
  "latency_stages =
     [''detect_fire'', ''ingest_fetch'', ''decision'', ''wake_send'', ''wake_recv'', ''order_build'',
      ''sign'', ''dispatch_send'', ''dispatch_ack'', ''telemetry_write'']"

record telemetry =
  job_queue :: "write_job option list"
  writer_running :: bool
  dropped :: nat
  last_drop_warning :: pyfloat
  telemetry_started_at :: ms

definition new_telemetry :: "ms \<Rightarrow> telemetry" where
  "new_telemetry now =
     \<lparr>job_queue = [], writer_running = False, dropped = 0, last_drop_warning = 0, telemetry_started_at = now\<rparr>"

text \<open>The thread start at the end of \<open>initialize\<close>.\<close>

definition start_writer :: "telemetry \<Rightarrow> telemetry" where
  "start_writer td = td\<lparr>writer_running := True\<rparr>"

section \<open>Enqueueing\<close>

text \<open>\<open>_record_drop\<close> at monotonic time \<open>now\<close>; the flag says whether it logs its warning.\<close>

definition record_drop :: "pyfloat \<Rightarrow> telemetry \<Rightarrow> bool \<times> telemetry" where
  "record_drop now td =
     (let warn = (10 \<le> fsub now (last_drop_warning td))
      in (warn, td\<lparr>dropped := dropped td + 1,
                  last_drop_warning := (if warn then now else last_drop_warning td)\<rparr>))"

text \<open>
  What \<open>_enqueue\<close> came to: the row is in the queue, it is lost, the caller waits for space, or the
  database was never initialized.
\<close>

datatype enqueue_result = Queued telemetry | Lost telemetry | Waits | NotInitialized

definition queue_full :: "telemetry \<Rightarrow> bool" where
  "queue_full td \<longleftrightarrow> max_queue_size \<le> length (job_queue td)"

definition put_job :: "write_job \<Rightarrow> telemetry \<Rightarrow> telemetry" where
  "put_job job td = td\<lparr>job_queue := job_queue td @ [Some job]\<rparr>"

definition enqueue :: "string \<Rightarrow> sqlrow \<Rightarrow> bool \<Rightarrow> pyfloat \<Rightarrow> telemetry \<Rightarrow> enqueue_result" where
  "enqueue t row blocking now td =
     (if \<not> writer_running td then NotInitialized
      else if \<not> queue_full td then Queued (put_job (t, row) td)
      else if t \<in> set undroppable_tables \<and> \<not> blocking then Lost (snd (record_drop now td))
      else if t \<in> set undroppable_tables then Waits
      else Lost (snd (record_drop now td)))"

text \<open>The end of the wait: space appeared, or two seconds passed without any.\<close>

definition enqueue_after_wait :: "string \<Rightarrow> sqlrow \<Rightarrow> pyfloat \<Rightarrow> telemetry \<Rightarrow> enqueue_result" where
  "enqueue_after_wait t row now td =
     (if \<not> queue_full td then Queued (put_job (t, row) td) else Lost (snd (record_drop now td)))"

section \<open>The record methods\<close>

definition record_order_fired :: "sqlrow \<Rightarrow> bool \<Rightarrow> pyfloat \<Rightarrow> telemetry \<Rightarrow> enqueue_result" where
  "record_order_fired row blocking = enqueue ''orders_fired'' row blocking"

definition record_order_resolution :: "sqlrow \<Rightarrow> pyfloat \<Rightarrow> telemetry \<Rightarrow> enqueue_result" where
  "record_order_resolution row = enqueue order_resolution_job row True"

definition record_fill_row :: "sqlrow \<Rightarrow> pyfloat \<Rightarrow> telemetry \<Rightarrow> enqueue_result" where
  "record_fill_row row = enqueue ''fills'' row True"

definition record_market_snapshot :: "sqlrow \<Rightarrow> pyfloat \<Rightarrow> telemetry \<Rightarrow> enqueue_result" where
  "record_market_snapshot row = enqueue ''market_snapshots'' row True"

text \<open>\<open>record_latency_event\<close>, the one record method that can raise.\<close>

definition record_latency_event :: "sqlrow \<Rightarrow> pyfloat \<Rightarrow> telemetry \<Rightarrow> exc + enqueue_result" where
  "record_latency_event row now td =
     (if row_get row ''stage'' \<notin> set (map SText latency_stages) then Inl ValueError
      else Inr (enqueue ''latency_events'' row True now td))"

definition record_index_observation :: "sqlrow \<Rightarrow> pyfloat \<Rightarrow> telemetry \<Rightarrow> enqueue_result" where
  "record_index_observation row = enqueue ''index_observations'' row True"

definition record_decision_result :: "sqlrow \<Rightarrow> pyfloat \<Rightarrow> telemetry \<Rightarrow> enqueue_result" where
  "record_decision_result row = enqueue ''decision_results'' row True"

definition record_account_snapshot :: "sqlrow \<Rightarrow> pyfloat \<Rightarrow> telemetry \<Rightarrow> enqueue_result" where
  "record_account_snapshot row = enqueue ''account_snapshots'' row True"

definition qsize :: "telemetry \<Rightarrow> nat" where "qsize td = length (job_queue td)"
definition dropped_count :: "telemetry \<Rightarrow> nat" where "dropped_count td = dropped td"

text \<open>A row offered to a running writer adds one to the queue or one to the count of the dropped.\<close>

lemma enqueue_counts:
  "enqueue t row blocking now td = Queued td' \<Longrightarrow> qsize td' = qsize td + 1 \<and> dropped_count td' = dropped_count td"
  "enqueue t row blocking now td = Lost td' \<Longrightarrow> qsize td' = qsize td \<and> dropped_count td' = dropped_count td + 1"
  by (auto simp: enqueue_def put_job_def record_drop_def qsize_def dropped_count_def Let_def split: if_splits)

definition heartbeat_row :: "string \<Rightarrow> int \<Rightarrow> ms \<Rightarrow> telemetry \<Rightarrow> sqlrow" where
  "heartbeat_row process pid now td = map_of
     [(''process'', SText process), (''pid'', SInt pid), (''started_at_ms'', SInt (telemetry_started_at td)),
      (''beat_at_ms'', SInt now), (''queue_depth'', SInt (int (qsize td))),
      (''dropped_rows'', SInt (int (dropped_count td)))]"

definition record_heartbeat :: "string \<Rightarrow> int \<Rightarrow> ms \<Rightarrow> pyfloat \<Rightarrow> telemetry \<Rightarrow> enqueue_result" where
  "record_heartbeat process pid now tick td = enqueue ''heartbeats'' (heartbeat_row process pid now td) True tick td"

text \<open>\<open>beat_forever\<close>, cut after the beats at the given times: the first one is immediate, the others follow a sleep.\<close>

fun beats :: "string \<Rightarrow> int \<Rightarrow> (ms \<times> pyfloat) list \<Rightarrow> telemetry \<Rightarrow> telemetry" where
  "beats process pid [] td = td"
| "beats process pid ((now, tick) # ticks) td =
     beats process pid ticks
       (case record_heartbeat process pid now tick td of Queued td' \<Rightarrow> td' | Lost td' \<Rightarrow> td' | _ \<Rightarrow> td)"

section \<open>The writer\<close>

text \<open>
  \<open>_drain_batch\<close> on a queue that is not empty: the outer \<open>None\<close> is the shutdown. A sentinel found
  behind other jobs goes back to the end of the queue.
\<close>

fun take_jobs :: "nat \<Rightarrow> write_job option list \<Rightarrow> write_job list \<times> write_job option list" where
  "take_jobs 0 q = ([], q)"
| "take_jobs n [] = ([], [])"
| "take_jobs (Suc n) (None # q) = ([], q @ [None])"
| "take_jobs (Suc n) (Some job # q) = (let (jobs, q') = take_jobs n q in (job # jobs, q'))"

fun drain_batch :: "write_job option list \<Rightarrow> write_job list option \<times> write_job option list" where
  "drain_batch [] = (Some [], [])"
| "drain_batch (None # q) = (None, q)"
| "drain_batch (Some job # q) =
     (let (jobs, q') = take_jobs (max_batch_size - 1) q in (Some (job # jobs), q'))"

text \<open>
  \<open>_run_writer\<close> with nobody else at the queue: until the shutdown, or until it would block on an
  empty queue. Each round takes at least one entry.
\<close>

lemma take_jobs_length: "take_jobs n q = (jobs, q') \<Longrightarrow> length q' + length jobs = length q"
  by (induction n q arbitrary: jobs q' rule: take_jobs.induct) (auto split: prod.splits)

function run_writer :: "write_job option list \<Rightarrow> database \<Rightarrow> database \<times> write_job option list" where
  "run_writer q db =
     (if q = [] then (db, [])
      else case drain_batch q of
        (None, q') \<Rightarrow> (db, q')
      | (Some batch, q') \<Rightarrow> run_writer q' (write_batch batch db))"
  by pat_completeness auto
termination
proof (relation "measure (length \<circ> fst)", simp)
  fix q :: "write_job option list" and db x q' x1 batch
  assume "q \<noteq> []" "(x1, q') = drain_batch q" "x1 = Some batch"
  then show "((q', write_batch batch db), q, db) \<in> measure (length \<circ> fst)"
    by (cases q rule: drain_batch.cases) (auto split: prod.splits dest: take_jobs_length)
qed

declare run_writer.simps [simp del]

text \<open>\<open>close\<close>: the sentinel behind everything queued, and the join of the writer.\<close>

definition close_telemetry :: "telemetry \<Rightarrow> database \<Rightarrow> telemetry \<times> database" where
  "close_telemetry td db =
     (if \<not> writer_running td then (td, db)
      else (let (db', q') = run_writer (job_queue td @ [None]) db
            in (td\<lparr>job_queue := q', writer_running := False\<rparr>, db')))"

section \<open>Nothing accepted is lost\<close>

text \<open>
  Runs of the queue between callers and writer, with two ghost lists: the jobs accepted into the
  queue and the jobs lost, each in order. A waiting caller either gets its job in or gives up;
  the writer takes a batch and writes it.
\<close>

inductive queue_run :: "database \<Rightarrow> telemetry \<Rightarrow> database \<Rightarrow> write_job list \<Rightarrow> write_job list \<Rightarrow> bool"
  for db0 where
  start: "queue_run db0 (start_writer (new_telemetry t)) db0 [] []"
| put: "queue_run db0 td db acc lost \<Longrightarrow> enqueue t row blocking now td = Queued td' \<Longrightarrow>
     queue_run db0 td' db (acc @ [(t, row)]) lost"
| drop_row: "queue_run db0 td db acc lost \<Longrightarrow> enqueue t row blocking now td = Lost td' \<Longrightarrow>
     queue_run db0 td' db acc (lost @ [(t, row)])"
| wait_put: "queue_run db0 td db acc lost \<Longrightarrow> t \<in> set undroppable_tables \<Longrightarrow>
     enqueue_after_wait t row now td = Queued td' \<Longrightarrow> queue_run db0 td' db (acc @ [(t, row)]) lost"
| wait_drop: "queue_run db0 td db acc lost \<Longrightarrow> t \<in> set undroppable_tables \<Longrightarrow>
     enqueue_after_wait t row now td = Lost td' \<Longrightarrow> queue_run db0 td' db acc (lost @ [(t, row)])"
| drain: "queue_run db0 td db acc lost \<Longrightarrow> job_queue td \<noteq> [] \<Longrightarrow>
     drain_batch (job_queue td) = (Some batch, q') \<Longrightarrow>
     queue_run db0 (td\<lparr>job_queue := q'\<rparr>) (write_batch batch db) acc lost"

definition queue_inv :: "database \<Rightarrow> telemetry \<Rightarrow> database \<Rightarrow> write_job list \<Rightarrow> write_job list \<Rightarrow> bool" where
  "queue_inv db0 td db acc lost \<longleftrightarrow>
     (\<exists>written pending. acc = written @ pending \<and> job_queue td = map Some pending \<and>
        db = fold write_row written db0) \<and>
     length (job_queue td) \<le> max_queue_size \<and> dropped td = length lost \<and> writer_running td"

lemma put_job_simps [simp]:
  "job_queue (put_job job td) = job_queue td @ [Some job]" "dropped (put_job job td) = dropped td"
  "writer_running (put_job job td) = writer_running td"
  by (simp_all add: put_job_def)

lemma record_drop_simps [simp]:
  "job_queue (snd (record_drop now td)) = job_queue td"
  "dropped (snd (record_drop now td)) = Suc (dropped td)"
  "writer_running (snd (record_drop now td)) = writer_running td"
  by (simp_all add: record_drop_def Let_def)

lemma enqueue_cases:
  "enqueue t row b now td = Queued td' \<Longrightarrow> \<not> queue_full td \<and> td' = put_job (t, row) td"
  "enqueue t row b now td = Lost td' \<Longrightarrow> td' = snd (record_drop now td)"
  "enqueue_after_wait t row now td = Queued td' \<Longrightarrow> \<not> queue_full td \<and> td' = put_job (t, row) td"
  "enqueue_after_wait t row now td = Lost td' \<Longrightarrow> td' = snd (record_drop now td)"
  by (auto simp: enqueue_def enqueue_after_wait_def split: if_splits)

lemma queue_inv_put:
  "queue_inv db0 td db acc lost \<Longrightarrow> \<not> queue_full td \<Longrightarrow> queue_inv db0 (put_job job td) db (acc @ [job]) lost"
proof -
  assume I: "queue_inv db0 td db acc lost" and room: "\<not> queue_full td"
  then obtain written pending where "acc = written @ pending" "job_queue td = map Some pending"
      "db = fold write_row written db0" by (auto simp: queue_inv_def)
  then have "acc @ [job] = written @ (pending @ [job])" "job_queue (put_job job td) = map Some (pending @ [job])"
      "db = fold write_row written db0" by simp_all
  then have "\<exists>written pending. acc @ [job] = written @ pending \<and>
      job_queue (put_job job td) = map Some pending \<and> db = fold write_row written db0" by blast
  then show ?thesis using I room by (simp add: queue_inv_def queue_full_def)
qed

lemma queue_inv_drop:
  "queue_inv db0 td db acc lost \<Longrightarrow> queue_inv db0 (snd (record_drop now td)) db acc (lost @ [job])"
  by (simp add: queue_inv_def)

lemma take_jobs_Some: "take_jobs n (map Some jobs) = (take n jobs, map Some (drop n jobs))"
proof (induction n arbitrary: jobs)
  case (Suc n)
  then show ?case by (cases jobs) simp_all
qed simp

lemma drain_batch_Some:
  "jobs \<noteq> [] \<Longrightarrow> drain_batch (map Some jobs) = (Some (take max_batch_size jobs), map Some (drop max_batch_size jobs))"
  by (cases jobs) (simp_all add: take_jobs_Some max_batch_size_def)

lemma queue_run_inv: "queue_run db0 td db acc lost \<Longrightarrow> queue_inv db0 td db acc lost"
proof (induction rule: queue_run.induct)
  case (start t)
  then show ?case by (simp add: queue_inv_def start_writer_def new_telemetry_def)
next
  case (put td db acc lost t row blocking now td')
  then show ?case using enqueue_cases(1) queue_inv_put by metis
next
  case (drop_row td db acc lost t row blocking now td')
  then show ?case using enqueue_cases(2) queue_inv_drop by metis
next
  case (wait_put td db acc lost t row now td')
  then show ?case using enqueue_cases(3) queue_inv_put by metis
next
  case (wait_drop td db acc lost t row now td')
  then show ?case using enqueue_cases(4) queue_inv_drop by metis
next
  case (drain td db acc lost batch q')
  then obtain written pending where I: "acc = written @ pending" "job_queue td = map Some pending"
      "db = fold write_row written db0" by (auto simp: queue_inv_def)
  then have "batch = take max_batch_size pending" "q' = map Some (drop max_batch_size pending)"
    using drain.hyps drain_batch_Some [of pending] by auto
  then have "acc = (written @ batch) @ drop max_batch_size pending" "q' = map Some (drop max_batch_size pending)"
      "write_batch batch db = fold write_row (written @ batch) db0" "length q' \<le> length (job_queue td)"
    using I by (simp_all add: write_batch_fold)
  then show ?case using drain.IH unfolding queue_inv_def by fastforce
qed


text \<open>Shutdown: the sentinel behind the queue makes the writer drain all of it and stop.\<close>

lemma take_jobs_sentinel:
  "take_jobs n (map Some jobs @ [None]) = (take n jobs, map Some (drop n jobs) @ [None])"
proof (induction n arbitrary: jobs)
  case (Suc n)
  then show ?case by (cases jobs) simp_all
qed simp

lemma run_writer_sentinel: "run_writer (map Some jobs @ [None]) db = (fold write_row jobs db, [])"
proof (induction "length jobs" arbitrary: jobs db rule: less_induct)
  case less
  show ?case
  proof (cases jobs)
    case Nil
    then show ?thesis by (simp add: run_writer.simps)
  next
    case (Cons job rest)
    let ?m = "max_batch_size - 1"
    have "run_writer (map Some jobs @ [None]) db =
        run_writer (map Some (drop ?m rest) @ [None]) (write_batch (job # take ?m rest) db)"
      by (subst run_writer.simps) (simp add: Cons take_jobs_sentinel)
    also have "\<dots> = (fold write_row (drop ?m rest) (write_batch (job # take ?m rest) db), [])"
      by (rule less.hyps) (simp add: Cons)
    also have "\<dots> = (fold write_row (job # take ?m rest @ drop ?m rest) db, [])"
      by (simp add: write_batch_fold del: append_take_drop_id)
    finally show ?thesis by (simp add: Cons)
  qed
qed

text \<open>Closing the telemetry database writes every accepted job before the writer stops, and
  closing it again changes nothing.\<close>
theorem close_flushes_everything:
  assumes "queue_run db0 td db acc lost"
  shows "\<exists>td'. close_telemetry td db = (td', fold write_row acc db0) \<and> \<not> writer_running td' \<and>
    close_telemetry td' (fold write_row acc db0) = (td', fold write_row acc db0)"
proof -
  obtain written pending where I: "acc = written @ pending" "job_queue td = map Some pending"
      "db = fold write_row written db0" "writer_running td"
    using queue_run_inv [OF assms] by (auto simp: queue_inv_def)
  then show ?thesis
    by (auto simp: close_telemetry_def run_writer_sentinel)
qed

definition sample_queue :: telemetry where
  "sample_queue = put_job (''heartbeats'', Map.empty) (start_writer (new_telemetry 5))"

lemma sample_queue_run:
  "queue_run empty_db sample_queue empty_db [(''heartbeats'', Map.empty)] []"
proof -
  have "enqueue ''heartbeats'' Map.empty True 0 (start_writer (new_telemetry 5)) = Queued sample_queue"
    by (simp add: enqueue_def sample_queue_def queue_full_def start_writer_def new_telemetry_def max_queue_size_def)
  from queue_run.put [OF queue_run.start this] show ?thesis by simp
qed


theorem close_flushes_everything_witness:
  "\<exists>td'. close_telemetry sample_queue empty_db = (td', fold write_row [(''heartbeats'', Map.empty)] empty_db)"
  using close_flushes_everything [OF sample_queue_run] by blast

end
