(* ===== verification/Order_Pipeline.thy ===== *)
theory Order_Pipeline
  imports Telemetry_Queue Risk_Restart
begin

text \<open>
  From the dispatcher to the database and back into the risk gate: the two rows of a dispatch
  satisfy the schema, whatever becomes of the pending row the order ends with one row that says
  what happened to it, and a gate warm-started from the table sees it.
\<close>

section \<open>The count column reads back\<close>

lemma digit_char:
  assumes "0 \<le> d" "d < 10"
  shows "is_digit (char_of (48 + d :: int)) \<and> digit_value (char_of (48 + d)) = d"
proof -
  have "d = 0 \<or> d = 1 \<or> d = 2 \<or> d = 3 \<or> d = 4 \<or> d = 5 \<or> d = 6 \<or> d = 7 \<or> d = 8 \<or> d = 9"
    using assms by presburger
  then show ?thesis by (elim disjE) (simp_all add: is_digit_def digit_value_def char_of_def)
qed

lemma decimal_text_small: "n < 10 \<Longrightarrow> decimal_text n = [char_of (48 + n)]"
  by (simp add: decimal_text.simps)

lemma decimal_text_step: "\<not> n < 10 \<Longrightarrow> decimal_text n = decimal_text (n div 10) @ [char_of (48 + n mod 10)]"
  by (subst decimal_text.simps) simp

text \<open>Reading the digits of a number gives the number back, and stops at what is not a digit.\<close>

lemma read_digits_text:
  "0 \<le> n \<Longrightarrow> \<exists>k. 0 < k \<and> (\<forall>v m rest. read_digits v m (decimal_text n @ rest) = read_digits (v * 10 ^ k + n) (m + k) rest)"
proof (induction n rule: decimal_text.induct)
  case (1 n)
  show ?case
  proof (cases "n < 10")
    case True
    then show ?thesis using 1(2) digit_char [of n]
      by (intro exI [of _ 1]) (simp add: decimal_text_small mult.commute)
  next
    case False
    then have "0 \<le> n div 10" by simp
    then obtain k where k: "0 < k" "\<And>v m rest. read_digits v m (decimal_text (n div 10) @ rest) =
        read_digits (v * 10 ^ k + n div 10) (m + k) rest"
      using 1(1) False by blast
    have d: "is_digit (char_of (48 + n mod 10))" "digit_value (char_of (48 + n mod 10)) = n mod 10"
      using digit_char [of "n mod 10"] by simp_all
    have eq: "10 * (v * 10 ^ k + n div 10) + n mod 10 = v * 10 ^ Suc k + n" for v
      by (simp add: algebra_simps)
    show ?thesis
      by (rule exI [of _ "Suc k"]) (simp add: decimal_text_step [OF False] k(2) d eq [symmetric] add.commute mult_ac)
  qed
qed

lemma decimal_text_hd: "0 \<le> n \<Longrightarrow> is_digit (hd (decimal_text n)) \<and> decimal_text n \<noteq> []"
proof (induction n rule: decimal_text.induct)
  case (1 n)
  then show ?case using digit_char [of n]
    by (cases "n < 10") (simp_all add: decimal_text_small decimal_text_step)
qed

lemma digit_zero [simp]: "is_digit (CHR ''0'')" "digit_value (CHR ''0'') = 0"
  by (simp_all add: is_digit_def digit_value_def)

lemma digit_not_space: "is_digit c \<Longrightarrow> \<not> is_space c \<and> c \<noteq> CHR ''-'' \<and> c \<noteq> CHR ''+''"
  by (auto simp: is_digit_def is_space_def)

lemma count_text_value:
  assumes "0 \<le> n" "n < 2 ^ 46"
  shows "float_of_text (int_text n @ ''.00'') = Some (of_int n)"
proof -
  let ?s = "decimal_text n @ ''.00''"
  have hd: "is_digit (hd (decimal_text n))" "decimal_text n \<noteq> []" using decimal_text_hd [OF assms(1)] by simp_all
  obtain c cs where c: "decimal_text n = c # cs" "is_digit c" using hd by (cases "decimal_text n") auto
  obtain k where k: "0 < k" "\<And>v m rest. read_digits v m (decimal_text n @ rest) = read_digits (v * 10 ^ k + n) (m + k) rest"
    using read_digits_text [OF assms(1)] by blast
  have strip: "strip ?s = ?s"
    using c digit_not_space [of c] by (simp add: strip_def is_space_def)
  have sign: "read_sign ?s = (1, ?s)" using c digit_not_space [of c] by (simp add: read_sign_def)
  have int_part: "read_digits 0 0 ?s = (n, k, ''.00'')" by (simp add: k(2) is_digit_def)
  have frac: "read_digits 0 0 ''00'' = (0, 2, [])" by simp
  have "rnd (of_int (1 * (n * 10 ^ 2 + 0)) / 10 ^ 2 * 10 powi 0) = of_int n"
    using rnd_of_int [of n] assms by simp
  then have "float_of_text ?s = Some (of_int n)"
    unfolding float_of_text_def strip Let_def sign prod.case int_part
    by (simp add: frac read_exponent_def)
  then show ?thesis using assms(1) by (simp add: int_text_def)
qed

section \<open>The rows of a dispatch satisfy the schema\<close>

text \<open>What the callers of the dispatcher guarantee of its arguments.\<close>

definition sane_args :: "dispatch_args \<Rightarrow> bool" where
  "sane_args a \<longleftrightarrow>
     tpl_outcome_side (da_template a) \<in> {''yes'', ''no''} \<and>
     0 < da_count a \<and> da_count a < 2 ^ 46 \<and>
     da_stp_type a \<in> {''taker_at_cross'', ''maker''} \<and>
     0 < cast_real (SText (da_price_dollars a)) \<and> cast_real (SText (da_price_dollars a)) < 1"

lemma count_positive: "sane_args a \<Longrightarrow> 0 < cast_real (SText (int_text (da_count a) @ ''.00''))"
proof -
  assume s: "sane_args a"
  have n: "0 \<le> da_count a" "da_count a < 2 ^ 46" "0 < da_count a" using s by (simp_all add: sane_args_def)
  have "float_of_text (int_text (da_count a) @ ''.00'') = Some (of_int (da_count a))"
    using n(1,2) by (rule count_text_value)
  then show ?thesis using n(3) by (simp add: cast_real_def)
qed

lemma row_get_pending:
  "row_get (pending_row a cid corr req) ''correlation_id'' = SText corr"
  "row_get (pending_row a cid corr req) ''client_order_id'' = SText cid"
  "row_get (pending_row a cid corr req) ''ticker'' = SText (tpl_ticker (da_template a))"
  "row_get (pending_row a cid corr req) ''outcome_side'' = SText (tpl_outcome_side (da_template a))"
  "row_get (pending_row a cid corr req) ''count'' = SText (int_text (da_count a) @ ''.00'')"
  "row_get (pending_row a cid corr req) ''price_dollars'' = SText (da_price_dollars a)"
  "row_get (pending_row a cid corr req) ''time_in_force'' = SText (tif_text (da_time_in_force a))"
  "row_get (pending_row a cid corr req) ''self_trade_prevention_type'' = SText (da_stp_type a)"
  "row_get (pending_row a cid corr req) ''post_only'' \<in> {SInt 0, SInt 1}"
  "row_get (pending_row a cid corr req) ''status'' = SText ''pending''"
  "row_get (pending_row a cid corr req) ''requested_at_ms'' = SInt req"
  by (simp_all add: pending_row_def row_get_def status_text_def)

text \<open>The columns the schema constrains, other than the status, and what it asks of them.\<close>

lemma order_row_ok_iff:
  "row_ok ''orders_fired'' (bound_row ''orders_fired'' r) \<longleftrightarrow>
     (\<forall>c \<in> {''correlation_id'', ''client_order_id'', ''ticker'', ''outcome_side'', ''count'', ''price_dollars'',
        ''time_in_force'', ''self_trade_prevention_type'', ''status'', ''requested_at_ms''}. row_get r c \<noteq> SNull) \<and>
     row_get r ''outcome_side'' \<in> set (texts [''yes'', ''no'']) \<and>
     0 < cast_real (row_get r ''count'') \<and>
     0 < cast_real (row_get r ''price_dollars'') \<and> cast_real (row_get r ''price_dollars'') < 1 \<and>
     row_get r ''time_in_force'' \<in> set (texts [''fill_or_kill'', ''good_till_canceled'', ''immediate_or_cancel'']) \<and>
     row_get r ''self_trade_prevention_type'' \<in> set (texts [''taker_at_cross'', ''maker'']) \<and>
     row_get r ''post_only'' \<in> {SNull, SInt 0, SInt 1} \<and>
     row_get r ''status'' \<in> set (texts [''pending'', ''submitted'', ''accepted'', ''rejected'', ''filled'', ''canceled'', ''error''])"
  by (simp add: row_ok_def checks_of_def schema_def row_get_bound columns_of_orders order_columns_def)
    (auto simp: texts_def)

lemma pending_row_ok:
  assumes "sane_args a"
  shows "row_ok ''orders_fired'' (bound_row ''orders_fired'' (pending_row a cid corr req))"
proof -
  have "tif_text (da_time_in_force a) \<in> {''fill_or_kill'', ''good_till_canceled'', ''immediate_or_cancel''}"
    by (cases "da_time_in_force a") (simp_all add: tif_text_def)
  then show ?thesis
    using assms count_positive [OF assms] row_get_pending(9) [of a cid corr req]
    unfolding order_row_ok_iff by (auto simp: row_get_pending texts_def sane_args_def)
qed

lemma row_get_resolution:
  "c \<notin> resolved_columns \<Longrightarrow> row_get (resolution_row d r status msg ack) c = row_get (fl_row d) c"
  "row_get (resolution_row d r status msg ack) ''status'' = SText (status_text status)"
  by (simp_all add: row_get_def get_default_def resolution_row_same)

lemma resolution_row_ok:
  assumes "row_ok ''orders_fired'' (bound_row ''orders_fired'' (fl_row d))"
  shows "row_ok ''orders_fired'' (bound_row ''orders_fired'' (resolution_row d r status msg ack))"
proof -
  have "status_text status \<in> {''pending'', ''submitted'', ''accepted'', ''filled'', ''canceled'', ''error''}"
    by (cases status) (simp_all add: status_text_def)
  then show ?thesis
    using assms unfolding order_row_ok_iff
    by (auto simp: row_get_resolution resolved_columns_def texts_def)
qed

section \<open>From dispatch to table\<close>

text \<open>The job a telemetry call enqueues.\<close>

fun job_of :: "telemetry_call \<Rightarrow> write_job" where
  "job_of (OrderFired row blocking) = (''orders_fired'', row)"
| "job_of (OrderResolution row) = (order_resolution_job, row)"

lemma dispatch_calls:
  assumes "\<not> da_dry_run a" "dispatch None minted clock post ack a = Inr (res, calls)"
  shows "\<exists>d r msg. fl_row d = pending_row a (or_minted (da_client_order_id a) (fst minted))
      (or_minted (da_correlation_id a) (snd minted)) (fst clock) \<and>
    r = (case res of Returned r \<Rightarrow> r | _ \<Rightarrow> Map.empty) \<and>
    calls = [OrderFired (fl_row d) False,
      OrderResolution (resolution_row d r (outcome_status (da_time_in_force a) res) msg ack)]"
proof -
  let ?cid = "or_minted (da_client_order_id a) (fst minted)"
  let ?row = "pending_row a ?cid (or_minted (da_correlation_id a) (snd minted)) (fst clock)"
  define d where "d = \<lparr>fl_args = a, fl_body = order_body_of a ?cid, fl_row = ?row, fl_submitted_at = snd clock\<rparr>"
  have "fl_row d = ?row" by (simp add: d_def)
  moreover have "dispatch_end d (post (order_body_of a ?cid) False) ack = (res, tl calls)"
      "hd calls = OrderFired ?row False" "calls \<noteq> []"
    using assms by (auto simp: dispatch_def dispatch_begin_def Let_def d_def split: prod.splits)
  moreover have "da_dry_run (fl_args d) = False" "da_time_in_force (fl_args d) = da_time_in_force a"
    using assms(1) by (simp_all add: d_def)
  ultimately show ?thesis
    by (intro exI [of _ d], cases calls, simp)
      (cases res; auto simp: dispatch_end_def outcome_status_def Let_def split: outcome.splits)
qed


definition sample_dispatch_args :: dispatch_args where
  "sample_dispatch_args =
     \<lparr>da_template = \<lparr>tpl_ticker = ''BTC-26-T1'', tpl_outcome_side = ''yes''\<rparr>, da_count = 2,
      da_price_dollars = ''0.5000'', da_time_in_force = FillOrKill, da_stp_type = ''taker_at_cross'',
      da_post_only = None, da_exchange_index = 0, da_client_order_id = None, da_correlation_id = None,
      da_correlation_group = ''btc'', da_dry_run = False\<rparr>"

lemma sample_dispatch_sane: "sane_args sample_dispatch_args"
  by (simp add: sane_args_def sample_dispatch_args_def sample_numbers)

definition filled_response :: response where
  "filled_response = [''fill_count'' \<mapsto> JStr ''2.00'']"

lemma filled_response_count: "resp_get filled_response ''fill_count'' = JStr ''2.00''"
  by (simp add: filled_response_def resp_get_def)

lemma two_text: "float_of_text ''2.00'' = Some 2"
  by code_simp

lemma sample_dispatch:
  "\<exists>fired resolution. dispatch None (''k1'', ''c1'') (100000, 100001) (\<lambda>_ _. Returned filled_response) 100002
     sample_dispatch_args = Inr (Returned filled_response, [fired, resolution])"
proof -
  obtain res calls where d: "dispatch None (''k1'', ''c1'') (100000, 100001) (\<lambda>_ _. Returned filled_response) 100002
      sample_dispatch_args = Inr (res, calls)" using dispatch_total by blast
  moreover have "res = Returned filled_response"
    using d by (auto simp: dispatch_def dispatch_begin_def dispatch_end_def Let_def split: prod.splits)
  moreover have "\<not> da_dry_run sample_dispatch_args" by (simp add: sample_dispatch_args_def)
  ultimately show ?thesis using dispatch_calls [OF _ d] by blast
qed

lemma filled_status: "resolved_status filled_response FillOrKill = Filled"
  by (simp add: resolved_status_def filled_response_count fixed_point_float_def two_text)


section \<open>From the table back into the gate\<close>

text \<open>The columns \<open>warm_start\<close> selects, read off a stored row.\<close>

definition text_of :: "sqlval \<Rightarrow> string" where
  "text_of v = (case v of SText s \<Rightarrow> s | _ \<Rightarrow> [])"

definition text_option_of :: "sqlval \<Rightarrow> string option" where
  "text_option_of v = (case v of SText s \<Rightarrow> Some s | _ \<Rightarrow> None)"

definition int_of_sql :: "sqlval \<Rightarrow> int" where
  "int_of_sql v = (case v of SInt n \<Rightarrow> n | _ \<Rightarrow> 0)"

definition summary_of :: "sqlrow \<Rightarrow> order_summary" where
  "summary_of r =
     \<lparr>sel_ticker = text_of (row_get r ''ticker''),
      sel_group = text_option_of (row_get r ''correlation_group''),
      sel_side = text_of (row_get r ''outcome_side''),
      sel_count = row_get r ''count'',
      sel_price = row_get r ''price_dollars'',
      sel_fill_count = row_get r ''fill_count'',
      sel_requested_at = int_of_sql (row_get r ''requested_at_ms''),
      sel_status = text_of (row_get r ''status'')\<rparr>"

definition order_summaries :: "database \<Rightarrow> order_summary list" where
  "order_summaries db = map summary_of (db_rows ''orders_fired'' db)"

definition row_fills :: "order_summary \<Rightarrow> fill list" where
  "row_fills r =
     (if sel_fill_count r \<noteq> SNull \<and> 0 < as_float (sel_fill_count r)
      then [\<lparr>fill_ms = sel_requested_at r, fill_ticker = sel_ticker r, fill_group = row_group r,
             fill_contracts = as_float (sel_fill_count r)\<rparr>] else [])"

lemma fold_replay_fills: "fills (fold replay_row rs g) = fills g @ concat (map row_fills rs)"
proof (induction rs arbitrary: g)
  case (Cons r rs)
  have "fills (replay_row r g) = fills g @ row_fills r"
    by (auto simp: replay_row_def row_fills_def row_group_def Let_def)
  then show ?case by (simp add: Cons)
qed simp

text \<open>Every order row of the last day that was not refused is an attempt of the restarted gate, at
  its recorded time and on its ticker, and a positive fill count in it is a fill of the gate.\<close>
theorem restart_sees_logged_orders:
  assumes "row \<in> set (db_rows ''orders_fired'' db)" "row_get row ''status'' = SText status"
    and "status \<noteq> ''rejected''" "row_get row ''requested_at_ms'' = SInt at_ms" "now - day_ms \<le> at_ms"
    and "row_get row ''ticker'' = SText tk"
  shows "(\<exists>a \<in> set (attempts (warm_start lims (order_summaries db) now)).
      attempt_ms a = at_ms \<and> attempt_ticker a = tk) \<and>
    (\<forall>s x. row_get row ''fill_count'' = SText s \<longrightarrow> float_of_text s = Some x \<longrightarrow> 0 < x \<longrightarrow>
      (\<exists>f \<in> set (fills (warm_start lims (order_summaries db) now)).
        fill_ms f = at_ms \<and> fill_ticker f = tk \<and> fill_contracts f = x))"
proof -
  let ?r = "summary_of row"
  have sel: "sel_requested_at ?r = at_ms" "sel_status ?r = status" "sel_ticker ?r = tk"
      "sel_fill_count ?r = row_get row ''fill_count''"
    using assms by (simp_all add: summary_of_def text_of_def int_of_sql_def)
  have mem: "?r \<in> set (select_recent now (order_summaries db))"
    using assms sel by (auto simp: set_select_recent order_summaries_def)
  then have "row_attempt ?r \<in> set (attempts (warm_start lims (order_summaries db) now))"
    by (simp add: warm_attempts)
  moreover have "\<exists>f \<in> set (fills (warm_start lims (order_summaries db) now)).
      fill_ms f = at_ms \<and> fill_ticker f = tk \<and> fill_contracts f = x"
    if "row_get row ''fill_count'' = SText s" "float_of_text s = Some x" "0 < x" for s x
  proof -
    have "row_fills ?r = [\<lparr>fill_ms = at_ms, fill_ticker = tk, fill_group = row_group ?r, fill_contracts = x\<rparr>]"
      using that sel by (simp add: row_fills_def as_float_def)
    then have "\<lparr>fill_ms = at_ms, fill_ticker = tk, fill_group = row_group ?r, fill_contracts = x\<rparr>
        \<in> set (fills (warm_start lims (order_summaries db) now))"
      using mem unfolding warm_start_def fold_replay_fills by fastforce
    then show ?thesis by force
  qed
  ultimately show ?thesis using sel by force
qed

theorem restart_sees_logged_orders_witness:
  "\<exists>f \<in> set (fills (warm_start (default_limits {0})
      (order_summaries (write_row (order_resolution_job,
        (sample_order_row ''filled'')(''fill_count'' \<mapsto> SText ''2.00'')) empty_db)) 20)).
     fill_contracts f = 2"
proof -
  let ?row = "(sample_order_row ''filled'')(''fill_count'' \<mapsto> SText ''2.00'')"
  let ?db = "write_row (order_resolution_job, ?row) empty_db"
  let ?b = "bound_row ''orders_fired'' ?row"
  have ok: "row_ok ''orders_fired'' ?b"
    unfolding order_row_ok_iff
    by (simp add: sample_order_row_def row_get_def texts_def sample_numbers)
  have "orders_with (row_get ?row ''client_order_id'') ?db = [?b]"
    using write_resolution [OF ok, of empty_db] by (simp add: orders_with_def empty_db_def db_rows_def)
  then have "?b \<in> set (orders_with (row_get ?row ''client_order_id'') ?db)" by simp
  then have mem: "?b \<in> set (db_rows ''orders_fired'' ?db)" by (simp add: orders_with_def)
  have g: "row_get ?b ''status'' = SText ''filled''" "row_get ?b ''requested_at_ms'' = SInt 10"
      "row_get ?b ''ticker'' = SText ''BTC-26-T1''" "row_get ?b ''fill_count'' = SText ''2.00''"
    by (simp_all add: row_get_bound columns_of_orders order_columns_def)
      (simp_all add: sample_order_row_def row_get_def)
  show ?thesis
    using restart_sees_logged_orders [OF mem g(1) _ g(2) _ g(3), of 20 "default_limits {0}"] g(4) two_text
    by (force simp: day_ms_def)
qed

end
