(* ===== verification/Executor_Safety.thy ===== *)
theory Executor_Safety
  imports Executor_Fire Order_Pipeline "HOL-Library.Sublist"
begin

text \<open>
  What the executor guarantees. A shadow fire touches nothing; an order on the wire passed every
  guard; a refusal leaves one row. Then the executor as a whole: any number of fires, interleaved at
  their suspension points with each other, with reconciliations and with balance polls, drives the
  risk gate through one of the runs the gate's own theorems are about, so its caps hold of the
  orders that are posted.
\<close>

section \<open>The admission interface\<close>

locale admission =
  fixes ask :: "'q \<Rightarrow> int \<Rightarrow> 'g \<Rightarrow> 'r option \<times> 'g"
    and book :: "'q \<Rightarrow> int \<Rightarrow> 'g \<Rightarrow> 'g"
    and settle :: "'g \<Rightarrow> 'g"
    and flying :: "'g \<Rightarrow> int"
    and room :: "'g \<Rightarrow> int"
  assumes ask_keeps: "ask q t g = (r, g') \<Longrightarrow> flying g' = flying g"
    and ask_room: "ask q t g = (None, g') \<Longrightarrow> flying g < room g"
    and book_adds: "flying (book q t g) = flying g + 1"
    and settle_takes: "flying (settle g) = max 0 (flying g - 1)"
begin

lemma booked:
  assumes "ask q t g = (None, g')" "flying g = int n"
  shows "flying (book q t' g') = int (Suc n)" "int (Suc n) \<le> room g"
  using ask_keeps [OF assms(1)] ask_room [OF assms(1)] assms(2) by (simp_all add: book_adds)

lemma settled: "flying g = int (Suc n) \<Longrightarrow> flying (settle g) = int n"
  by (simp add: settle_takes)

lemma booked_and_settled:
  assumes "ask q t g = (None, g')" "flying g = int n"
  shows "flying (settle (book q t' g')) = int n"
  using booked(1) [OF assms] by (rule settled)

end

interpretation risk: admission check admit end_dispatch in_flight "\<lambda>g. max_concurrent_dispatches (limits g)"
proof
  fix q t g g' and r :: "rejection option"
  assume "check q t g = (r, g')"
  then show "in_flight g' = in_flight g" by (rule check_frame(3))
next
  fix q t g g'
  assume "check q t g = (None, g')"
  then have "fst (check q t g) = None" by simp
  then show "in_flight g < max_concurrent_dispatches (limits g)" by (simp add: check_None_iff)
next
  show "in_flight (admit q t g) = in_flight g + 1" for q t g by simp
  show "in_flight (end_dispatch g) = max 0 (in_flight g - 1)" for g by simp
qed

section \<open>One fire\<close>

lemma launch_fields:
  assumes "launch rd m count price e = (Waiting f, e', calls)"
  shows "e' = e \<and> fg_message f = m \<and> fg_count f = count \<and> fg_price f = price \<and>
    (fg_gated f \<longleftrightarrow> ex_gate e \<noteq> None \<and> \<not> dry_run m) \<and>
    (\<exists>t cs. build_template (market_ticker m) (direction m) = Inr t \<and>
      dispatch_begin (rd_permitted rd) (rd_minted rd) (rd_dispatch_ms rd) (dispatch_args_of e m t count price) =
        Inr (fg_dispatch f, cs) \<and> calls = map OrderCall cs)"
  using assms by (auto simp: launch_def Let_def split: sum.splits prod.splits)

lemma launch_unsent:
  assumes "launch rd m count price e = (st, e', calls)" "\<And>f. st \<noteq> Waiting f"
  shows "\<exists>x. st = Unsent x" "e' = settle_gate (ex_gate e \<noteq> None \<and> \<not> dry_run m) e"
    "list_all (\<lambda>c. \<exists>r. c = LatencyCall r) calls"
  using assms by (auto simp: launch_def Let_def list_all_iff split: sum.splits prod.splits)

lemma dispatch_begin_fields:
  assumes "dispatch_begin p minted clock a = Inr (d, calls)"
  shows "fl_args d = a" "fl_body d = order_body_of a (or_minted (da_client_order_id a) (fst minted))"
    "calls = (if da_dry_run a then [] else [OrderFired (fl_row d) False])" "p = None"
    "fl_row d = pending_row a (or_minted (da_client_order_id a) (fst minted))
      (or_minted (da_correlation_id a) (snd minted)) (fst clock)"
  using assms by (auto simp: dispatch_begin_def Let_def split: option.splits)

text \<open>The ways a real fire goes.\<close>

lemma real_fire_cases:
  assumes "\<not> dry_run m" "fire_begin fmt rd m e = (st, e', calls)"
  obtains
    (early) "ex_gate e' = ex_gate e" "\<And>f. st \<noteq> Waiting f" "\<And>x. st \<noteq> Unsent x"
  | (gated) price e1 rej where "consult_switch rd e = (False, e1)"
      "consult_gate rd (request_of m (fire_count e m) price) e1 = (Some rej, e')" "st = Refused (Gated rej)"
  | (cleared) price e1 e2 where
      "0 < wire_price_yes_dollars m" "wire_price_yes_dollars m < 1"
      "snap_to_grid (wire_price_yes_dollars m) (price_ranges m) = Inr price" "1 \<le> fire_count e m"
      "consult_switch rd e = (False, e1)"
      "consult_gate rd (request_of m (fire_count e m) price) e1 = (None, e2)"
      "launch rd m (fire_count e m) price e2 = (st, e', calls)"
proof -
  let ?tradeable = "0 < wire_price_yes_dollars m \<and> wire_price_yes_dollars m < 1"
  show thesis
  proof (cases "snap_to_grid (wire_price_yes_dollars m) (price_ranges m)")
    case (Inl x)
    then show ?thesis using assms by (intro early) (auto simp: fire_begin_def split: if_splits)
  next
    case (Inr price)
    obtain eng e1 where sw: "consult_switch rd e = (eng, e1)" by force
    have g1: "ex_gate e1 = ex_gate e"
      using sw by (auto simp: consult_switch_def Let_def split: option.splits prod.splits)
    obtain r e2 where gt: "consult_gate rd (request_of m (fire_count e m) price) e1 = (r, e2)" by force
    consider "\<not> ?tradeable \<or> fire_count e m < 1 \<or> eng" | rej where "?tradeable" "1 \<le> fire_count e m" "\<not> eng" "r = Some rej"
      | "?tradeable" "1 \<le> fire_count e m" "\<not> eng" "r = None"
      by (cases r) (force simp: not_less)+
    then show ?thesis
    proof cases
      case 1
      then show ?thesis using assms Inr sw g1
        by (intro early) (auto simp: fire_begin_def refuse_def Let_def split: if_splits)
    next
      case (2 rej)
      then show ?thesis using assms Inr sw gt
        by (intro gated [of e1 price rej]) (auto simp: fire_begin_def refuse_def Let_def)
    next
      case 3
      then show ?thesis using assms Inr sw gt
        by (intro cleared [of price e1 e2]) (auto simp: fire_begin_def Let_def)
    qed
  qed
qed

definition only_latency :: "exec_call list \<Rightarrow> bool" where
  "only_latency calls \<longleftrightarrow> list_all (\<lambda>c. \<exists>r. c = LatencyCall r) calls"

lemma only_latency_simps [simp]: "only_latency (map LatencyCall rs)" "only_latency []"
  by (simp_all add: only_latency_def list_all_iff)

lemma launch_not_refused [simp]: "launch rd m count price e \<noteq> (Refused r, e', calls)"
  using launch_unsent(1) [of rd m count price e "Refused r" e' calls] by blast


text \<open>C2. When handling a real wake ends with a POST on its way, the wire price was strictly inside
  (0, 1) and snapped onto its grid, the size was at least one contract, the kill switch was not
  engaged, the risk gate allowed exactly this request, the order guard permitted it, the body sent
  is the one built from the wake, and its pending row was the one thing recorded.\<close>
theorem posted_order_was_cleared:
  assumes "\<not> dry_run m" "fire_begin fmt rd m e = (Waiting f, e', calls)"
  shows "\<exists>price. 0 < wire_price_yes_dollars m \<and> wire_price_yes_dollars m < 1 \<and>
    snap_to_grid (wire_price_yes_dollars m) (price_ranges m) = Inr price \<and>
    1 \<le> fire_count e m \<and>
    (\<forall>ks. ex_switch e = Some ks \<longrightarrow> \<not> fst (is_engaged (rd_switch_ns rd) (rd_switch_file rd) ks)) \<and>
    (\<forall>g. ex_gate e = Some g \<longrightarrow> fst (check (request_of m (fire_count e m) price) (rd_check_ms rd) g) = None) \<and>
    rd_permitted rd = None \<and>
    fl_body (fg_dispatch f) =
      \<lparr>body_ticker = market_ticker m, body_client_order_id = fst (rd_minted rd),
       body_side = (if direction m = ''yes'' then ''bid'' else ''ask''),
       body_count = int_text (fire_count e m) @ ''.00'', body_price = fixed4 price,
       body_time_in_force = ex_time_in_force e, body_stp_type = ex_stp_type e,
       body_post_only = (ex_time_in_force e = GoodTillCanceled), body_exchange_index = exchange_index m\<rparr> \<and>
    calls = [OrderCall (OrderFired (fl_row (fg_dispatch f)) False)]"
  using assms(1,2)
proof (cases rule: real_fire_cases)
  case (cleared price e1 e2)
  have sw: "\<not> fst (is_engaged (rd_switch_ns rd) (rd_switch_file rd) ks)" if "ex_switch e = Some ks" for ks
    using cleared(5) that by (auto simp: consult_switch_def Let_def split: prod.splits)
  have e1: "ex_gate e1 = ex_gate e" "ex_time_in_force e1 = ex_time_in_force e" "ex_stp_type e1 = ex_stp_type e"
    using cleared(5) by (auto simp: consult_switch_def Let_def split: option.splits prod.splits)
  have gt: "fst (check (request_of m (fire_count e m) price) (rd_check_ms rd) g) = None" if "ex_gate e = Some g" for g
    using cleared(6) that e1(1) by (auto simp: consult_gate_def split: option.splits prod.splits)
  have e2: "ex_time_in_force e2 = ex_time_in_force e" "ex_stp_type e2 = ex_stp_type e"
    using cleared(6) e1 by (auto simp: consult_gate_def split: option.splits prod.splits)
  obtain t cs where t: "build_template (market_ticker m) (direction m) = Inr t" "calls = map OrderCall cs"
    "dispatch_begin (rd_permitted rd) (rd_minted rd) (rd_dispatch_ms rd)
      (dispatch_args_of e2 m t (fire_count e m) price) = Inr (fg_dispatch f, cs)"
    using launch_fields [OF cleared(7)] by blast
  have "tpl_ticker t = market_ticker m" "tpl_outcome_side t = direction m"
    using t(1) by (auto simp: build_template_def split: if_splits)
  then show ?thesis
    using cleared(1-4) sw gt t(2) dispatch_begin_fields [OF t(3)] assms(1) e2
    by (intro exI [of _ price]) (simp add: dispatch_args_of_def order_body_of_def or_minted_def resolve_post_only_def)
qed (blast, simp)


section \<open>Runs of the executor\<close>

text \<open>
  The event loop runs one segment at a time: the first or the second of some fire, a reconciliation
  or a balance poll of the account monitor. The state is the executor, the fires suspended at their
  POST, oldest first, the real orders handed to the dispatcher with the time the gate recorded them
  at, and the clock, which does not run backwards. It starts with the gate \<open>warm_start\<close> builds from
  the rows of earlier orders, none for a new database. Readings and outcomes are arbitrary.
\<close>

definition posted_by :: "fire_reading \<Rightarrow> fire_start \<Rightarrow> (order_request \<times> ms) list" where
  "posted_by rd st =
     (case st of
        Waiting f \<Rightarrow> if dry_run (fg_message f) then []
          else [(request_of (fg_message f) (fg_count f) (fg_price f), rd_record_ms rd)]
      | _ \<Rightarrow> [])"

definition suspended_by :: "fire_start \<Rightarrow> flight list" where
  "suspended_by st = (case st of Waiting f \<Rightarrow> [f] | _ \<Rightarrow> [])"

inductive exec_run ::
    "refusal_format \<Rightarrow> risk_limits \<Rightarrow> (order_request \<times> ms) list \<Rightarrow> executor \<Rightarrow> flight list \<Rightarrow>
      (order_request \<times> ms) list \<Rightarrow> ms \<Rightarrow> bool"
  for fmt lims past where
  boot: "ex_gate e = Some (warm_start lims rows t) \<Longrightarrow> restored past rows t \<Longrightarrow> exec_run fmt lims past e [] [] t"
| fired: "exec_run fmt lims past e fl posted t \<Longrightarrow> t \<le> rd_check_ms rd \<Longrightarrow> rd_check_ms rd \<le> rd_record_ms rd \<Longrightarrow>
     fire_begin fmt rd m e = (st, e', calls) \<Longrightarrow>
     exec_run fmt lims past e' (fl @ suspended_by st) (posted @ posted_by rd st) (rd_record_ms rd)"
| resumed: "exec_run fmt lims past e (fl1 @ f # fl2) posted t \<Longrightarrow> t \<le> er_fill_ms er \<Longrightarrow>
     fire_end er f res tm e = (e', calls, cancelled) \<Longrightarrow>
     exec_run fmt lims past e' (fl1 @ fl2) posted (er_fill_ms er)"
| reconciled: "exec_run fmt lims past e fl posted t \<Longrightarrow>
     exec_run fmt lims past (e\<lparr>ex_gate := map_option (reconcile_open_positions ps snap) (ex_gate e)\<rparr>) fl posted t"
| polled: "exec_run fmt lims past e fl posted t \<Longrightarrow> exec_run fmt lims past (e\<lparr>ex_balance := b\<rparr>) fl posted t"

text \<open>
  The simulation: the gate of the executor is in a state of \<open>gate_run\<close> whose admissions include every
  posted order, and counts the suspended real fires.
\<close>

definition gated_count :: "flight list \<Rightarrow> nat" where
  "gated_count fl = length (filter fg_gated fl)"

definition exec_inv :: "risk_limits \<Rightarrow> (order_request \<times> ms) list \<Rightarrow> executor \<Rightarrow> flight list \<Rightarrow> (order_request \<times> ms) list \<Rightarrow> ms \<Rightarrow> bool" where
  "exec_inv lims past e fl posted t \<longleftrightarrow>
     (\<forall>f \<in> set fl. fg_gated f \<longleftrightarrow> \<not> dry_run (fg_message f)) \<and>
     (\<exists>g hist t'. ex_gate e = Some g \<and> t' \<le> t \<and> gate_run lims past g hist t' \<and> subseq posted hist \<and>
       in_flight g = int (gated_count fl))"

lemma exec_invI:
  "\<forall>f \<in> set fl. fg_gated f \<longleftrightarrow> \<not> dry_run (fg_message f) \<Longrightarrow> ex_gate e = Some g \<Longrightarrow> gate_run lims past g hist t' \<Longrightarrow>
     t' \<le> t \<Longrightarrow> subseq posted hist \<Longrightarrow> in_flight g = int (gated_count fl) \<Longrightarrow> exec_inv lims past e fl posted t"
  by (auto simp: exec_inv_def)

lemma gated_count_simps [simp]:
  "gated_count [] = 0"
  "gated_count (fl1 @ fl2) = gated_count fl1 + gated_count fl2"
  "gated_count (f # fl) = (if fg_gated f then Suc (gated_count fl) else gated_count fl)"
  by (simp_all add: gated_count_def)

lemma switch_keeps_gate: "consult_switch rd e = (b, e1) \<Longrightarrow> ex_gate e1 = ex_gate e"
  by (auto simp: consult_switch_def Let_def split: option.splits prod.splits)

lemma exec_inv_later: "exec_inv lims past e fl posted t \<Longrightarrow> t \<le> t' \<Longrightarrow> exec_inv lims past e fl posted t'"
  unfolding exec_inv_def by (meson order_trans)

lemma exec_inv_gate: "exec_inv lims past e fl posted t \<Longrightarrow> ex_gate e' = ex_gate e \<Longrightarrow> exec_inv lims past e' fl posted t"
  by (simp add: exec_inv_def)

lemma exec_inv_fired:
  assumes inv: "exec_inv lims past e fl posted t" and time: "t \<le> rd_check_ms rd" "rd_check_ms rd \<le> rd_record_ms rd"
    and fire: "fire_begin fmt rd m e = (st, e', calls)"
  shows "exec_inv lims past e' (fl @ suspended_by st) (posted @ posted_by rd st) (rd_record_ms rd)"
proof (cases "dry_run m")
  case True
  have e': "e' = e" and l: "\<And>f. st = Waiting f \<Longrightarrow> \<not> fg_gated f \<and> dry_run (fg_message f)"
  proof -
    show "e' = e" "\<And>f. st = Waiting f \<Longrightarrow> \<not> fg_gated f \<and> dry_run (fg_message f)"
      using fire True launch_fields [of rd m _ _ e _ e' calls] launch_unsent(2) [of rd m _ _ e st e' calls]
      by (cases "\<exists>f. st = Waiting f"; force simp: fire_begin_def settle_gate_def Let_def split: sum.splits)+
  qed
  have "exec_inv lims past e fl posted (rd_record_ms rd)" using exec_inv_later [OF inv] time by simp
  then show ?thesis using l e'
    by (cases st) (simp_all add: suspended_by_def posted_by_def exec_inv_def)
next
  case False
  obtain g hist t' where g: "ex_gate e = Some g" "t' \<le> t" "gate_run lims past g hist t'" "subseq posted hist"
      "in_flight g = int (gated_count fl)" and fl: "\<forall>f \<in> set fl. fg_gated f \<longleftrightarrow> \<not> dry_run (fg_message f)"
    using inv by (auto simp: exec_inv_def)
  have later: "exec_inv lims past e fl posted (rd_record_ms rd)" using exec_inv_later [OF inv] time by simp
  from False fire show ?thesis
  proof (cases rule: real_fire_cases)
    case early
    then have "suspended_by st = []" "posted_by rd st = []"
      by (cases st; simp add: suspended_by_def posted_by_def)+
    then show ?thesis using exec_inv_gate [OF later early(1)] by simp
  next
    case (gated price e1 rej)
    obtain g' where c: "check (request_of m (fire_count e m) price) (rd_check_ms rd) g = (Some rej, g')"
        "ex_gate e' = Some g'"
      using gated(2) switch_keeps_gate [OF gated(1)] g(1) by (auto simp: consult_gate_def split: prod.splits option.splits)
    have "gate_run lims past g' hist (rd_check_ms rd)"
      using gate_run.refused [OF g(3) _ c(1)] g(2) time by simp
    moreover have "in_flight g' = in_flight g" by (rule risk.ask_keeps [OF c(1)])
    moreover have "suspended_by st = []" "posted_by rd st = []"
      using gated(3) by (simp_all add: suspended_by_def posted_by_def)
    ultimately show ?thesis using fl c(2) time(2) g(4,5) by (intro exec_invI) simp_all
  next
    case (cleared price e1 e2)
    let ?rq = "request_of m (fire_count e m) price"
    obtain g' where c: "check ?rq (rd_check_ms rd) g = (None, g')"
        "ex_gate e2 = Some (admit ?rq (rd_record_ms rd) g')"
      using cleared(6) switch_keeps_gate [OF cleared(5)] g(1)
      by (auto simp: consult_gate_def admit_def split: prod.splits option.splits)
    have run: "gate_run lims past (admit ?rq (rd_record_ms rd) g') (hist @ [(?rq, rd_record_ms rd)]) (rd_record_ms rd)"
      using gate_run.admitted [OF g(3) _ time(2) c(1)] g(2) time(1) by simp
    show ?thesis
    proof (cases "\<exists>f. st = Waiting f")
      case True
      then obtain f where f: "st = Waiting f" by blast
      have "e' = e2" "fg_gated f" "fg_message f = m" "fg_count f = fire_count e m" "fg_price f = price"
        using launch_fields [OF cleared(7) [unfolded f]] c(2) False by simp_all
      moreover have "in_flight (admit ?rq (rd_record_ms rd) g') = int (gated_count (fl @ [f]))"
        using risk.booked(1) [OF c(1) g(5)] \<open>fg_gated f\<close> by simp
      moreover have "subseq (posted @ [(?rq, rd_record_ms rd)]) (hist @ [(?rq, rd_record_ms rd)])"
        using g(4) by (rule list_emb_append_mono) simp
      moreover have "suspended_by st = [f]" by (simp add: f suspended_by_def)
      ultimately show ?thesis
        using c(2) run fl False f by (intro exec_invI [OF _ _ run]) (simp_all add: posted_by_def)
    next
      case not_sent: False
      then have st: "suspended_by st = []" "posted_by rd st = []"
        by (cases st; simp add: suspended_by_def posted_by_def)+
      have "e' = settle_gate True e2" using launch_unsent(2) [OF cleared(7)] not_sent c(2) False by auto
      then have e': "ex_gate e' = Some (end_dispatch (admit ?rq (rd_record_ms rd) g'))"
        using c(2) by (simp add: settle_gate_def)
      have "in_flight (end_dispatch (admit ?rq (rd_record_ms rd) g')) = int (gated_count fl)"
        by (rule risk.booked_and_settled [OF c(1) g(5)])
      moreover have "subseq posted (hist @ [(?rq, rd_record_ms rd)])" using g(4) by (rule list_emb_prefix)
      ultimately show ?thesis
        using e' fl st by (intro exec_invI [OF _ _ gate_run.failed [OF run]]) simp_all
    qed
  qed
qed

lemma fire_end_gate:
  assumes "fire_end er f res tm e = (e', calls, b)" "ex_gate e = Some g"
  shows "ex_gate e' = Some (if \<not> fg_gated f then g
    else case res of Returned r \<Rightarrow> end_dispatch (record_fill (market_ticker (fg_message f)) (response_fill r) (er_fill_ms er) g)
      | _ \<Rightarrow> end_dispatch g)"
  using assms by (cases res) (auto simp: fire_end_def dispatch_end_def settle_gate_def Let_def)

lemma exec_run_inv: "exec_run fmt lims past e fl posted t \<Longrightarrow> exec_inv lims past e fl posted t"
proof (induction rule: exec_run.induct)
  case (boot e rows t)
  show ?case by (rule exec_invI [OF _ boot(1) gate_run.boot [OF boot(2)]]) simp_all
next
  case (fired e fl posted t rd m st e' calls)
  then show ?case using exec_inv_fired by blast
next
  case (resumed e fl1 f fl2 posted t er res tm e' calls cancelled)
  obtain g hist t' where g: "ex_gate e = Some g" "t' \<le> t" "gate_run lims past g hist t'" "subseq posted hist"
      "in_flight g = int (gated_count (fl1 @ f # fl2))"
    and fl: "\<forall>f \<in> set (fl1 @ f # fl2). fg_gated f \<longleftrightarrow> \<not> dry_run (fg_message f)"
    using resumed.IH unfolding exec_inv_def by blast
  note e' = fire_end_gate [OF resumed.hyps(3) g(1)]
  show ?case
  proof (cases "fg_gated f")
    case False
    then show ?thesis using resumed.hyps(2) g e' fl by (intro exec_invI [OF _ _ g(3)]) simp_all
  next
    case True
    define g1 where "g1 = (case res of
      Returned r \<Rightarrow> record_fill (market_ticker (fg_message f)) (response_fill r) (er_fill_ms er) g | _ \<Rightarrow> g)"
    obtain t'' where "t'' \<le> er_fill_ms er" "gate_run lims past (end_dispatch g1) hist t''"
    proof (cases res)
      case (Returned r)
      then have "gate_run lims past (end_dispatch g1) hist (er_fill_ms er)"
        using gate_run.filled [OF g(3), of "er_fill_ms er"] g(2) resumed.hyps(2) by (simp add: g1_def)
      then show ?thesis using that by blast
    qed (use that [of t'] gate_run.failed [OF g(3)] g(2) resumed.hyps(2) g1_def in simp_all)
    moreover have "ex_gate e' = Some (end_dispatch g1)" using e' True by (simp add: g1_def split: outcome.splits)
    moreover have "in_flight g1 = int (Suc (gated_count (fl1 @ fl2)))"
      using g(5) True by (simp add: g1_def split: outcome.splits)
    then have "in_flight (end_dispatch g1) = int (gated_count (fl1 @ fl2))" by (rule risk.settled)
    ultimately show ?thesis using g(4) fl by (intro exec_invI [where t' = t'' and g = "end_dispatch g1" and hist = hist]) auto
  qed
next
  case (reconciled e fl posted t ps snap)
  then obtain g hist t' where "ex_gate e = Some g" "t' \<le> t" "gate_run lims past g hist t'" "subseq posted hist"
      "in_flight g = int (gated_count fl)" "\<forall>f \<in> set fl. fg_gated f \<longleftrightarrow> \<not> dry_run (fg_message f)"
    by (auto simp: exec_inv_def)
  then show ?case by (intro exec_invI [OF _ _ gate_run.reconciled]) simp_all
next
  case (polled e fl posted t b)
  then show ?case by (simp add: exec_inv_def)
qed

lemma subseq_set: "subseq xs ys \<Longrightarrow> set xs \<subseteq> set ys"
  by (induction rule: list_emb.induct) auto

lemma sorted_wrt_subseq: "subseq xs ys \<Longrightarrow> sorted_wrt P ys \<Longrightarrow> sorted_wrt P xs"
proof (induction rule: list_emb.induct)
  case (list_emb_Cons2 x y xs ys)
  then show ?case using subseq_set [OF list_emb_Cons2.hyps(2)] by auto
qed simp_all

lemma in_window_subseq: "subseq xs ys \<Longrightarrow> in_window f P w h xs \<le> in_window f P w h ys"
  unfolding in_window_def by (rule list_emb_length) (rule subseq_filter)

lemma keeps_cap_subseq: "subseq posted hist \<Longrightarrow> keeps_cap past P w cap hist \<Longrightarrow> keeps_cap past P w cap posted"
  unfolding keeps_cap_def
  by (meson in_window_subseq [OF list_emb_append_mono [OF subseq_order.order_refl]] order_trans)

text \<open>C1. In every run of the executor from the gate it rebuilt out of the audit trail, over any
  interleaving of wakes, answers of the exchange, reconciliations and polls, the orders it puts on
  the wire keep, together with those of the earlier process, the hourly cap in every window of an
  hour, the daily, per-ticker, per-event and per-group caps in every window of 24 hours, and the
  cooldown between two orders on one ticker and direction.\<close>
theorem executor_keeps_order_caps:
  assumes "exec_run fmt lims past e fl posted t"
  shows "keeps_cap past (\<lambda>_. True) hour_ms (max_attempts_per_hour lims) posted \<and>
    keeps_cap past (\<lambda>_. True) day_ms (max_attempts_per_day lims) posted \<and>
    keeps_cap past (\<lambda>x. rq_ticker (fst x) = tk) day_ms (max_attempts_per_ticker_per_day lims) posted \<and>
    keeps_cap past (\<lambda>x. event_ticker_of (rq_ticker (fst x)) = ev) day_ms (max_attempts_per_event_per_day lims) posted \<and>
    (grp = [] \<or> keeps_cap past (\<lambda>x. rq_group (fst x) = grp) day_ms
      (max_attempts_per_correlation_group_per_day lims) posted) \<and>
    sorted_wrt (spaced (refire_cooldown_seconds lims)) posted \<and>
    (\<forall>x \<in> set past. \<forall>y \<in> set posted. spaced (refire_cooldown_seconds lims) x y)"
proof -
  obtain g hist t' where run: "gate_run lims past g hist t'" and sub: "subseq posted hist"
    using exec_run_inv [OF assms] by (auto simp: exec_inv_def)
  show ?thesis
    using run_hour_cap [OF run] run_day_caps [OF run, of tk ev grp] run_cooldown [OF run]
      keeps_cap_subseq [OF sub] sorted_wrt_subseq [OF sub] subseq_set [OF sub] by blast
qed

text \<open>C12. In every run of the executor the in-flight counter of the gate is the number of real
  dispatches whose answer is outstanding, and it never exceeds the limit.\<close>
theorem executor_counts_its_dispatches:
  assumes "exec_run fmt lims past e fl posted t"
  shows "\<exists>g. ex_gate e = Some g \<and> in_flight g = int (length (filter (\<lambda>f. \<not> dry_run (fg_message f)) fl)) \<and>
    in_flight g \<le> max 0 (max_concurrent_dispatches lims)"
proof -
  obtain g hist t' where g: "ex_gate e = Some g" "gate_run lims past g hist t'" "in_flight g = int (gated_count fl)"
      "\<forall>f \<in> set fl. fg_gated f \<longleftrightarrow> \<not> dry_run (fg_message f)"
    using exec_run_inv [OF assms] by (auto simp: exec_inv_def)
  have "filter fg_gated fl = filter (\<lambda>f. \<not> dry_run (fg_message f)) fl" using g(4) by (intro filter_cong) auto
  then show ?thesis using g(1,3) run_in_flight [OF g(2)] by (simp add: gated_count_def)
qed

section \<open>The row of a refusal\<close>

lemma refused_row:
  assumes "fire_begin fmt rd m e = (Refused r, e', calls)"
  shows "\<exists>count price. snap_to_grid (wire_price_yes_dollars m) (price_ranges m) = Inr price \<and>
    (count = fire_count e m \<and> 1 \<le> count \<or> count = ex_count e) \<and>
    calls = [OrderCall (OrderFired (rejected_row e m count price (refusal_text fmt r) (rd_rejected_id rd) (rd_rejected_ms rd)) True)]"
proof -
  have same: "rejected_row e1 = rejected_row e" if "consult_switch rd e = (b, e1)" for b e1
    using that by (auto simp: consult_switch_def rejected_row_def fun_eq_iff Let_def split: option.splits prod.splits)
  have same': "rejected_row e2 = rejected_row e1" if "consult_gate rd rq e1 = (x, e2)" for rq x e1 e2
    using that by (auto simp: consult_gate_def rejected_row_def fun_eq_iff split: option.splits prod.splits)
  show ?thesis using assms
    by (auto simp: fire_begin_def refuse_def Let_def same same' not_less split: if_splits sum.splits prod.splits bool.splits option.splits)
qed

lemma row_get_rejected:
  "row_get (rejected_row e m count price reason cid now) ''correlation_id'' = SText (correlation_id m)"
  "row_get (rejected_row e m count price reason cid now) ''client_order_id'' = SText cid"
  "row_get (rejected_row e m count price reason cid now) ''ticker'' = SText (market_ticker m)"
  "row_get (rejected_row e m count price reason cid now) ''outcome_side'' = SText (direction m)"
  "row_get (rejected_row e m count price reason cid now) ''count'' = SText (int_text count @ ''.00'')"
  "row_get (rejected_row e m count price reason cid now) ''price_dollars'' = SText (fixed4 price)"
  "row_get (rejected_row e m count price reason cid now) ''time_in_force'' = SText (tif_text (ex_time_in_force e))"
  "row_get (rejected_row e m count price reason cid now) ''self_trade_prevention_type'' = SText (ex_stp_type e)"
  "row_get (rejected_row e m count price reason cid now) ''post_only'' = SNull"
  "row_get (rejected_row e m count price reason cid now) ''status'' = SText ''rejected''"
  "row_get (rejected_row e m count price reason cid now) ''error_message'' = SText reason"
  "row_get (rejected_row e m count price reason cid now) ''requested_at_ms'' = SInt now"
  by (simp_all add: rejected_row_def row_get_def)

text \<open>The rejected row of a refusal passes every check of the orders table, provided the snapped
  price is still inside (0, 1), so it is stored, once, with its correlation and reason.\<close>
theorem refusal_is_stored:
  assumes "fire_begin fmt rd m e = (Refused r, e', [OrderCall call])"
    and "snap_to_grid (wire_price_yes_dollars m) (price_ranges m) = Inr price"
    and "0 < cast_real (SText (fixed4 price))" "cast_real (SText (fixed4 price)) < 1"
    and "direction m \<in> {''yes'', ''no''}" "ex_stp_type e \<in> {''taker_at_cross'', ''maker''}"
    and "1 \<le> ex_count e" "ex_count e < 2 ^ 46" "fire_count e m < 2 ^ 46"
    and "orders_with (SText (rd_rejected_id rd)) db = []"
  shows "\<exists>row. orders_with (SText (rd_rejected_id rd)) (write_row (job_of call) db) = [row] \<and>
    row_get row ''status'' = SText ''rejected'' \<and> row_get row ''correlation_id'' = SText (correlation_id m) \<and>
    row_get row ''error_message'' = SText (refusal_text fmt r)"
proof -
  obtain count where c: "1 \<le> count" "count < 2 ^ 46" and call: "call = OrderFired
      (rejected_row e m count price (refusal_text fmt r) (rd_rejected_id rd) (rd_rejected_ms rd)) True"
    using refused_row [OF assms(1)] assms(2,7-9) by auto
  let ?r = "rejected_row e m count price (refusal_text fmt r) (rd_rejected_id rd) (rd_rejected_ms rd)"
  have "cast_real (SText (int_text count @ ''.00'')) = of_int count"
    using count_text_value [of count] c by (simp add: cast_real_def)
  moreover have "tif_text t \<in> {''fill_or_kill'', ''good_till_canceled'', ''immediate_or_cancel''}" for t
    by (cases t) (simp_all add: tif_text_def)
  ultimately have ok: "row_ok ''orders_fired'' (bound_row ''orders_fired'' ?r)"
    using assms(3-6) c unfolding order_row_ok_iff by (auto simp: row_get_rejected texts_def)
  have "orders_with (SText (rd_rejected_id rd)) (write_row (''orders_fired'', ?r) db) = [bound_row ''orders_fired'' ?r]"
    using write_pending [OF ok, of db] assms(10) by (simp add: row_get_rejected)
  then show ?thesis
    by (simp add: call row_get_bound columns_of_orders order_columns_def row_get_rejected)
qed

text \<open>When the wire price snaps to zero, the rejected row of a refusal fails the price check of
  the orders table and the database is left without it.\<close>
theorem snapped_refusal_is_lost:
  assumes "fire_begin fmt rd m e = (Refused r, e', [OrderCall call])"
    and "snap_to_grid (wire_price_yes_dollars m) (price_ranges m) = Inr 0"
  shows "write_row (job_of call) db = db"
proof -
  obtain count where call: "call = OrderFired
      (rejected_row e m count 0 (refusal_text fmt r) (rd_rejected_id rd) (rd_rejected_ms rd)) True"
    using refused_row [OF assms(1)] assms(2) by auto
  have "cast_real (SText (fixed4 0)) = 0" by code_simp
  then have "\<not> row_ok ''orders_fired'' (bound_row ''orders_fired''
      (rejected_row e m count 0 (refusal_text fmt r) (rd_rejected_id rd) (rd_rejected_ms rd)))"
    unfolding order_row_ok_iff by (simp add: row_get_rejected)
  then show ?thesis
    by (simp add: call write_row_def insert_job_def insert_plain_def order_resolution_job_def replace_tables_def
        ignore_tables_def Let_def)
qed

section \<open>Witnesses\<close>

definition sample_executor :: executor where
  "sample_executor =
     \<lparr>ex_count = 1, ex_time_in_force = FillOrKill, ex_stp_type = ''maker'', ex_kelly_fraction = 1 / 8,
      ex_max_position_pct = 1 / 64, ex_clock_domain = ''host:60'',
      ex_gate = Some (new_gate (default_limits {0})), ex_switch = Some (new_switch 1), ex_balance = None\<rparr>"

definition sample_fire :: "switch_file \<Rightarrow> fire_reading" where
  "sample_fire disk =
     \<lparr>rd_switch_ns = 0, rd_switch_file = disk, rd_check_ms = 100000, rd_record_ms = 100000, rd_rejected_ms = 100000,
      rd_rejected_id = ''r1'', rd_build_ns = (1000, 2000), rd_permitted = None, rd_minted = (''k1'', ''d1''),
      rd_dispatch_ms = (100001, 100002), rd_timings_ms = 100003\<rparr>"

definition plain_format :: refusal_format where
  "plain_format = \<lparr>fmt_general = float_text, fmt_rejection = (\<lambda>_. ''refused'')\<rparr>"

lemma sample_snapped [simp]:
  "fmul (float_of (round_even (fdiv (1 / 2) (1 / 128)))) (1 / 128) = 1 / 2"
  "fmul (float_of (round_even (fdiv (1 / 512) (1 / 128)))) (1 / 128) = 0"
  by code_simp+

lemma sample_snap: "snap_to_grid (1 / 2) [[0, 1, 1 / 128]] = Inr (1 / 2)" "snap_to_grid (1 / 512) [[0, 1, 1 / 128]] = Inr 0"
  by simp_all

lemma sample_count: "fire_count sample_executor (sample_message\<lparr>wire_price_yes_dollars := p\<rparr>) = 1"
  by (simp add: fire_count_def sample_executor_def sample_message_def size_position_def)

lemma sample_started:
  assumes "fst (check sample_order 100000 g) = None"
  shows "\<exists>f e' calls. fire_begin plain_format (sample_fire None) sample_message (sample_executor\<lparr>ex_gate := Some g\<rparr>) = (Waiting f, e', calls)"
proof -
  let ?e = "sample_executor\<lparr>ex_gate := Some g\<rparr>"
  have c: "fire_count ?e sample_message = 1"
    using sample_count [of "1 / 2"] by (simp add: sample_message_def fire_count_def)
  have rq: "request_of sample_message 1 (1 / 2) = sample_order"
    by (simp add: request_of_def sample_message_def sample_order_def)
  have sw: "consult_switch (sample_fire None) ?e =
      (False, ?e\<lparr>ex_switch := Some (snd (is_engaged 0 None (new_switch 1)))\<rparr>)"
    by (simp add: consult_switch_def sample_executor_def sample_fire_def is_engaged_def new_switch_def)
  obtain g' where "check sample_order 100000 g = (None, g')"
    using assms by (metis prod.collapse)
  then have "\<exists>e2. consult_gate (sample_fire None) sample_order
      (?e\<lparr>ex_switch := Some (snd (is_engaged 0 None (new_switch 1)))\<rparr>) = (None, e2)"
    by (simp add: consult_gate_def sample_executor_def sample_fire_def)
  then obtain e2 where gt: "consult_gate (sample_fire None) sample_order
      (?e\<lparr>ex_switch := Some (snd (is_engaged 0 None (new_switch 1)))\<rparr>) = (None, e2)" by blast
  have m: "wire_price_yes_dollars sample_message = 1 / 2" "price_ranges sample_message = [[0, 1, 1 / 128]]" "\<not> dry_run sample_message"
    by (simp_all add: sample_message_def)
  have "fire_begin plain_format (sample_fire None) sample_message ?e =
      launch (sample_fire None) sample_message 1 (1 / 2) e2"
    by (simp add: fire_begin_def m c rq sw gt Let_def)
  then show ?thesis
    by (simp add: launch_def build_template_def sample_message_def sample_fire_def dispatch_begin_def Let_def)
qed

lemma sample_fresh: "sample_executor\<lparr>ex_gate := Some (new_gate (default_limits {0}))\<rparr> = sample_executor"
  by (simp add: sample_executor_def)

lemma sample_refused:
  assumes "p = 1 / 2 \<or> p = 1 / 512"
  shows "\<exists>call. fire_begin plain_format (sample_fire (Some ''stop'')) (sample_message\<lparr>wire_price_yes_dollars := p\<rparr>) sample_executor =
     (Refused (Halted ''stop''), sample_executor\<lparr>ex_switch := Some \<lparr>ttl_seconds = 1, cached = Some True, checked_at_ns = 0\<rparr>\<rparr>, [OrderCall call])"
proof -
  let ?m = "sample_message\<lparr>wire_price_yes_dollars := p\<rparr>"
  have sw: "consult_switch (sample_fire (Some ''stop'')) sample_executor =
      (True, sample_executor\<lparr>ex_switch := Some \<lparr>ttl_seconds = 1, cached = Some True, checked_at_ns = 0\<rparr>\<rparr>)"
    by (simp add: consult_switch_def sample_executor_def sample_fire_def is_engaged_def new_switch_def)
  have r: "halt_reason (sample_fire (Some ''stop'')) = ''stop''" by code_simp
  have m: "price_ranges ?m = [[0, 1, 1 / 128]]" "\<not> dry_run ?m" by (simp_all add: sample_message_def)
  show ?thesis using assms m sample_snap
    by (auto simp: fire_begin_def sample_count sw r refuse_def Let_def)
qed

lemma sample_posted:
  assumes "fst (check sample_order 100000 g) = None"
  shows "\<exists>f e' calls. fire_begin plain_format (sample_fire None) sample_message (sample_executor\<lparr>ex_gate := Some g\<rparr>) = (Waiting f, e', calls) \<and>
    posted_by (sample_fire None) (Waiting f) = [(sample_order, 100000)] \<and> \<not> dry_run (fg_message f)"
proof -
  obtain f e' calls where s: "fire_begin plain_format (sample_fire None) sample_message (sample_executor\<lparr>ex_gate := Some g\<rparr>) = (Waiting f, e', calls)"
    using sample_started [OF assms] by blast
  have m: "\<not> dry_run sample_message" by (simp add: sample_message_def)
  obtain price e1 e2 where p: "snap_to_grid (wire_price_yes_dollars sample_message) (price_ranges sample_message) = Inr price"
      "launch (sample_fire None) sample_message (fire_count (sample_executor\<lparr>ex_gate := Some g\<rparr>) sample_message) price e2 = (Waiting f, e', calls)"
    using m s by (cases rule: real_fire_cases) auto
  have "price = 1 / 2" using p(1) sample_snap by (simp add: sample_message_def)
  moreover have "fire_count (sample_executor\<lparr>ex_gate := Some g\<rparr>) sample_message = 1"
    using sample_count [of "1 / 2"] by (simp add: sample_message_def fire_count_def)
  ultimately have "posted_by (sample_fire None) (Waiting f) = [(sample_order, 100000)]" "\<not> dry_run (fg_message f)"
    using launch_fields [OF p(2)] m
    by (simp_all add: posted_by_def request_of_def sample_message_def sample_order_def sample_fire_def)
  then show ?thesis using s by blast
qed

lemma sample_exec_run:
  "\<exists>f e'. exec_run plain_format (default_limits {0}) [] e' [f] [(sample_order, 100000)] 100000 \<and> \<not> dry_run (fg_message f)"
proof -
  obtain f e' calls where s: "fire_begin plain_format (sample_fire None) sample_message sample_executor = (Waiting f, e', calls)"
      "posted_by (sample_fire None) (Waiting f) = [(sample_order, 100000)]" "\<not> dry_run (fg_message f)"
    using sample_posted [OF sample_check] unfolding sample_fresh by blast
  have "exec_run plain_format (default_limits {0}) [] sample_executor [] [] 0"
    by (rule exec_run.boot [of _ _ "[]"]) (simp_all add: sample_executor_def)
  from exec_run.fired [OF this _ _ s(1)] s(2)
  have "exec_run plain_format (default_limits {0}) [] e' [f] [(sample_order, 100000)] 100000"
    by (simp add: sample_fire_def suspended_by_def)
  then show ?thesis using s(3) by blast
qed


theorem posted_order_was_cleared_witness:
  "\<exists>f e' calls. fire_begin plain_format (sample_fire None) sample_message sample_executor = (Waiting f, e', calls) \<and>
     body_side (fl_body (fg_dispatch f)) = ''bid'' \<and> body_client_order_id (fl_body (fg_dispatch f)) = ''k1''"
proof -
  obtain f e' calls where s: "fire_begin plain_format (sample_fire None) sample_message sample_executor = (Waiting f, e', calls)"
    using sample_started [OF sample_check] unfolding sample_fresh by blast
  have "\<not> dry_run sample_message" by (simp add: sample_message_def)
  from posted_order_was_cleared [OF this s] s show ?thesis by (auto simp: sample_message_def sample_fire_def)
qed


theorem refusal_is_stored_witness:
  "\<exists>call row. orders_with (SText ''r1'') (write_row (job_of call) empty_db) = [row] \<and>
     row_get row ''error_message'' = SText ''kill switch engaged: stop''"
proof -
  obtain e' call where r: "fire_begin plain_format (sample_fire (Some ''stop''))
      (sample_message\<lparr>wire_price_yes_dollars := 1 / 2\<rparr>) sample_executor = (Refused (Halted ''stop''), e', [OrderCall call])"
    using sample_refused [of "1 / 2"] by blast
  have half: "cast_real (SText (fixed4 (1 / 2))) = 1 / 2" by code_simp
  have count: "fire_count sample_executor (sample_message\<lparr>wire_price_yes_dollars := 1 / 2\<rparr>) = 1" by (rule sample_count)
  have "\<exists>row. orders_with (SText (rd_rejected_id (sample_fire (Some ''stop'')))) (write_row (job_of call) empty_db) = [row] \<and>
      row_get row ''status'' = SText ''rejected'' \<and>
      row_get row ''correlation_id'' = SText (correlation_id (sample_message\<lparr>wire_price_yes_dollars := 1 / 2\<rparr>)) \<and>
      row_get row ''error_message'' = SText (refusal_text plain_format (Halted ''stop''))"
    by (rule refusal_is_stored [OF r, where price = "1 / 2"])
      (simp_all add: half count, simp_all add: sample_message_def sample_executor_def orders_with_def empty_db_def db_rows_def)
  then show ?thesis by (auto simp: refusal_text_def sample_fire_def)
qed

theorem snapped_refusal_is_lost_witness:
  "\<exists>e' call. fire_begin plain_format (sample_fire (Some ''stop'')) (sample_message\<lparr>wire_price_yes_dollars := 1 / 512\<rparr>) sample_executor =
     (Refused (Halted ''stop''), e', [OrderCall call]) \<and> write_row (job_of call) empty_db = empty_db"
proof -
  obtain e' call where r: "fire_begin plain_format (sample_fire (Some ''stop''))
      (sample_message\<lparr>wire_price_yes_dollars := 1 / 512\<rparr>) sample_executor = (Refused (Halted ''stop''), e', [OrderCall call])"
    using sample_refused [of "1 / 512"] by blast
  have "snap_to_grid (wire_price_yes_dollars (sample_message\<lparr>wire_price_yes_dollars := 1 / 512\<rparr>))
      (price_ranges (sample_message\<lparr>wire_price_yes_dollars := 1 / 512\<rparr>)) = Inr 0"
    by (simp add: sample_message_def sample_snap)
  from snapped_refusal_is_lost [OF r this] r show ?thesis by blast
qed

text \<open>A restart 80 seconds after an order of the earlier process, and an order after it.\<close>

lemma sample_row_numbers: "as_float (SText ''1'') = 1" "as_float (SText ''0.5'') = 1 / 2" "as_float SNull = 0" "fmul (float_of 1) (1 / 2) = fmul 1 (1 / 2)"
  by code_simp+

lemma sample_past: "restored [(sample_order, 20000)] [sample_row 20000 ''executed''] 90000"
  by (simp add: restored_def select_recent_def wrote_def sample_row_def sample_order_def row_attempt_def attempt_of_def
      row_key_def fire_key_def row_group_def day_ms_def sample_row_numbers)

lemma sample_warm_check:
  "fst (check sample_order 100000 (warm_start (default_limits {0}) [sample_row 20000 ''executed''] 90000)) = None"
  by (simp add: warm_start_def select_recent_def replay_row_def sample_row_def sample_row_numbers sample_simps)

theorem executor_keeps_order_caps_witness:
  "in_window snd (\<lambda>_. True) hour_ms 0 [(sample_order, 20000), (sample_order, 100000)] \<le> 10 \<and>
   spaced 60 (sample_order, 20000) (sample_order, 100000)"
proof -
  let ?past = "[(sample_order, 20000)]"
  let ?e = "sample_executor\<lparr>ex_gate := Some (warm_start (default_limits {0}) [sample_row 20000 ''executed''] 90000)\<rparr>"
  obtain f e' calls where s: "fire_begin plain_format (sample_fire None) sample_message ?e = (Waiting f, e', calls)"
      "posted_by (sample_fire None) (Waiting f) = [(sample_order, 100000)]"
    using sample_posted [OF sample_warm_check] by blast
  have "exec_run plain_format (default_limits {0}) ?past ?e [] [] 90000"
    by (rule exec_run.boot [OF _ sample_past]) simp
  from exec_run.fired [OF this _ _ s(1)] s(2)
  have run: "exec_run plain_format (default_limits {0}) ?past e' [f] [(sample_order, 100000)] 100000"
    by (simp add: sample_fire_def suspended_by_def)
  have "keeps_cap ?past (\<lambda>_. True) hour_ms 10 [(sample_order, 100000)]" "spaced 60 (sample_order, 20000) (sample_order, 100000)"
    using executor_keeps_order_caps [OF run] by (simp_all add: default_limits_def)
  moreover have "in_window snd (\<lambda>_. True) hour_ms 0 ?past = 1" by (simp add: in_window_def hour_ms_def)
  moreover have "in_window snd (\<lambda>_. True) hour_ms 0 (?past @ [(sample_order, 100000)]) \<le> 10"
    using calculation(1,3) unfolding keeps_cap_def by (metis max.commute max_def nat_numeral one_le_numeral)
  ultimately show ?thesis by simp
qed

theorem executor_counts_its_dispatches_witness:
  "\<exists>f e' g. exec_run plain_format (default_limits {0}) [] e' [f] [(sample_order, 100000)] 100000 \<and>
     ex_gate e' = Some g \<and> in_flight g = 1"
proof -
  obtain f e' where r: "exec_run plain_format (default_limits {0}) [] e' [f] [(sample_order, 100000)] 100000"
      "\<not> dry_run (fg_message f)"
    using sample_exec_run by blast
  from executor_counts_its_dispatches [OF r(1)] r show ?thesis by auto
qed

end
