(* ===== verification/Wake_To_Order.thy ===== *)
theory Wake_To_Order
  imports Poller_Connection Executor_Safety "HOL-Library.Multiset"
begin

text \<open>
  The whole path: wakes offered to the poller, the connections that carry them, the fires the
  executor spawns for what arrives, and the orders these put on the wire.
\<close>

text \<open>
  A run of the executor together with the wakes whose fire tasks have started, in that order. Each
  task starts once; all other steps are those of \<open>exec_run\<close>.
\<close>

inductive exec_fed ::
    "refusal_format \<Rightarrow> risk_limits \<Rightarrow> (order_request \<times> ms) list \<Rightarrow> wake_message list \<Rightarrow> executor \<Rightarrow> flight list \<Rightarrow>
      (order_request \<times> ms) list \<Rightarrow> ms \<Rightarrow> bool"
  for fmt lims past where
  boots: "ex_gate e = Some (warm_start lims rows t) \<Longrightarrow> restored past rows t \<Longrightarrow>
     exec_fed fmt lims past [] e [] [] t"
| fires: "exec_fed fmt lims past begun e fl posted t \<Longrightarrow> t \<le> rd_check_ms rd \<Longrightarrow> rd_check_ms rd \<le> rd_record_ms rd \<Longrightarrow>
     fire_begin fmt rd m e = (st, e', calls) \<Longrightarrow>
     exec_fed fmt lims past (begun @ [m]) e' (fl @ suspended_by st) (posted @ posted_by rd st) (rd_record_ms rd)"
| resumes: "exec_fed fmt lims past begun e (fl1 @ f # fl2) posted t \<Longrightarrow> t \<le> er_fill_ms er \<Longrightarrow>
     fire_end er f res tm e = (e', calls, cancelled) \<Longrightarrow>
     exec_fed fmt lims past begun e' (fl1 @ fl2) posted (er_fill_ms er)"
| reconciles: "exec_fed fmt lims past begun e fl posted t \<Longrightarrow>
     exec_fed fmt lims past begun (e\<lparr>ex_gate := map_option (reconcile_open_positions ps snap) (ex_gate e)\<rparr>) fl posted t"
| polls: "exec_fed fmt lims past begun e fl posted t \<Longrightarrow> exec_fed fmt lims past begun (e\<lparr>ex_balance := b\<rparr>) fl posted t"

lemma fed_runs: "exec_fed fmt lims past begun e fl posted t \<Longrightarrow> exec_run fmt lims past e fl posted t"
  by (induction rule: exec_fed.induct) (blast intro: exec_run.intros)+

text \<open>An order is for a wake: a real one, on its market, side, shard and group.\<close>

definition order_for :: "wake_message \<Rightarrow> order_request \<times> ms \<Rightarrow> bool" where
  "order_for m x \<longleftrightarrow> \<not> dry_run m \<and> rq_ticker (fst x) = market_ticker m \<and> rq_direction (fst x) = direction m \<and>
     rq_exchange_index (fst x) = exchange_index m \<and> rq_group (fst x) = correlation_group m"

lemma launch_message: "launch rd m k price e = (Waiting f, e', calls) \<Longrightarrow> fg_message f = m"
  by (auto simp: launch_def Let_def split: sum.splits prod.splits)

lemma fire_message: "fire_begin fmt rd m e = (Waiting f, e', calls) \<Longrightarrow> fg_message f = m"
  by (auto simp: fire_begin_def refuse_def Let_def
      split: if_splits sum.splits prod.splits bool.splits option.splits dest: launch_message)

lemma posted_for:
  assumes "fire_begin fmt rd m e = (st, e', calls)"
  shows "posted_by rd st = [] \<or> (\<exists>x. posted_by rd st = [x] \<and> order_for m x)"
proof (cases st)
  case (Waiting f)
  then have "fg_message f = m" using assms fire_message by blast
  then show ?thesis using Waiting by (auto simp: posted_by_def order_for_def request_of_def)
qed (simp_all add: posted_by_def)

lemma orders_of_wakes:
  "exec_fed fmt lims past begun e fl posted t \<Longrightarrow> \<exists>sources. subseq sources begun \<and> list_all2 order_for sources posted"
proof (induction rule: exec_fed.induct)
  case (boots e rows t)
  then show ?case by (auto intro: exI [of _ "[]"])
next
  case (fires begun e fl posted t rd m st e' calls)
  then obtain sources where s: "subseq sources begun" "list_all2 order_for sources posted" by blast
  from posted_for [OF fires.hyps(4)] show ?case
  proof
    assume "posted_by rd st = []"
    then show ?thesis using s by (auto intro: exI [of _ sources])
  next
    assume "\<exists>x. posted_by rd st = [x] \<and> order_for m x"
    then obtain x where "posted_by rd st = [x]" "order_for m x" by blast
    then show ?thesis using s
      by (intro exI [of _ "sources @ [m]"]) (simp add: list_all2_appendI list_emb_append_mono)
  qed
qed

lemma subseq_mset: "subseq xs ys \<Longrightarrow> mset xs \<subseteq># mset ys"
proof (induction rule: list_emb.induct)
  case (list_emb_Cons xs ys y)
  have "mset ys \<subseteq># mset (y # ys)" by simp
  with list_emb_Cons.IH show ?case by (rule subset_mset.order_trans)
qed simp_all

lemma image_mset_some: "image_mset Some A \<subseteq># image_mset Some B \<Longrightarrow> A \<subseteq># B"
  by (drule image_mset_subseteq_mono [of _ _ the]) (simp add: multiset.map_comp comp_def)

text \<open>From end to end: over any number of connections cut at any byte and any interleaving of the
  executor's work, each order on the wire is for a wake of its own among those offered to the
  poller, a real one, and carries its market, side, shard and group.\<close>
text \<open>C3. From end to end: over any number of connections cut at any byte and any interleaving of the
  executor's work, each order on the wire is for a wake of its own among those offered to the
  poller, a real one, and carries its market, side, shard and group.\<close>
theorem one_order_per_wake:
  assumes "client_run dumps loads n ms c"
    and "list_all2 (\<lambda>frames (rd, stream). prefix stream (concat frames)) (rev (cl_wire c)) received"
    and "\<forall>m \<in> set ms. loads (dumps (message_json m)) = Inr (message_json m) \<and>
      length (dumps (message_json m)) \<le> max_frame_bytes"
    and "exec_fed fmt lims past begun e fl posted t"
    and "mset (map Some begun) \<subseteq># mset (map message_of (executor_fires loads exc_text received))"
  shows "\<exists>sources. mset sources \<subseteq># mset ms \<and> list_all2 order_for sources posted"
proof -
  obtain sources where s: "subseq sources begun" "list_all2 order_for sources posted"
    using orders_of_wakes [OF assms(4)] by blast
  have "mset (map message_of (executor_fires loads exc_text received)) \<subseteq># mset (map Some ms)"
    by (rule subseq_mset [OF fires_are_offered [OF assms(1-3)]])
  then have "image_mset Some (mset begun) \<subseteq># image_mset Some (mset ms)"
    using assms(5) by (simp add: subset_mset.order_trans)
  then have "mset begun \<subseteq># mset ms" by (rule image_mset_some)
  then show ?thesis using s subseq_mset [OF s(1)] by (blast intro: subset_mset.order_trans)
qed

section \<open>Witness\<close>

lemma sample_received:
  "\<exists>d. executor_fires (\<lambda>_. Inr (message_json sample_message)) (\<lambda>_. []) [(sample_reading, framed [7]), (sample_reading, [])] = [d] \<and>
    message_of d = Some sample_message"
proof -
  let ?loads = "\<lambda>_. Inr (message_json sample_message)"
  have d: "fr_drains (sample_reading i)" for i by (simp add: sample_reading_def)
  have f: "encode_frame (\<lambda>_. [7]) (message_json sample_message) = Inr (framed [7])"
    by (simp add: encode_frame_def framed_def pack_u32_def)
  obtain fxs where "handle_connection ?loads (\<lambda>_. []) sample_reading ([], 0) (framed [7]) = (concat fxs, PeerClosed)"
      "length fxs = 1" "message_effects sample_message (sample_reading 0) (fxs ! 0)"
    using messages_handled [where ms = "[sample_message]" and frames = "[framed [7]]" and loads = ?loads
        and dumps = "\<lambda>_. [7]" and exc_text = "\<lambda>_. []" and rd = sample_reading] d f
    by (auto simp: max_frame_bytes_def)
  moreover have "handle_connection ?loads (\<lambda>_. []) sample_reading ([], 0) [] = ([], PeerClosed)"
    by (simp add: handle_connection_loop wire.get_end)
  ultimately show ?thesis
    by (cases fxs) (auto simp: executor_fires_def message_effects_def)
qed

theorem one_order_per_wake_witness:
  "\<exists>c e f. client_run (\<lambda>_. [7]) (\<lambda>_. Inr (message_json sample_message)) 4 [sample_message] c \<and>
    exec_fed plain_format (default_limits {0}) [] [sample_message] e [f] [(sample_order, 100000)] 100000 \<and>
    (\<exists>sources. mset sources \<subseteq># {#sample_message#} \<and> list_all2 order_for sources [(sample_order, 100000)])"
proof -
  obtain c where c: "client_run (\<lambda>_. [7]) (\<lambda>_. Inr (message_json sample_message)) 4 [sample_message] c"
      "cl_wire c = [[], [framed [7]]]"
    by (rule sample_client)
  obtain f e calls where s: "fire_begin plain_format (sample_fire None) sample_message sample_executor = (Waiting f, e, calls)"
      "posted_by (sample_fire None) (Waiting f) = [(sample_order, 100000)]"
    using sample_posted [OF sample_check] unfolding sample_fresh by blast
  have "exec_fed plain_format (default_limits {0}) [] [] sample_executor [] [] 0"
    by (rule exec_fed.boots [of _ _ "[]"]) (simp_all add: sample_executor_def)
  from exec_fed.fires [OF this _ _ s(1)] s(2)
  have run: "exec_fed plain_format (default_limits {0}) [] [sample_message] e [f] [(sample_order, 100000)] 100000"
    by (simp add: sample_fire_def suspended_by_def)
  obtain d where "executor_fires (\<lambda>_. Inr (message_json sample_message)) (\<lambda>_. [])
      [(sample_reading, framed [7]), (sample_reading, [])] = [d]" "message_of d = Some sample_message"
    using sample_received by blast
  then have "mset (map Some [sample_message]) \<subseteq># mset (map message_of (executor_fires (\<lambda>_. Inr (message_json sample_message))
      (\<lambda>_. []) [(sample_reading, framed [7]), (sample_reading, [])]))" by simp
  from one_order_per_wake [OF c(1) _ _ run this] c run show ?thesis
    by (auto simp: max_frame_bytes_def)
qed

end
