(* ===== verification/Draining.thy ===== *)
theory Draining
  imports Main
begin

text \<open>
  The contract of a shutdown: while it is under way every step lightens the load, and some step is
  possible as long as anything is left. Closing the executor's server and stopping the log listener
  are its interpretations.
\<close>

locale draining =
  fixes step :: "'s \<Rightarrow> 's \<Rightarrow> bool" and inv :: "'s \<Rightarrow> bool" and load :: "'s \<Rightarrow> nat" and drained :: "'s \<Rightarrow> bool"
  assumes keeps: "inv s \<Longrightarrow> step s s' \<Longrightarrow> inv s'"
    and lightens: "inv s \<Longrightarrow> step s s' \<Longrightarrow> load s' < load s"
    and busy: "inv s \<Longrightarrow> \<not> drained s \<Longrightarrow> \<exists>s'. step s s'"
begin

lemma inv_steps: "step\<^sup>*\<^sup>* s s' \<Longrightarrow> inv s \<Longrightarrow> inv s'"
  by (induction rule: rtranclp_induct) (auto intro: keeps)

text \<open>Every run is at most as long as the load.\<close>

lemma runs_are_bounded: "(step ^^ k) s s' \<Longrightarrow> inv s \<Longrightarrow> inv s' \<and> k + load s' \<le> load s"
proof (induction k arbitrary: s')
  case (Suc k)
  then obtain t where t: "(step ^^ k) s t" "step t s'" by auto
  then have "inv t \<and> k + load t \<le> load s" using Suc by blast
  then show ?case using t(2) keeps lightens [of t s'] by fastforce
qed simp

text \<open>A run that can go no further is drained, and from everywhere some run gets there.\<close>

lemma stuck_is_done: "step\<^sup>*\<^sup>* s s' \<Longrightarrow> inv s \<Longrightarrow> \<nexists>t. step s' t \<Longrightarrow> drained s'"
  using inv_steps busy by blast

lemma drains: "inv s \<Longrightarrow> \<exists>s'. step\<^sup>*\<^sup>* s s' \<and> drained s'"
proof (induction "load s" arbitrary: s rule: less_induct)
  case less
  show ?case
  proof (cases "drained s")
    case False
    then obtain t where "step s t" using busy less.prems by blast
    then show ?thesis using less.hyps [of t] less.prems keeps lightens by (meson converse_rtranclp_into_rtranclp)
  qed blast
qed

end

end
