(* ===== verification/Executor_Lifecycle.thy ===== *)
theory Executor_Lifecycle
  imports Executor_Connection Draining "HOL-Library.Multiset"
begin

text \<open>
  The life of \<open>ExecutorServer\<close>: \<open>serve_forever\<close>, the handlers of its connections, the fire tasks they
  spawn, and \<open>close\<close>. A state holds every connection with the bytes its handler has not read yet;
  the executor's own steps are told apart from those of its peers and of its caller.
\<close>

unbundle bit_operations_syntax

section \<open>State\<close>

text \<open>
  A connection waits in the listener's backlog, is accepted with its handler still to run, and is
  reading from then on, with its writer among \<open>_active_writers\<close>.
\<close>

datatype stage = Backlog | Accepted | Reading
datatype peer_class = Owner | GroupMember | Other

record peer_conn =
  cx_class :: peer_class
  cx_early :: bool  \<comment> \<open>connected before the mode of the socket was narrowed\<close>
  cx_stage :: stage
  cx_shut :: bool  \<comment> \<open>its writer was closed on this side\<close>
  cx_gone :: bool  \<comment> \<open>the peer has closed\<close>
  cx_inbox :: bytes

datatype server_phase = Idle | Bound | Serving | Closing | Finished

type_synonym mode = "9 word"

record server =
  sv_file :: "mode option"  \<comment> \<open>what is at the socket's path\<close>
  sv_phase :: server_phase
  sv_conns :: "peer_conn list"
  sv_fires :: "fire list"  \<comment> \<open>the tasks under way\<close>
  sv_fired :: "fire list"  \<comment> \<open>the tasks that have ended\<close>

definition new_server :: "mode option \<Rightarrow> server" where
  "new_server file = \<lparr>sv_file = file, sv_phase = Idle, sv_conns = [], sv_fires = [], sv_fired = []\<rparr>"

section \<open>Operations\<close>

text \<open>
  \<open>serve_forever\<close> in two parts: a file left at the path is unlinked and the socket is bound with the
  process umask, then its mode is narrowed. Binding would fail if the file were still there.
\<close>

definition unlink_stale :: "server \<Rightarrow> server" where
  "unlink_stale s = (if sv_file s \<noteq> None then s\<lparr>sv_file := None\<rparr> else s)"

definition start_unix_server :: "mode \<Rightarrow> server \<Rightarrow> server option" where
  "start_unix_server umask s =
     (if sv_file s \<noteq> None then None else Some (s\<lparr>sv_file := Some (0x1FF AND NOT umask), sv_phase := Bound\<rparr>))"

definition narrow_socket :: "server \<Rightarrow> server" where
  "narrow_socket s = s\<lparr>sv_file := Some 0x180, sv_phase := Serving\<rparr>"

text \<open>Connecting to a socket takes write permission.\<close>

definition may_connect :: "peer_class \<Rightarrow> mode \<Rightarrow> bool" where
  "may_connect cls m = bit m (case cls of Owner \<Rightarrow> 7 | GroupMember \<Rightarrow> 4 | Other \<Rightarrow> 1)"

definition newcomer :: "peer_class \<Rightarrow> server \<Rightarrow> peer_conn" where
  "newcomer cls s =
     \<lparr>cx_class = cls, cx_early = (sv_phase s = Bound), cx_stage = Backlog, cx_shut = False, cx_gone = False, cx_inbox = []\<rparr>"

text \<open>
  \<open>close\<close> up to its wait: the writers of the handlers that run are closed, and the listener with
  whatever is in its backlog. Without a listener there is nothing to wait for.
\<close>

definition close_server :: "server \<Rightarrow> server" where
  "close_server s =
     (let shut = map (\<lambda>c. if cx_stage c = Reading then c\<lparr>cx_shut := True\<rparr> else c) (sv_conns s)
      in if sv_phase s = Idle then s\<lparr>sv_conns := shut, sv_phase := Finished\<rparr>
         else s\<lparr>sv_conns := filter (\<lambda>c. cx_stage c \<noteq> Backlog) shut, sv_phase := Closing\<rparr>)"

section \<open>Steps\<close>

text \<open>
  What the event loop does by itself: accepting, starting a handler, one turn of a handler, the end
  of a fire task, and the return of \<open>wait_closed()\<close>, which waits for every handler. A reader whose
  connection is closed on either side still hands out the frames it has buffered.
\<close>

inductive own_step ::
    "(bytes \<Rightarrow> exc + jvalue) \<Rightarrow> (exc \<Rightarrow> string) \<Rightarrow> server \<Rightarrow> server \<Rightarrow> bool" for loads exc_text where
  accepts:
    "sv_phase s = Serving \<Longrightarrow> sv_conns s = xs @ c # ys \<Longrightarrow> cx_stage c = Backlog \<Longrightarrow>
     own_step loads exc_text s (s\<lparr>sv_conns := xs @ c\<lparr>cx_stage := Accepted\<rparr> # ys\<rparr>)"
| begins:
    "sv_conns s = xs @ c # ys \<Longrightarrow> cx_stage c = Accepted \<Longrightarrow>
     own_step loads exc_text s (s\<lparr>sv_conns := xs @ c\<lparr>cx_stage := Reading\<rparr> # ys\<rparr>)"
| handles:
    "sv_conns s = xs @ c # ys \<Longrightarrow> cx_stage c = Reading \<Longrightarrow> read_frame_body (cx_inbox c) = Inr (body, rest) \<Longrightarrow>
     handle_frame loads exc_text r body = (fx, True) \<Longrightarrow>
     own_step loads exc_text s (s\<lparr>sv_conns := xs @ c\<lparr>cx_inbox := rest\<rparr> # ys, sv_fires := sv_fires s @ fires_of fx\<rparr>)"
| aborts:
    "sv_conns s = xs @ c # ys \<Longrightarrow> cx_stage c = Reading \<Longrightarrow> read_frame_body (cx_inbox c) = Inr (body, rest) \<Longrightarrow>
     handle_frame loads exc_text r body = (fx, False) \<Longrightarrow>
     own_step loads exc_text s (s\<lparr>sv_conns := xs @ ys, sv_fires := sv_fires s @ fires_of fx\<rparr>)"
| rejects:
    "sv_conns s = xs @ c # ys \<Longrightarrow> cx_stage c = Reading \<Longrightarrow> read_frame_body (cx_inbox c) = Inl e \<Longrightarrow>
     e \<noteq> IncompleteRead \<Longrightarrow> own_step loads exc_text s (s\<lparr>sv_conns := xs @ ys\<rparr>)"
| finishes:
    "sv_conns s = xs @ c # ys \<Longrightarrow> cx_stage c = Reading \<Longrightarrow> read_frame_body (cx_inbox c) = Inl IncompleteRead \<Longrightarrow>
     cx_shut c \<or> cx_gone c \<Longrightarrow> own_step loads exc_text s (s\<lparr>sv_conns := xs @ ys\<rparr>)"
| fired:
    "sv_fires s = xs @ d # ys \<Longrightarrow>
     own_step loads exc_text s (s\<lparr>sv_fires := xs @ ys, sv_fired := sv_fired s @ [d]\<rparr>)"
| returns:
    "sv_phase s = Closing \<Longrightarrow> sv_conns s = [] \<Longrightarrow> own_step loads exc_text s (s\<lparr>sv_phase := Finished\<rparr>)"

text \<open>What its caller and its peers do.\<close>

inductive outer_step :: "server \<Rightarrow> server \<Rightarrow> bool" where
  serves: "sv_phase s = Idle \<Longrightarrow> start_unix_server umask (unlink_stale s) = Some s' \<Longrightarrow> outer_step s s'"
| narrows: "sv_phase s = Bound \<Longrightarrow> outer_step s (narrow_socket s)"
| connects: "sv_phase s \<in> {Bound, Serving} \<Longrightarrow> sv_file s = Some m \<Longrightarrow> may_connect cls m \<Longrightarrow>
    outer_step s (s\<lparr>sv_conns := sv_conns s @ [newcomer cls s]\<rparr>)"
| writes: "sv_conns s = xs @ c # ys \<Longrightarrow> \<not> cx_shut c \<Longrightarrow> \<not> cx_gone c \<Longrightarrow>
    outer_step s (s\<lparr>sv_conns := xs @ c\<lparr>cx_inbox := cx_inbox c @ bs\<rparr> # ys\<rparr>)"
| leaves: "sv_conns s = xs @ c # ys \<Longrightarrow> outer_step s (s\<lparr>sv_conns := xs @ c\<lparr>cx_gone := True\<rparr> # ys\<rparr>)"
| closes: "sv_phase s \<noteq> Bound \<Longrightarrow> outer_step s (close_server s)"

inductive server_run ::
    "(bytes \<Rightarrow> exc + jvalue) \<Rightarrow> (exc \<Rightarrow> string) \<Rightarrow> server \<Rightarrow> bool" for loads exc_text where
  idle: "server_run loads exc_text (new_server file)"
| own: "server_run loads exc_text s \<Longrightarrow> own_step loads exc_text s s' \<Longrightarrow> server_run loads exc_text s'"
| outer: "server_run loads exc_text s \<Longrightarrow> outer_step s s' \<Longrightarrow> server_run loads exc_text s'"

text \<open>A socket left by a crash does not keep the server from binding.\<close>

lemma serving_unlinks_first: "\<exists>s'. start_unix_server umask (unlink_stale s) = Some s' \<and> sv_phase s' = Bound"
  by (simp add: unlink_stale_def start_unix_server_def)

section \<open>Closing drains\<close>

lemma frame_bytes: "read_frame_body stream = Inr (body, rest) \<Longrightarrow> length rest + 4 \<le> length stream"
  by (auto simp: read_frame_body_def readexactly_def frame_length_bytes_def Let_def split: if_splits sum.splits)

lemma frame_fires: "handle_frame loads exc_text r body = (fx, goes_on) \<Longrightarrow> length (fires_of fx) \<le> 1"
  by (auto simp: handle_frame_def fires_of_def Let_def split: sum.splits if_splits option.splits)

definition conn_load :: "peer_conn \<Rightarrow> nat" where
  "conn_load c = length (cx_inbox c) + (case cx_stage c of Backlog \<Rightarrow> 4 | Accepted \<Rightarrow> 3 | Reading \<Rightarrow> 2)"

definition server_load :: "server \<Rightarrow> nat" where
  "server_load s = sum_list (map conn_load (sv_conns s)) + length (sv_fires s) + (if sv_phase s = Finished then 0 else 1)"

definition closing :: "server \<Rightarrow> bool" where
  "closing s \<longleftrightarrow> sv_phase s \<in> {Closing, Finished} \<and> list_all (\<lambda>c. cx_stage c = Reading \<and> cx_shut c) (sv_conns s) \<and>
     (sv_phase s = Finished \<longrightarrow> sv_conns s = [])"

definition server_drained :: "server \<Rightarrow> bool" where
  "server_drained s \<longleftrightarrow> sv_phase s = Finished \<and> sv_conns s = [] \<and> sv_fires s = []"

interpretation shutdown: draining "own_step loads exc_text" closing server_load server_drained for loads exc_text
proof
  fix s s'
  assume inv: "closing s" and "own_step loads exc_text s s'"
  from this(2) show "closing s'" by cases (use inv in \<open>auto simp: closing_def\<close>)
next
  fix s s'
  assume inv: "closing s" and "own_step loads exc_text s s'"
  from this(2) show "server_load s' < server_load s"
  proof cases
    case (handles xs c ys body rest r fx)
    then show ?thesis using frame_bytes [OF handles(4)] frame_fires [OF handles(5)]
      by (simp add: server_load_def conn_load_def)
  next
    case (aborts xs c ys body rest r fx)
    then show ?thesis using frame_fires [OF aborts(5)] by (simp add: server_load_def conn_load_def)
  qed (use inv in \<open>auto simp: server_load_def conn_load_def closing_def\<close>)
next
  fix s
  assume inv: "closing s" and "\<not> server_drained s"
  show "\<exists>s'. own_step loads exc_text s s'"
  proof (cases "sv_fires s")
    case (Cons d ds)
    then show ?thesis using own_step.fired [of s "[]" d ds] by auto
  next
    case Nil
    show ?thesis
    proof (cases "sv_conns s")
      case (Cons c cs)
      then have c: "sv_conns s = [] @ c # cs" "cx_stage c = Reading" "cx_shut c" using inv by (simp_all add: closing_def)
      show ?thesis
      proof (cases "read_frame_body (cx_inbox c)")
        case (Inl e)
        then show ?thesis using c own_step.rejects [OF c(1,2) Inl] own_step.finishes [OF c(1,2)]
          by (cases "e = IncompleteRead") blast+
      next
        case (Inr br)
        then obtain body rest fx goes_on where f: "read_frame_body (cx_inbox c) = Inr (body, rest)"
            "handle_frame loads exc_text undefined body = (fx, goes_on)"
          by (metis prod.exhaust_sel)
        show ?thesis
        proof (cases goes_on)
          case True
          then have "handle_frame loads exc_text undefined body = (fx, True)" using f(2) by simp
          from own_step.handles [OF c(1,2) f(1) this] show ?thesis ..
        next
          case False
          then have "handle_frame loads exc_text undefined body = (fx, False)" using f(2) by simp
          from own_step.aborts [OF c(1,2) f(1) this] show ?thesis ..
        qed
      qed
    next
      case none: Nil
      then show ?thesis using inv \<open>\<not> server_drained s\<close> Nil
        by (auto simp: closing_def server_drained_def intro: own_step.returns)
    qed
  qed
qed


lemma close_closes:
  assumes "sv_phase s \<noteq> Idle" "list_all (\<lambda>c. cx_stage c \<noteq> Accepted) (sv_conns s)"
  shows "closing (close_server s)"
proof -
  have "cx_stage c = Reading" if "c \<in> set (sv_conns s)" "cx_stage c \<noteq> Backlog" for c
    using that assms(2) by (cases "cx_stage c") (auto simp: list_all_iff)
  then show ?thesis using assms(1) by (fastforce simp: closing_def close_server_def Let_def list_all_iff)
qed

lemma fired_grows:
  assumes "own_step loads exc_text s s'"
  shows "mset (sv_fired s @ sv_fires s) \<subseteq># mset (sv_fired s' @ sv_fires s')"
  using assms by cases (simp_all add: mset_subset_eq_add_left)

lemma fired_grows_run:
  "(own_step loads exc_text)\<^sup>*\<^sup>* s s' \<Longrightarrow> mset (sv_fired s @ sv_fires s) \<subseteq># mset (sv_fired s' @ sv_fires s')"
  by (induction rule: rtranclp_induct) (blast intro: fired_grows subset_mset.order_trans subset_mset.order_refl)+

text \<open>Once \<open>close\<close> is called on a server whose handlers have all begun to read, the executor gets done by
  itself: its steps run out within the load it had, whatever its peers do not do, and when none is
  left \<open>close\<close> has returned, no connection is open and every fire accepted before or meanwhile has
  run to its end.\<close>

section \<open>A connection whose handler has not begun\<close>

text \<open>
  \<open>_active_writers\<close> holds the writers of handlers that run, so a connection accepted in the same turn
  of the event loop as \<open>close\<close> is not closed, and \<open>wait_closed()\<close> waits for its peer.
\<close>

definition lingers :: "server \<Rightarrow> bool" where
  "lingers s \<longleftrightarrow> sv_phase s = Closing \<and>
     (\<exists>c \<in> set (sv_conns s). cx_stage c \<noteq> Backlog \<and> \<not> cx_shut c \<and> \<not> cx_gone c \<and> cx_inbox c = [])"

lemma read_nothing: "read_frame_body [] = Inl IncompleteRead"
  by (rule wire.get_end)

lemma lingers_step:
  assumes "lingers s" "own_step loads exc_text s s'"
  shows "lingers s'"
  using assms(2)
proof cases
  case returns
  then show ?thesis using assms(1) by (simp add: lingers_def)
next
  case (begins xs c ys)
  then show ?thesis using assms(1) by (auto simp: lingers_def)
qed (use assms(1) read_nothing in \<open>auto simp: lingers_def\<close>)

lemma lingers_run: "(own_step loads exc_text)\<^sup>*\<^sup>* s s' \<Longrightarrow> lingers s \<Longrightarrow> lingers s'"
  by (induction rule: rtranclp_induct) (auto intro: lingers_step)

text \<open>A peer that connects just before \<open>close\<close> and then says nothing keeps it from returning: whatever the
  executor does by itself the connection stays open, and a wake sent on it even then still fires.\<close>
text \<open>C21. A peer that connects just before close() and then says nothing keeps it from returning:
  whatever the executor does by itself the connection stays open, and a wake sent on it even then
  still fires.\<close>
theorem newcomer_outlives_close:
  assumes "sv_phase s = Serving" "c \<in> set (sv_conns s)" "cx_stage c = Accepted" "\<not> cx_shut c" "\<not> cx_gone c" "cx_inbox c = []"
    and "(own_step loads exc_text)\<^sup>*\<^sup>* (close_server s) s'"
    and "fits_frame body" "handle_frame loads exc_text r body = (fx, True)"
  shows "sv_phase s' = Closing \<and>
    (\<exists>t u. outer_step s' t \<and> (own_step loads exc_text)\<^sup>*\<^sup>* t u \<and> sv_fires u = sv_fires s' @ fires_of fx)"
proof -
  have "c \<in> set (sv_conns (close_server s))"
    using assms(1-3) by (force simp: close_server_def Let_def image_iff)
  then have "lingers (close_server s)"
    using assms(1-6) by (auto simp: lingers_def close_server_def Let_def)
  then have closing: "sv_phase s' = Closing" and "\<exists>c' \<in> set (sv_conns s'). cx_stage c' \<noteq> Backlog \<and> \<not> cx_shut c' \<and> \<not> cx_gone c' \<and> cx_inbox c' = []"
    using lingers_run [OF assms(7)] by (simp_all add: lingers_def)
  then obtain c' xs ys where c': "sv_conns s' = xs @ c' # ys" "cx_stage c' \<noteq> Backlog" "\<not> cx_shut c'" "\<not> cx_gone c'" "cx_inbox c' = []"
    by (auto simp: in_set_conv_decomp)
  let ?sent = "c'\<lparr>cx_inbox := framed body\<rparr>"
  let ?t = "s'\<lparr>sv_conns := xs @ ?sent # ys\<rparr>"
  have sends: "outer_step s' ?t" using outer_step.writes [OF c'(1,3,4), of "framed body"] c'(5) by simp
  have begun: "(own_step loads exc_text)\<^sup>*\<^sup>* ?t (s'\<lparr>sv_conns := xs @ ?sent\<lparr>cx_stage := Reading\<rparr> # ys\<rparr>)"
  proof (cases "cx_stage c'")
    case Accepted
    then show ?thesis using own_step.begins [of ?t xs ?sent ys] by (simp add: r_into_rtranclp)
  next
    case Reading
    then have "?sent = ?sent\<lparr>cx_stage := Reading\<rparr>" by simp
    then show ?thesis by (metis rtranclp.rtrancl_refl)
  qed (use c'(2) in simp)
  have "read_frame_body (framed body) = Inr (body, [])" using wire.get_put [OF assms(8), of "[]"] by simp
  then have "own_step loads exc_text (s'\<lparr>sv_conns := xs @ ?sent\<lparr>cx_stage := Reading\<rparr> # ys\<rparr>)
      (s'\<lparr>sv_conns := xs @ ?sent\<lparr>cx_stage := Reading, cx_inbox := []\<rparr> # ys, sv_fires := sv_fires s' @ fires_of fx\<rparr>)"
    using own_step.handles [of "s'\<lparr>sv_conns := xs @ ?sent\<lparr>cx_stage := Reading\<rparr> # ys\<rparr>" xs "?sent\<lparr>cx_stage := Reading\<rparr>" ys
        body "[]" loads exc_text r fx] assms(9) by simp
  note fires = rtranclp.rtrancl_into_rtrancl [OF begun this]
  show ?thesis by (intro conjI exI, rule closing, rule sends, rule fires) simp
qed

section \<open>Who may connect\<close>

lemma own_step_conns:
  assumes "own_step loads exc_text s s'"
  shows "sv_file s' = sv_file s \<and> (sv_phase s' = sv_phase s \<or> sv_phase s' = Finished) \<and>
    (\<forall>c' \<in> set (sv_conns s'). \<exists>c \<in> set (sv_conns s). cx_class c' = cx_class c \<and> cx_early c' = cx_early c)"
  using assms by cases fastforce+

definition owner_inv :: "server \<Rightarrow> bool" where
  "owner_inv s \<longleftrightarrow> (\<forall>c \<in> set (sv_conns s). cx_class c = Owner \<or> cx_early c) \<and> (sv_phase s = Serving \<longrightarrow> sv_file s = Some 0x180)"

lemma owner_only: "may_connect cls 0x180 \<longleftrightarrow> cls = Owner"
  by (cases cls) (simp_all add: may_connect_def)

text \<open>Once the mode of the socket is narrowed only its owner connects: every connection of another user
  was made in the moment between binding the socket and narrowing it.\<close>
theorem only_the_owner_connects:
  assumes "server_run loads exc_text s"
  shows "\<forall>c \<in> set (sv_conns s). cx_class c = Owner \<or> cx_early c"
proof -
  have "owner_inv s" using assms
  proof induction
    case (own s s')
    then show ?case using own_step_conns [OF own.hyps(2)] by (fastforce simp: owner_inv_def)
  next
    case (outer s s')
    from outer.hyps(2) show ?case
    proof cases
      case (connects m cls)
      then show ?thesis using outer.IH owner_only by (auto simp: owner_inv_def newcomer_def)
    next
      case (serves umask)
      then show ?thesis using outer.IH
        by (auto simp: owner_inv_def start_unix_server_def unlink_stale_def split: if_splits)
    qed (use outer.IH in \<open>auto simp: owner_inv_def narrow_socket_def close_server_def Let_def\<close>)
  qed (simp add: owner_inv_def new_server_def)
  then show ?thesis by (simp add: owner_inv_def)
qed

section \<open>Witnesses\<close>

definition sample_peer :: "stage \<Rightarrow> bytes \<Rightarrow> peer_conn" where
  "sample_peer g inbox = \<lparr>cx_class = Owner, cx_early = False, cx_stage = g, cx_shut = False, cx_gone = False, cx_inbox = inbox\<rparr>"

definition sample_server :: "peer_conn list \<Rightarrow> server" where
  "sample_server cs = \<lparr>sv_file = Some 0x180, sv_phase = Serving, sv_conns = cs, sv_fires = [], sv_fired = []\<rparr>"


theorem newcomer_outlives_close_witness:
  "\<exists>d t u. outer_step (close_server (sample_server [sample_peer Accepted []])) t \<and>
    (own_step (\<lambda>_. Inr (message_json sample_message)) (\<lambda>_. []))\<^sup>*\<^sup>* t u \<and> sv_fires u = [d] \<and> message_of d = Some sample_message"
proof -
  let ?s = "sample_server [sample_peer Accepted []]"
  have d: "fr_drains (sample_reading 0)" by (simp add: sample_reading_def)
  obtain fx where fx: "handle_frame (\<lambda>_. Inr (message_json sample_message)) (\<lambda>_. []) (sample_reading 0) [7] = (fx, True)"
      "message_effects sample_message (sample_reading 0) fx"
    using handle_message [where loads = "\<lambda>_. Inr (message_json sample_message)" and body = "[7]", OF refl d] by blast
  have s: "sv_phase ?s = Serving" "sample_peer Accepted [] \<in> set (sv_conns ?s)" "cx_stage (sample_peer Accepted []) = Accepted"
      "\<not> cx_shut (sample_peer Accepted [])" "\<not> cx_gone (sample_peer Accepted [])" "cx_inbox (sample_peer Accepted []) = []"
    by (simp_all add: sample_server_def sample_peer_def)
  have "fits_frame [7]" by (simp add: fits_frame_def max_frame_bytes_def)
  note newcomer_outlives_close [OF s rtranclp.rtrancl_refl this fx(1)]
  moreover have "sv_fires (close_server ?s) = []" by (simp add: close_server_def sample_server_def)
  moreover obtain d where "fires_of fx = [d]" "message_of d = Some sample_message"
    using fx(2) by (auto simp: message_effects_def)
  ultimately show ?thesis by auto
qed

theorem only_the_owner_connects_witness:
  "\<exists>s. server_run (\<lambda>_. Inl ValueError) (\<lambda>_. []) s \<and> sv_conns s \<noteq> [] \<and> (\<forall>c \<in> set (sv_conns s). cx_class c = Owner \<or> cx_early c)"
proof -
  let ?run = "server_run (\<lambda>_. Inl ValueError) (\<lambda>_. [])"
  obtain s1 where s1: "start_unix_server 0x12 (unlink_stale (new_server (Some 0x180))) = Some s1" "sv_phase s1 = Bound"
    using serving_unlinks_first by blast
  have "?run s1" by (rule server_run.outer [OF server_run.idle outer_step.serves [OF _ s1(1)]]) (simp add: new_server_def)
  from server_run.outer [OF this outer_step.narrows [OF s1(2)]] have r2: "?run (narrow_socket s1)" .
  let ?s = "narrow_socket s1"
  have "may_connect Owner 0x180" by (simp add: owner_only)
  then have "?run (?s\<lparr>sv_conns := sv_conns ?s @ [newcomer Owner ?s]\<rparr>)"
    by (intro server_run.outer [OF r2 outer_step.connects]) (simp_all add: narrow_socket_def)
  from this only_the_owner_connects [OF this] show ?thesis by fastforce
qed

end
