(* ===== verification/Single_Instance.thy ===== *)
theory Single_Instance
  imports Prelude
begin

text \<open>
  \<open>runtime/single_instance.py\<close>: an exclusive non-blocking \<open>flock\<close> on a named file. The kernel's side
  is modelled as POSIX describes it: a path names an inode, every \<open>open\<close> makes a new descriptor on
  the inode, an inode has at most one exclusive lock holder, and closing a descriptor drops its
  lock. One path and any number of lock objects, each in a process of its own.
\<close>

type_synonym fd = nat
type_synonym inode = nat

record kernel =
  path_inode :: "inode option"
  next_inode :: inode
  next_fd :: fd
  fd_inode :: "fd \<rightharpoonup> inode"
  lock_holder :: "inode \<rightharpoonup> fd"
  lock_text :: "inode \<rightharpoonup> string"

definition boot_kernel :: kernel where
  "boot_kernel = \<lparr>path_inode = None, next_inode = 0, next_fd = 0, fd_inode = Map.empty,
     lock_holder = Map.empty, lock_text = Map.empty\<rparr>"

text \<open>\<open>os.open(path, O_RDWR | O_CREAT)\<close>.\<close>

definition sys_open :: "kernel \<Rightarrow> fd \<times> kernel" where
  "sys_open k =
     (let (ino, k1) = (case path_inode k of
            Some i \<Rightarrow> (i, k)
          | None \<Rightarrow> (next_inode k, k\<lparr>path_inode := Some (next_inode k), next_inode := next_inode k + 1\<rparr>))
      in (next_fd k1, k1\<lparr>next_fd := next_fd k1 + 1, fd_inode := (fd_inode k1)(next_fd k1 \<mapsto> ino)\<rparr>))"

text \<open>\<open>flock(fd, LOCK_EX | LOCK_NB)\<close>: \<open>None\<close> for the \<open>OSError\<close>.\<close>

definition sys_flock :: "fd \<Rightarrow> kernel \<Rightarrow> kernel option" where
  "sys_flock f k =
     (case fd_inode k f of
        None \<Rightarrow> None
      | Some i \<Rightarrow>
          (case lock_holder k i of
             None \<Rightarrow> Some (k\<lparr>lock_holder := (lock_holder k)(i \<mapsto> f)\<rparr>)
           | Some h \<Rightarrow> if h = f then Some k else None))"

definition sys_unlock :: "fd \<Rightarrow> kernel \<Rightarrow> kernel" where
  "sys_unlock f k =
     (case fd_inode k f of
        None \<Rightarrow> k
      | Some i \<Rightarrow> if lock_holder k i = Some f then k\<lparr>lock_holder := (lock_holder k)(i := None)\<rparr> else k)"

definition sys_close :: "fd \<Rightarrow> kernel \<Rightarrow> kernel" where
  "sys_close f k = (let k1 = sys_unlock f k in k1\<lparr>fd_inode := (fd_inode k1)(f := None)\<rparr>)"

text \<open>\<open>os.ftruncate(fd, 0)\<close> followed by \<open>os.write\<close>.\<close>

definition sys_write :: "fd \<Rightarrow> string \<Rightarrow> kernel \<Rightarrow> kernel" where
  "sys_write f txt k =
     (case fd_inode k f of None \<Rightarrow> k | Some i \<Rightarrow> k\<lparr>lock_text := (lock_text k)(i \<mapsto> txt)\<rparr>)"

section \<open>The lock object\<close>

text \<open>The object's only state is its descriptor. \<open>Inl\<close> is \<open>AlreadyRunningError\<close>.\<close>

type_synonym lock = "fd option"

definition lock_acquire :: "int \<Rightarrow> lock \<Rightarrow> kernel \<Rightarrow> (exc + lock) \<times> kernel" where
  "lock_acquire pid l k =
     (let (f, k1) = sys_open k
      in case sys_flock f k1 of
           None \<Rightarrow> (Inl RuntimeError, sys_close f k1)
         | Some k2 \<Rightarrow> (Inr (Some f), sys_write f (int_text pid @ [CHR 0x0A]) k2))"

definition lock_release :: "lock \<Rightarrow> kernel \<Rightarrow> lock \<times> kernel" where
  "lock_release l k = (case l of None \<Rightarrow> (None, k) | Some f \<Rightarrow> (None, sys_close f (sys_unlock f k)))"

definition lock_held :: "lock \<Rightarrow> bool" where
  "lock_held l \<longleftrightarrow> l \<noteq> None"

section \<open>Mutual exclusion\<close>

text \<open>
  Worlds of lock objects, numbered by their process. Any of them may acquire, release or die; the
  kernel closes the descriptors of a dead process.
\<close>

type_synonym world = "(nat \<Rightarrow> lock) \<times> kernel"

inductive world_run :: "world \<Rightarrow> bool" where
  boot: "world_run (\<lambda>_. None, boot_kernel)"
| acquired: "world_run (ls, k) \<Longrightarrow> lock_acquire pid (ls i) k = (Inr l, k') \<Longrightarrow> world_run (ls(i := l), k')"
| refused: "world_run (ls, k) \<Longrightarrow> lock_acquire pid (ls i) k = (Inl e, k') \<Longrightarrow> world_run (ls, k')"
| released: "world_run (ls, k) \<Longrightarrow> lock_release (ls i) k = (l, k') \<Longrightarrow> world_run (ls(i := l), k')"
| died: "world_run (ls, k) \<Longrightarrow> ls i = Some f \<Longrightarrow> world_run (ls(i := None), sys_close f k)"

definition world_inv :: "world \<Rightarrow> bool" where
  "world_inv w \<longleftrightarrow>
     (\<forall>i f. fst w i = Some f \<longrightarrow> (\<exists>ino. path_inode (snd w) = Some ino \<and>
        fd_inode (snd w) f = Some ino \<and> lock_holder (snd w) ino = Some f)) \<and>
     (\<forall>i j f. fst w i = Some f \<longrightarrow> fst w j = Some f \<longrightarrow> i = j) \<and>
     (\<forall>f ino. fd_inode (snd w) f = Some ino \<longrightarrow> f < next_fd (snd w) \<and> path_inode (snd w) = Some ino) \<and>
     (\<forall>ino h. lock_holder (snd w) ino = Some h \<longrightarrow> (\<exists>i. fst w i = Some h) \<and> fd_inode (snd w) h = Some ino)"

lemmas sys_defs = sys_open_def sys_flock_def sys_unlock_def sys_close_def sys_write_def Let_def

lemma wi_held: "world_inv (ls, k) \<Longrightarrow> ls i = Some f \<Longrightarrow>
    \<exists>ino. path_inode k = Some ino \<and> fd_inode k f = Some ino \<and> lock_holder k ino = Some f"
  unfolding world_inv_def fst_conv snd_conv by blast

lemma wi_inj: "world_inv (ls, k) \<Longrightarrow> ls i = Some f \<Longrightarrow> ls j = Some f \<Longrightarrow> i = j"
  unfolding world_inv_def fst_conv snd_conv by blast

lemma wi_fd: "world_inv (ls, k) \<Longrightarrow> fd_inode k f = Some ino \<Longrightarrow> f < next_fd k \<and> path_inode k = Some ino"
  unfolding world_inv_def fst_conv snd_conv by blast

lemma wi_lock: "world_inv (ls, k) \<Longrightarrow> lock_holder k ino = Some h \<Longrightarrow>
    (\<exists>i. ls i = Some h) \<and> fd_inode k h = Some ino"
  unfolding world_inv_def fst_conv snd_conv by blast

lemma wi_free: "world_inv (ls, k) \<Longrightarrow> \<forall>j. ls j = None \<Longrightarrow> lock_holder k ino = None"
  using wi_lock [of ls k ino] by (cases "lock_holder k ino") auto

lemma wi_taken: "world_inv (ls, k) \<Longrightarrow> ls i = Some f \<Longrightarrow> lock_holder k ino = None \<Longrightarrow> path_inode k \<noteq> Some ino"
  using wi_held by fastforce

lemma wi_no_path: "world_inv (ls, k) \<Longrightarrow> path_inode k = None \<Longrightarrow> ls i = None \<and> fd_inode k f = None"
  using wi_held [of ls k i] wi_fd [of ls k f] by (cases "ls i"; cases "fd_inode k f") auto

lemma wi_fresh: "world_inv (ls, k) \<Longrightarrow> fd_inode k (next_fd k) = None \<and> lock_holder k ino \<noteq> Some (next_fd k)"
  using wi_fd [of ls k "next_fd k"] wi_lock [of ls k ino "next_fd k"]
  by (cases "fd_inode k (next_fd k)") auto

text \<open>The inode an acquire opens, and what it does when that inode is free and when it is locked.\<close>

definition target :: "kernel \<Rightarrow> inode" where
  "target k = (case path_inode k of Some i \<Rightarrow> i | None \<Rightarrow> next_inode k)"

lemma acquire_free:
  assumes "lock_holder k (target k) = None"
  shows "\<exists>k'. lock_acquire pid l k = (Inr (Some (next_fd k)), k') \<and> path_inode k' = Some (target k) \<and>
    next_fd k' = next_fd k + 1 \<and> fd_inode k' = (fd_inode k)(next_fd k \<mapsto> target k) \<and>
    lock_holder k' = (lock_holder k)(target k \<mapsto> next_fd k)"
  using assms by (cases "path_inode k") (simp_all add: lock_acquire_def sys_defs target_def)

lemma acquire_locked:
  assumes "lock_holder k (target k) = Some h" "h \<noteq> next_fd k" "fd_inode k (next_fd k) = None"
  shows "\<exists>k'. lock_acquire pid l k = (Inl RuntimeError, k') \<and> path_inode k' = Some (target k) \<and>
    next_fd k' = next_fd k + 1 \<and> fd_inode k' = fd_inode k \<and> lock_holder k' = lock_holder k"
  using assms by (cases "path_inode k") (auto simp: lock_acquire_def sys_defs target_def)

lemma world_inv_free:
  assumes "world_inv (ls, k)" "lock_holder k (target k) = None"
  shows "\<forall>j. ls j = None"
proof
  fix j
  show "ls j = None"
    using wi_held [OF assms(1), of j] assms(2) by (cases "ls j") (auto simp: target_def)
qed

lemma world_inv_acquire:
  assumes I: "world_inv (ls, k)" and a: "lock_acquire pid (ls i) k = (r, k')"
  shows "world_inv (case r of Inl e \<Rightarrow> ls | Inr l \<Rightarrow> ls(i := l), k')"
proof (cases "lock_holder k (target k)")
  case None
  have none: "\<forall>j. ls j = None" using I None by (rule world_inv_free)
  have fds: "fd_inode k f = Some ino \<Longrightarrow> f < next_fd k \<and> ino = target k" for f ino
    using wi_fd [OF I, of f ino] by (simp add: target_def)
  have k': "r = Inr (Some (next_fd k))" "path_inode k' = Some (target k)" "next_fd k' = next_fd k + 1"
      "fd_inode k' = (fd_inode k)(next_fd k \<mapsto> target k)"
      "lock_holder k' = (lock_holder k)(target k \<mapsto> next_fd k)"
    using acquire_free [OF None, of pid "ls i"] a by auto
  show ?thesis unfolding world_inv_def fst_conv snd_conv k' sum.case
    using none fds wi_free [OF I none] by (auto dest: fds split: if_splits)
next
  case (Some h)
  have h: "h \<noteq> next_fd k" "fd_inode k (next_fd k) = None" "path_inode k = Some (target k)"
    using wi_fresh [OF I] wi_lock [OF I Some] wi_fd [OF I, of h] Some by auto
  have k': "r = Inl RuntimeError" "path_inode k' = path_inode k" "next_fd k' = next_fd k + 1"
      "fd_inode k' = fd_inode k" "lock_holder k' = lock_holder k"
    using acquire_locked [OF Some h(1,2), of pid "ls i"] a h(3) by auto
  show ?thesis unfolding world_inv_def fst_conv snd_conv k' sum.case
    using wi_held [OF I] wi_inj [OF I] wi_fd [OF I] wi_lock [OF I] by (simp, metis less_SucI)
qed

lemma close_held:
  assumes "fd_inode k f = Some ino" "lock_holder k ino = Some f"
  shows "path_inode (sys_close f k) = path_inode k" "next_fd (sys_close f k) = next_fd k"
    "fd_inode (sys_close f k) = (fd_inode k)(f := None)"
    "lock_holder (sys_close f k) = (lock_holder k)(ino := None)"
  using assms by (simp_all add: sys_defs)

lemma world_inv_close:
  assumes I: "world_inv (ls, k)" and l: "ls i = Some f"
  shows "world_inv (ls(i := None), sys_close f k)"
proof -
  obtain ino where ino: "path_inode k = Some ino" "fd_inode k f = Some ino" "lock_holder k ino = Some f"
    using wi_held [OF I l] by blast
  have others: "ls j = None" if "j \<noteq> i" for j
    using wi_held [OF I, of j] wi_inj [OF I l, of j] ino that by (cases "ls j") auto
  have locks: "lock_holder k m = Some h \<Longrightarrow> m = ino" for m h
    using wi_lock [OF I, of m h] wi_fd [OF I, of h m] ino by auto
  have free: "((lock_holder k)(ino := None)) m = None" for m
    using locks [of m] by (cases "lock_holder k m") auto
  have none: "(ls(i := None)) j = None" for j using others by simp
  show ?thesis unfolding world_inv_def fst_conv snd_conv close_held [OF ino(2,3)] none free
    using wi_fd [OF I] by simp
qed

lemma release_close:
  assumes "world_inv (ls, k)" "ls i = Some f"
  shows "lock_release (ls i) k = (None, sys_close f k)"
proof -
  obtain ino where "fd_inode k f = Some ino" "lock_holder k ino = Some f"
    using wi_held [OF assms] by blast
  then show ?thesis using assms(2) by (simp add: lock_release_def sys_defs)
qed

lemma world_run_inv: "world_run w \<Longrightarrow> world_inv w"
proof (induction rule: world_run.induct)
  case boot
  then show ?case by (simp add: world_inv_def boot_kernel_def)
next
  case (acquired ls k pid i l k')
  then show ?case using world_inv_acquire by fastforce
next
  case (refused ls k pid i e k')
  then show ?case using world_inv_acquire by fastforce
next
  case (released ls k i l k')
  show ?case
  proof (cases "ls i")
    case None
    then show ?thesis using released by (auto simp: lock_release_def fun_upd_idem)
  next
    case (Some f)
    then show ?thesis
      using released release_close [OF released.IH Some] world_inv_close [OF released.IH Some] by simp
  qed
next
  case (died ls k i f)
  then show ?case by (intro world_inv_close)
qed

lemma world_inv_exclusive:
  assumes "world_run (ls, k)" "lock_held (ls i)" "lock_held (ls j)"
  shows "i = j"
proof -
  have I: "world_inv (ls, k)" using assms(1) by (rule world_run_inv)
  obtain f g where fg: "ls i = Some f" "ls j = Some g" using assms(2,3) by (auto simp: lock_held_def)
  then have "f = g" using wi_held [OF I fg(1)] wi_held [OF I fg(2)] by auto
  then show ?thesis using wi_inj [OF I] fg by blast
qed

text \<open>C29. At no time do two lock objects hold the same lock, over any sequence of acquires, refusals,
  releases and process deaths.\<close>
theorem lock_is_exclusive:
  assumes "world_run (ls, k)" "lock_held (ls i)" "lock_held (ls j)"
  shows "i = j"
  using assms by (rule world_inv_exclusive)

text \<open>
  A refusal happens only while somebody holds the lock, and a holder's death or release frees it:
  with no holder, the next acquire succeeds, whatever is left in the file.
\<close>

text \<open>An acquire succeeds exactly when nobody holds the lock: whatever a crashed process left in
  the file does not matter.\<close>
theorem acquire_succeeds_iff_free:
  assumes "world_run (ls, k)"
  shows "(\<exists>l k'. lock_acquire pid (ls i) k = (Inr l, k') \<and> lock_held l) \<longleftrightarrow> (\<forall>j. \<not> lock_held (ls j))"
proof -
  have I: "world_inv (ls, k)" using assms by (rule world_run_inv)
  show ?thesis
  proof (cases "lock_holder k (target k)")
    case None
    then show ?thesis
      using world_inv_free [OF I None] acquire_free [OF None, of pid "ls i"] by (auto simp: lock_held_def)
  next
    case (Some h)
    have "\<exists>i. ls i = Some h" using wi_lock [OF I Some] by blast
    moreover have "h \<noteq> next_fd k" "fd_inode k (next_fd k) = None" using wi_fresh [OF I] Some by auto
    ultimately show ?thesis
      using acquire_locked [OF Some, of pid "ls i"] by (auto simp: lock_held_def)
  qed
qed

lemma sample_world:
  "world_run ((\<lambda>_. None)(7 := Some 0), snd (lock_acquire 41 None boot_kernel))"
proof -
  have "lock_acquire 41 ((\<lambda>_. None) 7) boot_kernel = (Inr (Some 0), snd (lock_acquire 41 None boot_kernel))"
    by (simp add: lock_acquire_def sys_defs boot_kernel_def)
  then show ?thesis by (rule world_run.acquired [OF world_run.boot])
qed

theorem lock_is_exclusive_witness:
  "lock_held (((\<lambda>_. None)(7 := Some 0)) (7 :: nat)) \<and> (7 :: nat) = 7"
  using lock_is_exclusive [OF sample_world, of 7 7] by (simp add: lock_held_def)

theorem acquire_succeeds_iff_free_witness:
  "\<not> (\<exists>l k'. lock_acquire 42 (((\<lambda>_. None)(7 := Some 0)) (8 :: nat)) (snd (lock_acquire 41 None boot_kernel)) = (Inr l, k') \<and> lock_held l)"
  using acquire_succeeds_iff_free [OF sample_world, of 42 8] by (auto simp: lock_held_def)

end
