(* ===== verification/Executor_Process.thy ===== *)
theory Executor_Process
  imports Single_Instance
begin

text \<open>
  Executors sharing one socket path: \<open>serve_forever\<close> unlinks whatever is at the path, which is safe
  because it runs inside \<open>with SingleInstanceLock(...)\<close>. The lock is the one of \<open>Single_Instance\<close>, the
  path names the process that bound it last.
\<close>

section \<open>The lock as a context manager\<close>

definition lock_enter :: "int \<Rightarrow> lock \<Rightarrow> kernel \<Rightarrow> (exc + lock) \<times> kernel" where
  "lock_enter pid l k = lock_acquire pid l k"

text \<open>\<open>__exit__\<close> runs whether or not the body raised, and does not swallow its exception.\<close>

definition lock_exit :: "lock \<Rightarrow> kernel \<Rightarrow> lock \<times> kernel" where
  "lock_exit l k = lock_release l k"

section \<open>Processes on one path\<close>

record site =
  st_locks :: "nat \<Rightarrow> lock"
  st_kernel :: kernel
  st_serving :: "nat set"
  st_path :: "nat option"

text \<open>\<open>serve_forever\<close> as others see it: the file at the path goes, and the path names the new socket.\<close>

definition bind_path :: "nat \<Rightarrow> site \<Rightarrow> site" where
  "bind_path i s =
     (let s1 = (if st_path s \<noteq> None then s\<lparr>st_path := None\<rparr> else s)
      in s1\<lparr>st_path := Some i, st_serving := insert i (st_serving s1)\<rparr>)"

text \<open>
  A process serves inside the body of its \<open>with\<close> statement, and has closed its server when it leaves
  it. Death takes the lock and the listener and leaves the socket's file behind.
\<close>

inductive site_run :: "site \<Rightarrow> bool" where
  boots: "site_run \<lparr>st_locks = (\<lambda>_. None), st_kernel = boot_kernel, st_serving = {}, st_path = left\<rparr>"
| enters: "site_run s \<Longrightarrow> lock_enter pid (st_locks s i) (st_kernel s) = (Inr l, k) \<Longrightarrow>
    site_run (s\<lparr>st_locks := (st_locks s)(i := l), st_kernel := k\<rparr>)"
| refused: "site_run s \<Longrightarrow> lock_enter pid (st_locks s i) (st_kernel s) = (Inl e, k) \<Longrightarrow> site_run (s\<lparr>st_kernel := k\<rparr>)"
| serves: "site_run s \<Longrightarrow> lock_held (st_locks s i) \<Longrightarrow> site_run (bind_path i s)"
| stops: "site_run s \<Longrightarrow> site_run (s\<lparr>st_serving := st_serving s - {i}\<rparr>)"
| exits: "site_run s \<Longrightarrow> i \<notin> st_serving s \<Longrightarrow> lock_exit (st_locks s i) (st_kernel s) = (l, k) \<Longrightarrow>
    site_run (s\<lparr>st_locks := (st_locks s)(i := l), st_kernel := k\<rparr>)"
| dies: "site_run s \<Longrightarrow> st_locks s i = Some f \<Longrightarrow>
    site_run (s\<lparr>st_locks := (st_locks s)(i := None), st_kernel := sys_close f (st_kernel s), st_serving := st_serving s - {i}\<rparr>)"

definition site_inv :: "site \<Rightarrow> bool" where
  "site_inv s \<longleftrightarrow> world_run (st_locks s, st_kernel s) \<and>
     (\<forall>i \<in> st_serving s. lock_held (st_locks s i) \<and> st_path s = Some i)"

lemma entered: "lock_enter pid l k = (Inr l', k') \<Longrightarrow> lock_held l'"
  by (auto simp: lock_enter_def lock_acquire_def lock_held_def split: prod.splits option.splits)

lemma site_inv_run: "site_run s \<Longrightarrow> site_inv s"
proof (induction rule: site_run.induct)
  case (boots left)
  then show ?case by (simp add: site_inv_def world_run.boot)
next
  case (enters s pid i l k)
  then show ?case using world_run.acquired [of "st_locks s" "st_kernel s" pid i l k] entered [OF enters.hyps(2)]
    by (auto simp: site_inv_def lock_enter_def)
next
  case (refused s pid i e k)
  then show ?case using world_run.refused [of "st_locks s" "st_kernel s" pid i e k] by (auto simp: site_inv_def lock_enter_def)
next
  case (serves s i)
  have "j = i" if "j \<in> st_serving s" for j
    using that serves world_inv_exclusive [of "st_locks s" "st_kernel s" j i] by (auto simp: site_inv_def)
  then show ?case using serves by (auto simp: site_inv_def bind_path_def Let_def)
next
  case (exits s i l k)
  then show ?case using world_run.released [of "st_locks s" "st_kernel s" i l k] by (auto simp: site_inv_def lock_exit_def)
next
  case (dies s i f)
  then show ?case using world_run.died [of "st_locks s" "st_kernel s" i f] by (auto simp: site_inv_def)
qed (auto simp: site_inv_def)

text \<open>The unlink of \<open>serve_forever\<close> never takes the socket of a live executor: while a process serves, the
  path names its socket, and no other process serves.\<close>
theorem live_socket_is_never_unlinked:
  assumes "site_run s" "i \<in> st_serving s"
  shows "st_path s = Some i \<and> st_serving s = {i} \<and> (lock_held (st_locks s j) \<longrightarrow> j = i)"
proof -
  have inv: "site_inv s" by (rule site_inv_run [OF assms(1)])
  then have "st_path s = Some i" "lock_held (st_locks s i)" using assms(2) by (auto simp: site_inv_def)
  moreover have "j = i" if "j \<in> st_serving s" for j
    using inv assms(2) that unfolding site_inv_def by (metis option.inject)
  then have "st_serving s = {i}" using assms(2) by blast
  moreover have "lock_held (st_locks s j) \<Longrightarrow> j = i"
    using inv \<open>lock_held (st_locks s i)\<close> world_inv_exclusive [of "st_locks s" "st_kernel s" j i] by (auto simp: site_inv_def)
  ultimately show ?thesis by blast
qed

section \<open>Witness\<close>

theorem live_socket_is_never_unlinked_witness:
  "\<exists>s. site_run s \<and> 3 \<in> st_serving s \<and> st_path s = Some 3 \<and> st_serving s = {3}"
proof -
  let ?s = "\<lparr>st_locks = (\<lambda>_. None), st_kernel = boot_kernel, st_serving = {}, st_path = Some 8\<rparr>"
  have "lock_holder boot_kernel (target boot_kernel) = None" by (simp add: boot_kernel_def)
  then obtain k where k: "lock_enter 42 (st_locks ?s 3) (st_kernel ?s) = (Inr (Some (next_fd boot_kernel)), k)"
    using acquire_free [of boot_kernel 42 None] by (auto simp: lock_enter_def)
  let ?t = "?s\<lparr>st_locks := (st_locks ?s)(3 := Some (next_fd boot_kernel)), st_kernel := k\<rparr>"
  have "site_run ?t" by (rule site_run.enters [OF site_run.boots k])
  then have r: "site_run (bind_path 3 ?t)" by (rule site_run.serves) (simp add: lock_held_def)
  have "3 \<in> st_serving (bind_path 3 ?t)" by (simp add: bind_path_def Let_def)
  from live_socket_is_never_unlinked [OF r this] r this show ?thesis by blast
qed

end
