(* ===== verification/Venues.thy ===== *)
theory Venues
  imports Prelude
begin

text \<open>
  crossvenue/venues.py: the venues, and which of them a US-resident operator may fill on.
\<close>

datatype venue = Kalshi | Polymarket_Intl | Polymarket_US

definition venue_value :: "venue \<Rightarrow> string" where
  "venue_value v = (case v of Kalshi \<Rightarrow> ''kalshi'' | Polymarket_Intl \<Rightarrow> ''polymarket_intl''
     | Polymarket_US \<Rightarrow> ''polymarket_us'')"

datatype data_access = Public | Credentialed

record venue_policy =
  vp_venue :: venue
  us_person_may_trade :: bool
  vp_access :: data_access
  vp_regulator :: string

text \<open>The prose \<open>reason\<close> of a policy is quoted in the message of a refusal only and left out with it.\<close>

definition venue_policies :: "(venue \<times> venue_policy) list" where
  "venue_policies =
     [(Kalshi, \<lparr>vp_venue = Kalshi, us_person_may_trade = True, vp_access = Public,
        vp_regulator = ''CFTC-designated contract market (KalshiEX LLC)''\<rparr>),
      (Polymarket_Intl, \<lparr>vp_venue = Polymarket_Intl, us_person_may_trade = False, vp_access = Public,
        vp_regulator = ''offshore, not registered for US persons''\<rparr>),
      (Polymarket_US, \<lparr>vp_venue = Polymarket_US, us_person_may_trade = True, vp_access = Public,
        vp_regulator = ''CFTC-designated contract market (QCX LLC, d/b/a Polymarket US)''\<rparr>)]"

definition policy_for :: "venue \<Rightarrow> exc + venue_policy" where
  "policy_for v = (case map_of venue_policies v of None \<Rightarrow> Inl KeyError | Some p \<Rightarrow> Inr p)"

definition us_executable :: "venue \<Rightarrow> exc + bool" where
  "us_executable v = (case policy_for v of Inl e \<Rightarrow> Inl e | Inr p \<Rightarrow> Inr (us_person_may_trade p))"

definition assert_us_executable :: "venue \<Rightarrow> exc + unit" where
  "assert_us_executable v =
     (case policy_for v of Inl e \<Rightarrow> Inl e
      | Inr p \<Rightarrow> if \<not> us_person_may_trade p then Inl VenueExecutionError else Inr ())"

text \<open>\<open>and\<close> looks at the second venue only when the first is open.\<close>

definition pair_is_us_executable :: "venue \<Rightarrow> venue \<Rightarrow> exc + bool" where
  "pair_is_us_executable a b =
     (case us_executable a of Inl e \<Rightarrow> Inl e | Inr False \<Rightarrow> Inr False | Inr True \<Rightarrow> us_executable b)"

lemma us_executable_eq: "us_executable v = Inr (v \<noteq> Polymarket_Intl)"
  by (cases v) (simp_all add: us_executable_def policy_for_def venue_policies_def)

lemma venue_value_inj: "venue_value u = venue_value v \<longleftrightarrow> u = v"
  by (cases u; cases v) (simp_all add: venue_value_def)

theorem execution_needs_both_venues_open:
  "(pair_is_us_executable a b = Inr True \<longleftrightarrow> assert_us_executable a = Inr () \<and> assert_us_executable b = Inr ()) \<and>
   (pair_is_us_executable a b = Inr False \<longleftrightarrow>
      assert_us_executable a = Inl VenueExecutionError \<or> assert_us_executable b = Inl VenueExecutionError) \<and>
   pair_is_us_executable a b = pair_is_us_executable b a \<and>
   (assert_us_executable a = Inl VenueExecutionError \<longleftrightarrow> a = Polymarket_Intl)"
  by (cases a; cases b)
    (simp_all add: pair_is_us_executable_def us_executable_eq assert_us_executable_def policy_for_def venue_policies_def)

end
