(* ===== verification/Python_Text.thy ===== *)
theory Python_Text
  imports Prelude
begin

text \<open>
  The string methods, the JSON values and the regular expressions of the cross-venue package.

  Text is a list of the 256 characters of Latin-1, as in the rest of the development. Regular
  expressions are a datatype with the priority semantics of \<open>re\<close>: a match is the first of the
  matches in the order a backtracking matcher tries them.
\<close>

section \<open>Characters\<close>

definition code :: "char \<Rightarrow> nat" where "code c = of_char c"

definition is_lower :: "char \<Rightarrow> bool" where "is_lower c \<longleftrightarrow> 97 \<le> code c \<and> code c \<le> 122"
definition is_upper :: "char \<Rightarrow> bool" where "is_upper c \<longleftrightarrow> 65 \<le> code c \<and> code c \<le> 90"
definition is_letter :: "char \<Rightarrow> bool" where "is_letter c \<longleftrightarrow> is_lower c \<or> is_upper c"

text \<open>\<open>isalpha\<close> and the class \<open>\w\<close> beyond ASCII.\<close>

definition is_alpha :: "char \<Rightarrow> bool" where
  "is_alpha c \<longleftrightarrow> is_letter c \<or> code c \<in> {170, 181, 186} \<or> 192 \<le> code c \<and> code c \<noteq> 215 \<and> code c \<noteq> 247"

definition is_word :: "char \<Rightarrow> bool" where
  "is_word c \<longleftrightarrow> is_alpha c \<or> is_digit c \<or> c = CHR ''_'' \<or> code c \<in> {178, 179, 185, 188, 189, 190}"

definition lower_char :: "char \<Rightarrow> char" where
  "lower_char c = (if is_upper c \<or> 192 \<le> code c \<and> code c \<le> 222 \<and> code c \<noteq> 215 then char_of (code c + 32) else c)"

definition lower :: "string \<Rightarrow> string" where "lower s = map lower_char s"

definition upper_char :: "char \<Rightarrow> char" where
  "upper_char c = (if is_lower c then char_of (code c - 32) else c)"

section \<open>String methods\<close>

definition next_char :: "string \<Rightarrow> char" where
  "next_char s = (case s of [] \<Rightarrow> CHR '' '' | c # _ \<Rightarrow> c)"

lemma next_char_simps [simp]: "next_char [] = CHR '' ''" "next_char (c # cs) = c"
  by (simp_all add: next_char_def)

definition strip_chars :: "string \<Rightarrow> string \<Rightarrow> string" where
  "strip_chars cs s = rev (dropWhile (\<lambda>c. c \<in> set cs) (rev (dropWhile (\<lambda>c. c \<in> set cs) s)))"

fun starts_with :: "string \<Rightarrow> string \<Rightarrow> bool" where
  "starts_with [] s = True"
| "starts_with (p # ps) [] = False"
| "starts_with (p # ps) (c # cs) = (p = c \<and> starts_with ps cs)"

fun contains :: "string \<Rightarrow> string \<Rightarrow> bool" where
  "contains p [] = (p = [])"
| "contains p (c # cs) = (starts_with p (c # cs) \<or> contains p cs)"

fun pieces :: "(char \<Rightarrow> bool) \<Rightarrow> string \<Rightarrow> string list" where
  "pieces P [] = [[]]"
| "pieces P (c # cs) = (if P c then [] # pieces P cs else (c # hd (pieces P cs)) # tl (pieces P cs))"

lemma pieces_code [code]:
  "pieces P [] = [[]]"
  "pieces P (c # cs) = (let ps = pieces P cs in if P c then [] # ps else (c # hd ps) # tl ps)"
  by (simp_all add: Let_def)

definition split_ws :: "string \<Rightarrow> string list" where
  "split_ws s = filter (\<lambda>p. p \<noteq> []) (pieces is_space s)"

fun join_sp :: "string list \<Rightarrow> string" where
  "join_sp [] = []"
| "join_sp [p] = p"
| "join_sp (p # q # ps) = p @ CHR '' '' # join_sp (q # ps)"

text \<open>\<open>re.sub\<close> of runs of white space by one space.\<close>

function squeeze :: "string \<Rightarrow> string" where
  "squeeze [] = []"
| "squeeze (c # cs) = (if is_space c then CHR '' '' # squeeze (dropWhile is_space cs) else c # squeeze cs)"
  by pat_completeness auto
termination by (relation "measure length") (auto simp: length_dropWhile_le less_Suc_eq_le)

lemma starts_with_iff: "starts_with p s \<longleftrightarrow> (\<exists>b. s = p @ b)"
  by (induction p s rule: starts_with.induct) auto

lemma contains_iff: "contains p s \<longleftrightarrow> (\<exists>a b. s = a @ p @ b)"
proof (induction s)
  case (Cons c cs)
  show ?case
  proof
    assume "contains p (c # cs)"
    then show "\<exists>a b. c # cs = a @ p @ b"
      using Cons by (metis append.left_neutral append_Cons contains.simps(2) starts_with_iff)
  next
    assume "\<exists>a b. c # cs = a @ p @ b"
    then obtain a b where ab: "c # cs = a @ p @ b" by blast
    show "contains p (c # cs)"
    proof (cases a)
      case Nil
      then have "starts_with p (c # cs)" using ab starts_with_iff by simp
      then show ?thesis by simp
    next
      case (Cons x a')
      then show ?thesis using ab Cons.IH by auto
    qed
  qed
qed simp

lemma contains_append: "contains p s \<Longrightarrow> contains p (a @ s)" "contains p s \<Longrightarrow> contains p (s @ b)"
  unfolding contains_iff by (metis append.assoc)+

lemma contains_refl [simp]: "contains p p" "contains [] s"
  unfolding contains_iff by (metis append_Nil append_Nil2)+

section \<open>Words\<close>

lemma pieces_ne [simp]: "pieces P s \<noteq> []"
  by (cases s) auto

lemma pieces_no_sep: "p \<in> set (pieces P s) \<Longrightarrow> c \<in> set p \<Longrightarrow> \<not> P c"
proof (induction s arbitrary: p)
  case (Cons x xs)
  then show ?case by (cases "pieces P xs") (fastforce split: if_splits)+
qed simp

lemma pieces_dropWhile: "filter (\<lambda>p. p \<noteq> []) (pieces P (dropWhile P s)) = filter (\<lambda>p. p \<noteq> []) (pieces P s)"
  by (induction s) auto

lemma pieces_append_sep: "P c \<Longrightarrow> pieces P (a @ c # b) = pieces P a @ pieces P b"
proof (induction a)
  case (Cons x xs)
  then show ?case by (cases "pieces P xs") auto
qed simp

lemma pieces_word: "\<forall>c \<in> set w. \<not> P c \<Longrightarrow> pieces P w = [w]"
  by (induction w) auto

lemma split_ws_sep: "is_space c \<Longrightarrow> split_ws (a @ c # b) = split_ws a @ split_ws b"
  by (simp add: split_ws_def pieces_append_sep)

lemma split_ws_word: "w \<noteq> [] \<Longrightarrow> \<forall>c \<in> set w. \<not> is_space c \<Longrightarrow> split_ws w = [w]"
  by (simp add: split_ws_def pieces_word)

lemma split_ws_Nil [simp]: "split_ws [] = []"
  by (simp add: split_ws_def)

lemma split_ws_words: "w \<in> set (split_ws s) \<Longrightarrow> w \<noteq> [] \<and> (\<forall>c \<in> set w. \<not> is_space c)"
  using pieces_no_sep by (auto simp: split_ws_def)

lemma is_space_blank [simp]: "is_space (CHR '' '')" by (simp add: is_space_def)

lemma split_join: "(\<And>w. w \<in> set ws \<Longrightarrow> w \<noteq> [] \<and> (\<forall>c \<in> set w. \<not> is_space c)) \<Longrightarrow> split_ws (join_sp ws) = ws"
proof (induction ws rule: join_sp.induct)
  case (2 p)
  then show ?case by (simp add: split_ws_word)
next
  case (3 p q ps)
  have "split_ws (join_sp (p # q # ps)) = split_ws p @ split_ws (join_sp (q # ps))"
    by (simp add: split_ws_sep)
  moreover have "split_ws p = [p]" using 3(2) [of p] by (simp add: split_ws_word)
  moreover have "split_ws (join_sp (q # ps)) = q # ps" by (rule "3.IH") (use "3.prems" in auto)
  ultimately show ?case by simp
qed simp

lemmas split_join_split [simp] = split_join [OF split_ws_words]

text \<open>Squeezing and stripping is joining the words by single spaces.\<close>

lemma pieces_squeeze:
  "hd (pieces is_space (squeeze s)) = hd (pieces is_space s) \<and>
   filter (\<lambda>p. p \<noteq> []) (tl (pieces is_space (squeeze s))) = filter (\<lambda>p. p \<noteq> []) (tl (pieces is_space s))"
proof (induction s rule: squeeze.induct)
  case (2 c cs)
  have eq: "filter (\<lambda>p. p \<noteq> []) (pieces is_space a) = filter (\<lambda>p. p \<noteq> []) (pieces is_space b)"
    if "hd (pieces is_space a) = hd (pieces is_space b) \<and>
      filter (\<lambda>p. p \<noteq> []) (tl (pieces is_space a)) = filter (\<lambda>p. p \<noteq> []) (tl (pieces is_space b))" for a b
    using that by (cases "pieces is_space a"; cases "pieces is_space b") auto
  show ?case
  proof (cases "is_space c")
    case True
    then show ?thesis using eq [OF "2.IH"(1) [OF True]] by (simp add: pieces_dropWhile)
  next
    case False
    then show ?thesis using "2.IH"(2) by simp
  qed
qed simp

lemma split_squeeze [simp]: "split_ws (squeeze s) = split_ws s"
  using pieces_squeeze [of s] unfolding split_ws_def
  by (cases "pieces is_space (squeeze s)"; cases "pieces is_space s") auto

definition rstrip :: "string \<Rightarrow> string" where
  "rstrip s = rev (dropWhile is_space (rev s))"

lemma strip_rstrip: "strip s = rstrip (dropWhile is_space s)"
  by (simp add: strip_def rstrip_def)

lemma rstrip_word: "w \<noteq> [] \<Longrightarrow> \<not> is_space (last w) \<Longrightarrow> rstrip (w @ x) = w @ rstrip x"
  by (cases w rule: rev_cases) (auto simp: rstrip_def dropWhile_append dropWhile_eq_Nil_conv)

lemma rstrip_blank: "rstrip (c # x) = (if rstrip x = [] \<and> is_space c then [] else c # rstrip x)"
  by (auto simp: rstrip_def dropWhile_append dropWhile_eq_Nil_conv)

lemma squeeze_word: "\<forall>c \<in> set w. \<not> is_space c \<Longrightarrow> squeeze (w @ s) = w @ squeeze s"
  by (induction w) auto

lemma join_sp_Cons: "join_sp (w # ws) = (if ws = [] then w else w @ CHR '' '' # join_sp ws)"
  by (cases ws) auto

lemma join_sp_Nil_iff: "(\<And>w. w \<in> set ws \<Longrightarrow> w \<noteq> []) \<Longrightarrow> join_sp ws = [] \<longleftrightarrow> ws = []"
  by (cases ws) (auto simp: join_sp_Cons)

lemma rstrip_squeeze:
  "s = [] \<or> \<not> is_space (hd s) \<Longrightarrow> rstrip (squeeze s) = join_sp (split_ws s)"
proof (induction "length s" arbitrary: s rule: less_induct)
  case less
  show ?case
  proof (cases "s = []")
    case True
    then show ?thesis by (simp add: rstrip_def)
  next
    case False
    define w r where "w = takeWhile (\<lambda>c. \<not> is_space c) s" and "r = dropWhile (\<lambda>c. \<not> is_space c) s"
    have s: "s = w @ r" by (simp add: w_def r_def)
    have w: "w \<noteq> []" "\<forall>c \<in> set w. \<not> is_space c"
      using less.prems False by (cases s) (auto simp: w_def dest: set_takeWhileD)
    then have lw: "\<not> is_space (last w)" by simp
    have nil: "rstrip [] = []" by (simp add: rstrip_def)
    show ?thesis
    proof (cases r)
      case Nil
      then show ?thesis using s w lw rstrip_word [OF w(1) lw, of "[]"] squeeze_word [OF w(2), of "[]"] nil
        by (simp add: split_ws_word)
    next
      case (Cons c r')
      then have c: "is_space c" using hd_dropWhile [of "\<lambda>c. \<not> is_space c" s] by (auto simp: r_def)
      define t where "t = dropWhile is_space r'"
      have "length t < length s" using s Cons length_dropWhile_le [of is_space r'] by (simp add: t_def)
      moreover have "t = [] \<or> \<not> is_space (hd t)" using hd_dropWhile [of is_space r'] by (auto simp: t_def)
      ultimately have IH: "rstrip (squeeze t) = join_sp (split_ws t)" by (rule less.hyps)
      have "split_ws t = split_ws r'" by (simp add: t_def split_ws_def pieces_dropWhile)
      then have "split_ws s = w # split_ws t" using s Cons split_ws_sep [OF c] w by (simp add: split_ws_word)
      moreover have "squeeze s = w @ CHR '' '' # squeeze t" using s Cons c squeeze_word [OF w(2)] by (simp add: t_def)
      moreover have "join_sp (split_ws t) = [] \<longleftrightarrow> split_ws t = []"
        using split_ws_words by (intro join_sp_Nil_iff) blast
      ultimately show ?thesis using rstrip_word [OF w(1) lw] IH by (simp add: rstrip_blank join_sp_Cons)
    qed
  qed
qed

lemma dropWhile_squeeze: "dropWhile is_space (squeeze s) = squeeze (dropWhile is_space s)"
  by (induction s rule: squeeze.induct) auto

lemma strip_squeeze: "strip (squeeze s) = join_sp (split_ws s)"
proof -
  have "dropWhile is_space s = [] \<or> \<not> is_space (hd (dropWhile is_space s))"
    using hd_dropWhile [of is_space s] by auto
  then have "rstrip (squeeze (dropWhile is_space s)) = join_sp (split_ws (dropWhile is_space s))"
    by (rule rstrip_squeeze)
  then show ?thesis by (simp add: strip_rstrip dropWhile_squeeze split_ws_def pieces_dropWhile)
qed

section \<open>Regular expressions\<close>

datatype regex =
    Class "char \<Rightarrow> bool"
  | Sequence "regex list"
  | Choice "regex list"
  | Maybe regex
  | Many regex
  | Group string regex
  | NotBefore "char \<Rightarrow> bool"

type_synonym captures = "string \<rightharpoonup> string"

text \<open>Greedy iteration: as often as possible first; an iteration that consumes nothing ends it.\<close>

fun many :: "nat \<Rightarrow> ('c \<times> string \<Rightarrow> ('c \<times> string) list) \<Rightarrow> 'c \<times> string \<Rightarrow> ('c \<times> string) list" where
  "many 0 f x = [x]"
| "many (Suc n) f x = concat (map (many n f) (filter (\<lambda>y. length (snd y) < length (snd x)) (f x))) @ [x]"

text \<open>All the ways to match a prefix of the text, in the order they are tried.\<close>

fun matches :: "regex \<Rightarrow> captures \<times> string \<Rightarrow> (captures \<times> string) list" where
  "matches (Class P) (g, s) = (case s of [] \<Rightarrow> [] | c # cs \<Rightarrow> if P c then [(g, cs)] else [])"
| "matches (Sequence rs) x = foldl (\<lambda>xs r. concat (map (matches r) xs)) [x] rs"
| "matches (Choice rs) x = concat (map (\<lambda>r. matches r x) rs)"
| "matches (Maybe r) x = matches r x @ [x]"
| "matches (Many r) x = many (length (snd x)) (matches r) x"
| "matches (Group k r) (g, s) =
     map (\<lambda>(g', s'). (g'(k \<mapsto> take (length s - length s') s), s')) (matches r (g, s))"
| "matches (NotBefore P) (g, s) = (case s of [] \<Rightarrow> [(g, s)] | c # _ \<Rightarrow> if P c then [] else [(g, s)])"

text \<open>\<open>pattern.search(text)\<close>: the captures of the first match from the leftmost position that has one.\<close>

fun search :: "regex \<Rightarrow> string \<Rightarrow> captures option" where
  "search r [] = map_option fst (case matches r (Map.empty, []) of [] \<Rightarrow> None | m # _ \<Rightarrow> Some m)"
| "search r (c # cs) =
     (case matches r (Map.empty, c # cs) of [] \<Rightarrow> search r cs | m # _ \<Rightarrow> Some (fst m))"

definition literal :: "string \<Rightarrow> regex" where "literal s = Sequence (map (\<lambda>c. Class (\<lambda>x. x = c)) s)"
definition literal_nocase :: "string \<Rightarrow> regex" where
  "literal_nocase s = Sequence (map (\<lambda>c. Class (\<lambda>x. lower_char x = lower_char c)) s)"
definition digit :: regex where "digit = Class is_digit"
definition blanks :: regex where "blanks = Many (Class is_space)"
definition one_or_more :: "regex \<Rightarrow> regex" where "one_or_more r = Sequence [r, Many r]"

section \<open>JSON values\<close>

type_synonym pydict = "(string \<times> jvalue) list"

text \<open>\<open>d.get(key)\<close>, and the truth value of a decoded value.\<close>

definition dict_get :: "pydict \<Rightarrow> string \<Rightarrow> jvalue" where
  "dict_get d k = (case map_of d k of None \<Rightarrow> JScalar JNull | Some v \<Rightarrow> v)"

fun truthy :: "jvalue \<Rightarrow> bool" where
  "truthy (JScalar JNull) = False"
| "truthy (JScalar (JBool b)) = b"
| "truthy (JScalar (JInt n)) = (n \<noteq> 0)"
| "truthy (JScalar (JFloat x)) = (x \<noteq> 0)"
| "truthy (JScalar (JStr s)) = (s \<noteq> [])"
| "truthy (JArray xs) = (xs \<noteq> [])"
| "truthy (JObject kvs) = (kvs \<noteq> [])"

definition jor :: "jvalue \<Rightarrow> jvalue \<Rightarrow> jvalue" where "jor a b = (if truthy a then a else b)"

definition jstr :: "string \<Rightarrow> jvalue" where "jstr s = JScalar (JStr s)"

text \<open>\<open>repr()\<close> of text, and \<open>str()\<close> of a value; lists and dictionaries print their elements by \<open>repr\<close>.\<close>

definition hex_digit :: "nat \<Rightarrow> char" where "hex_digit n = ''0123456789abcdef'' ! n"

definition repr_char :: "char \<Rightarrow> char \<Rightarrow> string" where
  "repr_char q c =
     (if c = q \<or> c = CHR 0x5C then [CHR 0x5C, c]
      else if c = CHR 0x0A then [CHR 0x5C, CHR ''n''] else if c = CHR 0x0D then [CHR 0x5C, CHR ''r'']
      else if c = CHR 0x09 then [CHR 0x5C, CHR ''t'']
      else if code c < 32 \<or> 127 \<le> code c \<and> code c \<le> 160 \<or> code c = 173
        then [CHR 0x5C, CHR ''x'', hex_digit (code c div 16), hex_digit (code c mod 16)]
      else [c])"

definition repr_text :: "string \<Rightarrow> string" where
  "repr_text s =
     (let q = (if CHR 0x27 \<in> set s \<and> CHR 0x22 \<notin> set s then CHR 0x22 else CHR 0x27)
      in q # concat (map (repr_char q) s) @ [q])"

fun commas :: "string list \<Rightarrow> string" where
  "commas [] = []"
| "commas [p] = p"
| "commas (p # q # ps) = p @ '', '' @ commas (q # ps)"

fun py_repr :: "jvalue \<Rightarrow> string" where
  "py_repr (JScalar (JStr s)) = repr_text s"
| "py_repr (JScalar v) = json_text v"
| "py_repr (JArray xs) = ''['' @ commas (map py_repr xs) @ '']''"
| "py_repr (JObject kvs) = ''{'' @ commas (map (\<lambda>(k, v). repr_text k @ '': '' @ py_repr v) kvs) @ ''}''"

definition py_str :: "jvalue \<Rightarrow> string" where
  "py_str v = (case v of JScalar (JStr s) \<Rightarrow> s | _ \<Rightarrow> py_repr v)"

lemma py_str_text [simp]: "py_str (JScalar (JStr s)) = s" "py_str (jstr s) = s"
  by (simp_all add: py_str_def jstr_def)

lemma truthy_jstr [simp]: "truthy (jstr s) \<longleftrightarrow> s \<noteq> []"
  by (simp add: jstr_def)

text \<open>\<open>str(value or "")\<close> is how the package reads a text field.\<close>

definition text_field :: "pydict \<Rightarrow> string \<Rightarrow> string" where
  "text_field d k = py_str (jor (dict_get d k) (jstr []))"

text \<open>\<open>float(value)\<close>; \<open>None\<close> where it raises \<open>TypeError\<close> or \<open>ValueError\<close>.\<close>

fun py_float :: "jvalue \<Rightarrow> pyfloat option" where
  "py_float (JScalar v) = float_of_json v"
| "py_float _ = None"

definition float_error :: "jvalue \<Rightarrow> exc" where
  "float_error v = (case v of JScalar (JStr s) \<Rightarrow> ValueError | _ \<Rightarrow> TypeError)"

end
