(* ===== verification/Float_Error.thy ===== *)
theory Float_Error
  imports Float64
begin

text \<open>How far rounding to binary64 moves a value: half a unit in the last place, so a relative \<open>2 powi - 53\<close>.\<close>

lemma rnd_half_ulp: "x \<noteq> 0 \<Longrightarrow> \<bar>rnd x - x\<bar> \<le> 2 powi (ulp_exp x) / 2"
proof -
  assume x: "x \<noteq> 0"
  define e where "e = ulp_exp x"
  let ?y = "x * 2 powi (- e)"
  have "rnd x - x = (of_int (round_even ?y) - ?y) * 2 powi e"
    using x powi_cancel [of e] by (simp add: rnd_def Let_def e_def algebra_simps)
  then have "\<bar>rnd x - x\<bar> = \<bar>of_int (round_even ?y) - ?y\<bar> * 2 powi e"
    by (simp add: abs_mult)
  also have "\<dots> \<le> 1 / 2 * 2 powi e"
    by (rule mult_right_mono [OF round_even_error]) simp
  finally show ?thesis by (simp add: e_def)
qed

lemma rnd_error: "\<bar>rnd x - x\<bar> \<le> \<bar>x\<bar> * 2 powi (- 53) + 2 powi (- 1075)"
proof (cases "x = 0")
  case False
  have two: "(2 :: rat) powi (k - 1) = 2 powi k / 2" for k by (simp add: power_int_diff)
  have "2 powi (ilog2 \<bar>x\<bar>) \<le> \<bar>x\<bar>" using ilog2_bounds [of "\<bar>x\<bar>"] False by simp
  then have "2 powi (ilog2 \<bar>x\<bar>) * 2 powi (- 53) \<le> \<bar>x\<bar> * 2 powi (- 53)"
    by (intro mult_right_mono) simp_all
  then have n: "(2 :: rat) powi (ilog2 \<bar>x\<bar> - 53) \<le> \<bar>x\<bar> * 2 powi (- 53)"
    by (simp add: power_int_diff)
  have "(2 :: rat) powi (ulp_exp x) / 2 = 2 powi (ulp_exp x - 1)" by (rule two [symmetric])
  also have "\<dots> \<le> \<bar>x\<bar> * 2 powi (- 53) + 2 powi (- 1075)"
  proof (cases "ilog2 \<bar>x\<bar> - 52 \<le> - 1074")
    case True
    then have "ulp_exp x - 1 = - 1075" by (simp add: ulp_exp_def)
    moreover have "0 \<le> \<bar>x\<bar> * 2 powi (- 53)" by simp
    ultimately show ?thesis by (metis add_increasing order_refl)
  next
    case False
    then have "ulp_exp x - 1 = ilog2 \<bar>x\<bar> - 53" by (simp add: ulp_exp_def)
    then show ?thesis using n powi_pos [of "- 1075"] by (metis add_increasing2 less_imp_le)
  qed
  finally show ?thesis using rnd_half_ulp [OF False] by linarith
qed simp

text \<open>In the range of prices and counts: below \<open>2 ^ 40\<close> no operation errs by more than a ten-thousandth.\<close>

lemma rnd_close: "\<bar>x\<bar> \<le> M \<Longrightarrow> M * 2 powi (- 53) + 2 powi (- 1075) \<le> d \<Longrightarrow> \<bar>rnd x - x\<bar> \<le> d"
proof -
  assume "\<bar>x\<bar> \<le> M" and d: "M * 2 powi (- 53) + 2 powi (- 1075) \<le> d"
  then have "\<bar>x\<bar> * 2 powi (- 53) \<le> M * 2 powi (- 53)" by (intro mult_right_mono) simp_all
  then show ?thesis using rnd_error [of x] d by linarith
qed

end
