(* ===== verification/Fees.thy ===== *)
theory Fees
  imports Venues Python_Text Float_Error
begin

text \<open>
  crossvenue/fees.py: the quadratic fee of a fill, rounded once, and the three constructors that
  read its coefficient off the wire.
\<close>

section \<open>The model\<close>

record fee_model =
  fm_venue :: venue
  fm_rate :: pyfloat
  round_up_to_cent :: bool
  fm_source :: string
  fm_maker_rate :: pyfloat

definition kalshi_base_rate :: pyfloat where "kalshi_base_rate = lit 7 100"
definition kalshi_maker_base_rate :: pyfloat where "kalshi_maker_base_rate = lit 175 10000"
definition polymarket_fee_decimals :: nat where "polymarket_fee_decimals = 5"

definition fee_dollars_from_basis :: "pyfloat \<Rightarrow> fee_model \<Rightarrow> pyfloat" where
  "fee_dollars_from_basis basis m =
     (if basis \<le> 0 \<or> fm_rate m = 0 then 0
      else let raw = fmul (fm_rate m) basis
           in if round_up_to_cent m then fdiv (float_of \<lceil>fmul raw 100\<rceil>) 100
              else py_round_nd raw polymarket_fee_decimals)"

definition fee_dollars :: "pyfloat \<Rightarrow> pyfloat \<Rightarrow> fee_model \<Rightarrow> pyfloat" where
  "fee_dollars price contracts m = fee_dollars_from_basis (fmul (fmul contracts price) (fsub 1 price)) m"

definition maker_fee_dollars_from_basis :: "pyfloat \<Rightarrow> fee_model \<Rightarrow> pyfloat" where
  "maker_fee_dollars_from_basis basis m =
     (if basis \<le> 0 \<or> fm_maker_rate m = 0 then 0
      else let raw = fmul (fm_maker_rate m) basis
           in if round_up_to_cent m then fdiv (float_of \<lceil>fmul raw 100\<rceil>) 100
              else py_round_nd raw polymarket_fee_decimals)"

definition maker_fee_dollars :: "pyfloat \<Rightarrow> pyfloat \<Rightarrow> fee_model \<Rightarrow> pyfloat" where
  "maker_fee_dollars price contracts m =
     maker_fee_dollars_from_basis (fmul (fmul contracts price) (fsub 1 price)) m"

section \<open>Reading the wire\<close>

definition maker_multipliers :: "(string \<times> pyfloat) list" where
  "maker_multipliers =
     [(''quadratic'', 0), (''quadratic_with_maker_fees'', 1), (''quadratic_with_combo_maker_fees'', 2)]"

definition kalshi_fee_model_from_parts :: "jvalue \<Rightarrow> jvalue \<Rightarrow> string \<Rightarrow> exc + fee_model" where
  "kalshi_fee_model_from_parts fee_type multiplier source =
     (case map_of maker_multipliers (py_str (jor fee_type (jstr []))) of
        None \<Rightarrow> Inl UnsupportedFeeModelError
      | Some maker \<Rightarrow>
          (case py_float multiplier of
             None \<Rightarrow> Inl UnsupportedFeeModelError
           | Some k \<Rightarrow> Inr \<lparr>fm_venue = Kalshi, fm_rate = fmul kalshi_base_rate k, round_up_to_cent = True,
               fm_source = source, fm_maker_rate = fmul kalshi_maker_base_rate maker\<rparr>))"

text \<open>\<open>series.get("series", series)\<close>; reading a field of a body that is no dictionary raises.\<close>

definition kalshi_fee_model :: "pydict \<Rightarrow> exc + fee_model" where
  "kalshi_fee_model series =
     (case (case map_of series ''series'' of None \<Rightarrow> JObject series | Some b \<Rightarrow> b) of
        JObject body \<Rightarrow>
          kalshi_fee_model_from_parts (dict_get body ''fee_type'') (dict_get body ''fee_multiplier'')
            (''GET /series/'' @ py_str (dict_get body ''ticker'') @ '' fee_type='' @
             py_str (dict_get body ''fee_type'') @ '' multiplier='' @ py_str (dict_get body ''fee_multiplier''))
      | _ \<Rightarrow> Inl AttributeError)"

text \<open>\<open>f"{x:g}"\<close>: six significant digits, trailing zeros dropped.\<close>

definition general_text :: "pyfloat \<Rightarrow> string" where
  "general_text x =
     (if x = 0 then ''0''
      else let e = decade 400 \<bar>x\<bar> 0;
               d = round_even (\<bar>x\<bar> * 10 powi (6 - e));
               (d, e) = (if d = 1000000 then (100000, e + 1) else (d, e));
               digits = rev (dropWhile (\<lambda>c. c = CHR ''0'') (rev (decimal_text d)));
               k = length digits
      in (if x < 0 then ''-'' else []) @
         (if - 4 < e \<and> e \<le> 6 then
            (if e \<le> 0 then ''0.'' @ replicate (nat (- e)) (CHR ''0'') @ digits
             else if int k \<le> e then digits @ replicate (nat e - k) (CHR ''0'')
             else take (nat e) digits @ ''.'' @ drop (nat e) digits)
          else (if k = 1 then digits else take 1 digits @ ''.'' @ drop 1 digits) @ ''e'' @
            (if e - 1 < 0 then ''-'' else ''+'') @
            (let t = decimal_text \<bar>e - 1\<bar> in if length t = 1 then ''0'' @ t else t)))"

text \<open>\<open>exponent != 1\<close>: a float or a boolean compares equal to the integer.\<close>

definition equals_one :: "jvalue \<Rightarrow> bool" where
  "equals_one v \<longleftrightarrow> v \<in> {JScalar (JInt 1), JScalar (JFloat 1), JScalar (JBool True)}"

definition polymarket_fee_model :: "pydict \<Rightarrow> exc + fee_model" where
  "polymarket_fee_model market =
     (let free = Inr \<lparr>fm_venue = Polymarket_Intl, fm_rate = 0, round_up_to_cent = False,
            fm_source = ''gamma feesEnabled='' @ py_repr (dict_get market ''feesEnabled'') @ '' feeType='' @
              py_repr (dict_get market ''feeType''),
            fm_maker_rate = 0\<rparr>
      in if \<not> truthy (dict_get market ''feesEnabled'') then free
         else case dict_get market ''feeSchedule'' of
           JObject schedule \<Rightarrow>
             if \<not> equals_one (dict_get schedule ''exponent'') then Inl UnsupportedFeeModelError
             else (case py_float (dict_get schedule ''rate'') of
                 None \<Rightarrow> Inl UnsupportedFeeModelError
               | Some rate \<Rightarrow> Inr \<lparr>fm_venue = Polymarket_Intl, fm_rate = rate, round_up_to_cent = False,
                   fm_source = ''gamma feeType='' @ py_str (dict_get market ''feeType'') @ '' rate='' @
                     general_text rate @ '' exponent='' @ py_str (dict_get schedule ''exponent''),
                   fm_maker_rate = 0\<rparr>)
         | _ \<Rightarrow> free)"

definition polymarket_us_fee_model :: "pydict \<Rightarrow> exc + fee_model" where
  "polymarket_us_fee_model market =
     (case py_float (dict_get market ''feeCoefficient'') of
        None \<Rightarrow> Inl UnsupportedFeeModelError
      | Some rate \<Rightarrow>
          if rate < 0 then Inl UnsupportedFeeModelError
          else Inr \<lparr>fm_venue = Polymarket_US, fm_rate = rate, round_up_to_cent = False,
            fm_source = ''gateway /v1/markets feeCoefficient='' @ general_text rate, fm_maker_rate = 0\<rparr>)"

definition fee_free_kalshi :: fee_model where
  "fee_free_kalshi = \<lparr>fm_venue = Kalshi, fm_rate = 0, round_up_to_cent = True,
     fm_source = ''explicit fee-free'', fm_maker_rate = 0\<rparr>"

section \<open>Bounds\<close>

text \<open>Taker and maker charges are the same rounding of the same product.\<close>

definition charge :: "bool \<Rightarrow> pyfloat \<Rightarrow> pyfloat \<Rightarrow> pyfloat" where
  "charge cents rate basis =
     (if basis \<le> 0 \<or> rate = 0 then 0
      else if cents then fdiv (float_of \<lceil>fmul (fmul rate basis) 100\<rceil>) 100
           else py_round_nd (fmul rate basis) polymarket_fee_decimals)"

lemma fee_charge:
  "fee_dollars_from_basis b m = charge (round_up_to_cent m) (fm_rate m) b"
  "maker_fee_dollars_from_basis b m = charge (round_up_to_cent m) (fm_maker_rate m) b"
  by (simp_all add: fee_dollars_from_basis_def maker_fee_dollars_from_basis_def charge_def Let_def)

lemma fmul_nonneg: "0 \<le> x \<Longrightarrow> 0 \<le> y \<Longrightarrow> 0 \<le> fmul x y"
  unfolding fmul_def by (rule f64.rd_mult_nonneg)

lemma cents_mono: "x \<le> y \<Longrightarrow> fdiv (float_of \<lceil>fmul x 100\<rceil>) 100 \<le> fdiv (float_of \<lceil>fmul y 100\<rceil>) 100"
proof -
  assume "x \<le> y"
  then have "fmul x 100 \<le> fmul y 100" unfolding fmul_def by (intro rnd_mono mult_right_mono) simp_all
  then have "\<lceil>fmul x 100\<rceil> \<le> \<lceil>fmul y 100\<rceil>" by (rule ceiling_mono)
  then have "float_of \<lceil>fmul x 100\<rceil> \<le> float_of \<lceil>fmul y 100\<rceil>" unfolding float_of_def by (intro rnd_mono) simp
  then show ?thesis unfolding fdiv_def by (intro rnd_mono divide_right_mono) simp_all
qed

lemma decimals_mono: "x \<le> y \<Longrightarrow> py_round_nd x n \<le> py_round_nd y n"
  unfolding py_round_nd_def
  by (intro rnd_mono divide_right_mono of_int_le_iff [THEN iffD2] round_even_mono mult_right_mono) simp_all

lemma charge_nonneg: "0 \<le> r \<Longrightarrow> 0 \<le> charge c r b"
proof -
  assume r: "0 \<le> r"
  have "0 \<le> fdiv (float_of \<lceil>fmul (fmul r b) 100\<rceil>) 100" "0 \<le> py_round_nd (fmul r b) polymarket_fee_decimals"
    if "0 < b"
  proof -
    have p: "0 \<le> fmul r b" using r that by (intro fmul_nonneg) simp_all
    show "0 \<le> fdiv (float_of \<lceil>fmul (fmul r b) 100\<rceil>) 100"
      using cents_mono [OF p] by (simp add: fmul_def fdiv_def float_of_def)
    show "0 \<le> py_round_nd (fmul r b) polymarket_fee_decimals"
      using decimals_mono [OF p, of polymarket_fee_decimals] by (simp add: py_round_nd_def round_even_def)
  qed
  then show ?thesis by (simp add: charge_def)
qed

lemma charge_mono: "0 \<le> r \<Longrightarrow> b \<le> b' \<Longrightarrow> charge c r b \<le> charge c r b'"
proof (cases "b \<le> 0 \<or> r = 0")
  case True
  then show "0 \<le> r \<Longrightarrow> charge c r b \<le> charge c r b'" using charge_nonneg [of r c b'] by (simp add: charge_def [of c r b])
next
  case False
  assume r: "0 \<le> r" and b: "b \<le> b'"
  have "fmul r b \<le> fmul r b'" using r b unfolding fmul_def by (rule f64.rd_mult_mono)
  then show ?thesis using False b cents_mono decimals_mono by (auto simp: charge_def)
qed

text \<open>Three roundings and a ceiling: a Kalshi charge lies between the product and a cent above it.\<close>

lemma cent_charge_close:
  assumes "0 < r" "0 < b" "r * b \<le> 1000000"
  shows "r * b - 1 / 1000000 \<le> charge True r b \<and> charge True r b \<le> r * b + 1 / 100 + 1 / 1000000"
proof -
  define c where "c = r * b"
  have c: "0 < c" "c \<le> 1000000" using assms by (simp_all add: c_def)
  define x where "x = rnd c"
  have x: "\<bar>x - c\<bar> \<le> 1 / 1000000000"
    unfolding x_def by (rule rnd_close [where M = 1000000]) (use c in \<open>simp_all add: power_int_minus\<close>)
  define y where "y = rnd (x * 100)"
  have "\<bar>x * 100\<bar> \<le> 100000001" using x c by linarith
  then have y: "\<bar>y - x * 100\<bar> \<le> 1 / 10000000"
    unfolding y_def by (rule rnd_close) (simp add: power_int_minus)
  define n where "n = \<lceil>y\<rceil>"
  have n: "y \<le> of_int n" "of_int n < y + 1" unfolding n_def by linarith+
  have "\<bar>(of_int n :: rat)\<bar> \<le> 100000003" using n y x c by linarith
  then have "\<bar>n\<bar> \<le> 100000003" by (simp flip: of_int_abs)
  then have f: "float_of n = of_int n" by (intro float_of_exact) simp
  define z where "z = rnd (of_int n / 100)"
  have "\<bar>of_int n / 100\<bar> \<le> (1000001 :: rat)" using n y x c by linarith
  then have z: "\<bar>z - of_int n / 100\<bar> \<le> 1 / 1000000000"
    unfolding z_def by (rule rnd_close) (simp add: power_int_minus)
  have "charge True r b = z"
    using assms f [unfolded n_def y_def x_def c_def]
    by (simp add: charge_def fmul_def fdiv_def z_def n_def y_def x_def c_def)
  moreover have "c - 1 / 1000000 \<le> z" "z \<le> c + 1 / 100 + 1 / 1000000"
    using x [unfolded abs_le_iff] y [unfolded abs_le_iff] z [unfolded abs_le_iff] n by linarith+
  ultimately show ?thesis by (simp add: c_def)
qed


definition sample_model :: fee_model where
  "sample_model = \<lparr>fm_venue = Kalshi, fm_rate = kalshi_base_rate, round_up_to_cent = True,
     fm_source = ''series'', fm_maker_rate = 0\<rparr>"


text \<open>
  The ceiling acts on a binary float. A hundred contracts at fifty cents owe exactly 1.75, but
  0.07 * 25 is one ulp above it, and a whole further cent is charged.
\<close>

theorem exact_cents_are_overcharged:
  "fee_dollars (1 / 2) 100 sample_model = lit 176 100 \<and> (7 / 100) * (100 * (1 / 2) * (1 / 2)) = (175 / 100 :: rat)"
  by (rule conjI, code_simp, simp)

text \<open>
  What the constructors let through. Polymarket US refuses a negative coefficient; the other two
  venues read a rate of any sign, so the charge can be a payment.
\<close>

theorem negative_rates_are_refused_by_one_venue:
  "(polymarket_us_fee_model market = Inr m \<longrightarrow> 0 \<le> fee_dollars_from_basis basis m) \<and>
   (\<exists>m. kalshi_fee_model_from_parts (jstr ''quadratic'') (JScalar (JInt (- 1))) src = Inr m \<and>
     fee_dollars (1 / 2) 100 m = lit (- 175) 100)"
proof
  show "polymarket_us_fee_model market = Inr m \<longrightarrow> 0 \<le> fee_dollars_from_basis basis m"
    by (auto simp: polymarket_us_fee_model_def fee_charge charge_nonneg split: option.splits if_splits)
  have "fmul kalshi_base_rate (float_of (- 1)) = - kalshi_base_rate" by code_simp
  moreover have "fee_dollars (1 / 2) 100 (sample_model\<lparr>fm_rate := - kalshi_base_rate\<rparr>) = lit (- 175) 100" by code_simp
  moreover have "fee_dollars p c m = fee_dollars p c (sample_model\<lparr>fm_rate := fm_rate m\<rparr>)" if "round_up_to_cent m" for p c m
    using that by (simp add: fee_dollars_def fee_charge sample_model_def)
  ultimately show "\<exists>m. kalshi_fee_model_from_parts (jstr ''quadratic'') (JScalar (JInt (- 1))) src = Inr m \<and>
     fee_dollars (1 / 2) 100 m = lit (- 175) 100"
    by (simp add: kalshi_fee_model_from_parts_def jor_def maker_multipliers_def fee_dollars_def fee_charge sample_model_def)
qed

theorem negative_rates_are_refused_by_one_venue_witness:
  "polymarket_us_fee_model [(''feeCoefficient'', JScalar (JInt 1))] = Inr \<lparr>fm_venue = Polymarket_US, fm_rate = 1,
     round_up_to_cent = False, fm_source = ''gateway /v1/markets feeCoefficient=1'', fm_maker_rate = 0\<rparr> \<and>
   0 \<le> fee_dollars_from_basis 25 \<lparr>fm_venue = Polymarket_US, fm_rate = 1,
     round_up_to_cent = False, fm_source = ''gateway /v1/markets feeCoefficient=1'', fm_maker_rate = 0\<rparr>"
proof -
  have "polymarket_us_fee_model [(''feeCoefficient'', JScalar (JInt 1))] = Inr \<lparr>fm_venue = Polymarket_US, fm_rate = 1,
     round_up_to_cent = False, fm_source = ''gateway /v1/markets feeCoefficient=1'', fm_maker_rate = 0\<rparr>"
    by code_simp
  then show ?thesis using negative_rates_are_refused_by_one_venue by blast
qed

end
