(* ===== verification/Books.thy ===== *)
theory Books
  imports Fees "HOL-Library.Multiset"
begin

text \<open>
  crossvenue/models.py: the venue-neutral market, its settlement terms, order books, matched pairs
  and priced opportunities. A \<open>datetime\<close> is the number of microseconds since the epoch, in UTC.
\<close>

section \<open>Markets\<close>

datatype side = Yes | No

definition opposite :: "side \<Rightarrow> side" where "opposite s = (if s = Yes then No else Yes)"

datatype comparator = Greater | GreaterEqual | Less | LessEqual | Between | Equal | NoComparator

definition comparator_value :: "comparator \<Rightarrow> string" where
  "comparator_value c = (case c of Greater \<Rightarrow> ''greater'' | GreaterEqual \<Rightarrow> ''greater_equal'' | Less \<Rightarrow> ''less''
     | LessEqual \<Rightarrow> ''less_equal'' | Between \<Rightarrow> ''between'' | Equal \<Rightarrow> ''equal'' | NoComparator \<Rightarrow> ''none'')"

type_synonym utc = int

record settlement_terms =
  close_time :: "utc option"
  expiry_time :: "utc option"
  scheduled_event_time :: "utc option"
  comparator :: comparator
  threshold :: "pyfloat option"
  threshold_upper :: "pyfloat option"
  threshold_units :: "string option"
  resolution_sources :: "string list"
  can_close_early :: bool
  raw_rules :: string

record normalized_market =
  nm_venue :: venue
  market_id :: string
  event_id :: string
  question :: string
  yes_label :: string
  no_label :: string
  category :: string
  terms :: settlement_terms
  fee :: fee_model
  tick_dollars :: pyfloat
  min_order_contracts :: pyfloat
  yes_token :: string
  no_token :: string
  claim_text :: string
  search_text :: string

section \<open>Books\<close>

record book_level =
  price_dollars :: pyfloat
  size_contracts :: pyfloat

record outcome_book =
  asks :: "book_level list"
  bids :: "book_level list"

definition best_ask :: "outcome_book \<Rightarrow> pyfloat option" where
  "best_ask b = (if asks b = [] then None else Some (price_dollars (hd (asks b))))"

definition best_bid :: "outcome_book \<Rightarrow> pyfloat option" where
  "best_bid b = (if bids b = [] then None else Some (price_dollars (hd (bids b))))"

definition ask_depth_contracts :: "outcome_book \<Rightarrow> pyfloat" where
  "ask_depth_contracts b = py_sum (map size_contracts (asks b))"

record market_book =
  mb_venue :: venue
  mb_market_id :: string
  mb_yes :: outcome_book
  mb_no :: outcome_book
  observed_at_ms :: ms

text \<open>\<open>sorted\<close> is stable in both directions.\<close>

definition sorted_levels :: "bool \<Rightarrow> book_level list \<Rightarrow> book_level list" where
  "sorted_levels ascending levels =
     sort_key (\<lambda>l. if ascending then price_dollars l else - price_dollars l) levels"

definition complement_ladder :: "book_level list \<Rightarrow> book_level list" where
  "complement_ladder bs =
     sorted_levels True
       (map (\<lambda>l. \<lparr>price_dollars = fsub 1 (price_dollars l), size_contracts = size_contracts l\<rparr>)
         (filter (\<lambda>l. 0 < fsub 1 (price_dollars l) \<and> fsub 1 (price_dollars l) < 1) bs))"

section \<open>Pairs and opportunities\<close>

datatype match_confidence = Identical | Strong | Weak | Rejected

record ('e, 'b) matched_pair =
  mp_kalshi :: normalized_market
  mp_other :: normalized_market
  aligned :: bool
  confidence :: match_confidence
  score :: pyfloat
  evidence :: "'e list"
  blockers :: "'b list"

definition pair_key :: "('e, 'b) matched_pair \<Rightarrow> string" where
  "pair_key p = market_id (mp_kalshi p) @ ''|'' @ venue_value (nm_venue (mp_other p)) @ '':'' @ market_id (mp_other p)"

record arb_leg =
  leg_venue :: venue
  leg_market_id :: string
  leg_side :: side
  leg_contracts :: pyfloat
  gross_cost_dollars :: pyfloat
  leg_fee_dollars :: pyfloat
  vwap_dollars :: pyfloat
  levels_consumed :: int

definition total_cost_dollars :: "arb_leg \<Rightarrow> pyfloat" where
  "total_cost_dollars l = fadd (gross_cost_dollars l) (leg_fee_dollars l)"

record ('e, 'b) arb_opportunity =
  opp_pair :: "('e, 'b) matched_pair"
  legs :: "arb_leg \<times> arb_leg"
  opp_contracts :: pyfloat
  opp_total_cost_dollars :: pyfloat
  payout_dollars :: pyfloat
  profit_dollars :: pyfloat
  edge_per_contract :: pyfloat
  opp_us_executable :: bool
  opp_observed_at_ms :: ms
  book_skew_ms :: ms
  opp_notes :: "string list"

section \<open>The complement ladder\<close>

lemma opposite_opposite [simp]: "opposite (opposite s) = s"
  by (cases s) (simp_all add: opposite_def)

lemma comparator_value_inj: "comparator_value c = comparator_value d \<longleftrightarrow> c = d"
  by (cases c; cases d) (simp_all add: comparator_value_def)

definition takeable :: "book_level \<Rightarrow> bool" where
  "takeable l \<longleftrightarrow> 0 < fsub 1 (price_dollars l) \<and> fsub 1 (price_dollars l) < 1"

lemma hd_sort_key_Min: "xs \<noteq> [] \<Longrightarrow> f (hd (sort_key f xs)) = Min (f ` set xs)"
proof -
  assume "xs \<noteq> []"
  then obtain y ys where s: "sort_key f xs = y # ys" by (metis length_sort list.exhaust length_0_conv)
  have "sorted (map f (sort_key f xs))" by simp
  then have "\<forall>z \<in> set (sort_key f xs). f y \<le> f z" by (auto simp: s)
  moreover have "y \<in> set (sort_key f xs)" by (simp add: s)
  ultimately have "Min (f ` set xs) = f y" by (intro Min_eqI) auto
  then show ?thesis by (simp add: s)
qed

lemma complement_antimono: "p \<le> q \<Longrightarrow> fsub 1 q \<le> fsub 1 p"
  unfolding fsub_def by (intro rnd_mono) simp

lemma Min_complement: "finite A \<Longrightarrow> A \<noteq> {} \<Longrightarrow> Min (fsub 1 ` A) = fsub 1 (Max A)"
  by (rule Min_eqI) (auto intro: complement_antimono)

definition complement_level :: "book_level \<Rightarrow> book_level" where
  "complement_level l = \<lparr>price_dollars = fsub 1 (price_dollars l), size_contracts = size_contracts l\<rparr>"

lemma complement_ladder_eq:
  "complement_ladder bs = sort_key price_dollars (map complement_level (filter takeable bs))"
  by (simp add: complement_ladder_def sorted_levels_def takeable_def [abs_def] complement_level_def [abs_def])

lemma sorted_prices_unique:
  fixes xs ys :: "book_level list"
  shows "mset xs = mset ys \<Longrightarrow> map price_dollars (sort_key price_dollars xs) = map price_dollars (sort_key price_dollars ys)"
proof -
  have "sort (map price_dollars zs) = map price_dollars (sort_key price_dollars zs)" for zs :: "book_level list"
    by (rule properties_for_sort) simp_all
  moreover assume "mset xs = mset ys"
  then have "sort (map price_dollars xs) = sort (map price_dollars ys)"
    by (intro properties_for_sort) simp_all
  ultimately show ?thesis by metis
qed

text \<open>C16. The complement ladder is the other side of the book: its levels are, as a bag, the resting
  bids below par and above nothing with their prices complemented and their sizes kept, in rising
  price and strictly inside (0, 1); its best ask is the complement of the highest such bid, and
  the order the bids came in does not matter.\<close>
theorem complement_ladder_is_the_other_side:
  fixes bs :: "book_level list"
  defines "taken \<equiv> filter takeable bs"
  shows "sorted (map price_dollars (complement_ladder bs)) \<and>
    mset (map (\<lambda>l. (price_dollars l, size_contracts l)) (complement_ladder bs)) =
      mset (map (\<lambda>l. (fsub 1 (price_dollars l), size_contracts l)) taken) \<and>
    (\<forall>l \<in> set (complement_ladder bs). 0 < price_dollars l \<and> price_dollars l < 1) \<and>
    best_ask \<lparr>asks = complement_ladder bs, bids = []\<rparr> =
      (if taken = [] then None else Some (fsub 1 (Max (price_dollars ` set taken)))) \<and>
    (mset bs' = mset bs \<longrightarrow> map price_dollars (complement_ladder bs') = map price_dollars (complement_ladder bs))"
proof (intro conjI impI)
  show "sorted (map price_dollars (complement_ladder bs))" by (simp add: complement_ladder_eq)
  show "mset (map (\<lambda>l. (price_dollars l, size_contracts l)) (complement_ladder bs)) =
      mset (map (\<lambda>l. (fsub 1 (price_dollars l), size_contracts l)) taken)"
    by (simp add: complement_ladder_eq taken_def complement_level_def image_mset.compositionality comp_def)
  show "\<forall>l \<in> set (complement_ladder bs). 0 < price_dollars l \<and> price_dollars l < 1"
    by (auto simp: complement_ladder_eq takeable_def complement_level_def)
  show "best_ask \<lparr>asks = complement_ladder bs, bids = []\<rparr> =
      (if taken = [] then None else Some (fsub 1 (Max (price_dollars ` set taken))))"
  proof (cases "taken = []")
    case True
    then show ?thesis by (simp add: best_ask_def complement_ladder_eq taken_def)
  next
    case False
    have "price_dollars (hd (complement_ladder bs)) = Min (price_dollars ` set (map complement_level taken))"
      unfolding complement_ladder_eq taken_def [symmetric] using False by (intro hd_sort_key_Min) simp
    also have "price_dollars ` set (map complement_level taken) = fsub 1 ` price_dollars ` set taken"
      by (simp add: image_image complement_level_def)
    also have "Min \<dots> = fsub 1 (Max (price_dollars ` set taken))" using False by (intro Min_complement) simp_all
    finally show ?thesis
      using False by (simp add: best_ask_def complement_ladder_eq taken_def [symmetric]) (metis length_0_conv length_sort length_map)
  qed
  show "map price_dollars (complement_ladder bs') = map price_dollars (complement_ladder bs)" if "mset bs' = mset bs"
    unfolding complement_ladder_eq using that by (intro sorted_prices_unique) (simp add: mset_filter)
qed

theorem complement_ladder_is_the_other_side_witness:
  "map price_dollars (complement_ladder [\<lparr>price_dollars = 1 / 4, size_contracts = 5\<rparr>, \<lparr>price_dollars = 1 / 2, size_contracts = 3\<rparr>]) =
   map price_dollars (complement_ladder [\<lparr>price_dollars = 1 / 2, size_contracts = 3\<rparr>, \<lparr>price_dollars = 1 / 4, size_contracts = 5\<rparr>])"
proof -
  have "mset [\<lparr>price_dollars = 1 / 4, size_contracts = 5\<rparr>, \<lparr>price_dollars = 1 / 2, size_contracts = 3\<rparr>] =
      mset [\<lparr>price_dollars = 1 / 2, size_contracts = 3\<rparr>, \<lparr>price_dollars = 1 / 4, size_contracts = 5\<rparr> :: book_level]"
    by simp
  then show ?thesis using complement_ladder_is_the_other_side by blast
qed

end
