(* ===== verification/Wording.thy ===== *)
theory Wording
  imports Python_Text Float_Error
begin

text \<open>
  crossvenue/text.py: turning two venues' prose into comparable facts.

  Text is Latin-1. Accents are folded by the decomposition table of Unicode restricted to these
  256 characters; the Greek mu and the fraction slash, which lie outside them, are written as the
  micro sign and as a slash. A missing neighbour of a character counts as a blank, which no
  look-around of the expressions below can tell from the edge of the text.
\<close>

section \<open>Tables\<close>

definition boilerplate :: "string list" where
  "boilerplate =
     [''will'', ''the'', ''a'', ''an'', ''of'', ''in'', ''on'', ''at'', ''to'', ''by'', ''for'', ''be'', ''is'',
      ''are'', ''this'', ''that'', ''market'', ''markets'', ''resolve'', ''resolves'', ''resolved'',
      ''resolution'', ''yes'', ''no'', ''then'', ''if'', ''and'', ''or'', ''vs'', ''versus'', ''game'',
      ''match'', ''professional'', ''originally'', ''scheduled'']"

definition synonyms :: "(string \<times> string) list" where
  "synonyms =
     [(''btc'', ''bitcoin''), (''xbt'', ''bitcoin''), (''eth'', ''ethereum''), (''sol'', ''solana''),
      (''doge'', ''dogecoin''), (''fed'', ''federal reserve''), (''fomc'', ''federal reserve''),
      (''potus'', ''president''), (''gop'', ''republican''), (''dems'', ''democratic''),
      (''democrat'', ''democratic''), (''bps'', ''basis points''), (''bp'', ''basis points''),
      (''pct'', ''percent''), (''usa'', ''us''), (''united states'', ''us''), (''nyc'', ''new york city'')]"

definition team_exceptions :: "(string \<times> string) list" where
  "team_exceptions =
     [([CHR ''a'', CHR 0x27, CHR ''s''], ''athletics''), (''as'', ''athletics''), (''ath'', ''athletics''),
      (''oakland'', ''athletics''), (''washington f'', ''washington commanders'')]"

definition city_words :: "string list" where
  "city_words = [''bay'', ''city'', ''new'', ''san'', ''los'', ''las'']"

definition scales :: "(string \<times> pyfloat) list" where
  "scales = [(''k'', 1000), (''m'', 1000000), (''b'', 1000000000)]"

definition comparators :: "(string \<times> string) list" where
  "comparators =
     [(''greater than or equal to'', ''greater_equal''), (''less than or equal to'', ''less_equal''),
      (''at or above'', ''greater_equal''), (''at or below'', ''less_equal''),
      (''or above'', ''greater_equal''), (''or higher'', ''greater_equal''), (''or more'', ''greater_equal''),
      (''or below'', ''less_equal''), (''or lower'', ''less_equal''), (''or less'', ''less_equal''),
      (''greater than'', ''greater''), (''more than'', ''greater''), (''higher than'', ''greater''),
      (''at least'', ''greater_equal''), (''less than'', ''less''), (''lower than'', ''less''),
      (''fewer than'', ''less''), (''at most'', ''less_equal''), (''above'', ''greater''), (''below'', ''less''),
      (''exceed'', ''greater''), (''reach'', ''greater_equal''), (''hit'', ''greater_equal''),
      (''dip to'', ''less_equal''), (''>='', ''greater_equal''), (''<='', ''less_equal''), (''>'', ''greater''),
      (''<'', ''less'')]"

definition tz_abbreviations :: "(string \<times> string) list" where
  "tz_abbreviations =
     [(''ET'', ''America/New_York''), (''ET.'', ''America/New_York''), (''EDT'', ''America/New_York''),
      (''EST'', ''America/New_York''), (''CT'', ''America/Chicago''), (''CDT'', ''America/Chicago''),
      (''CST'', ''America/Chicago''), (''MT'', ''America/Denver''), (''MDT'', ''America/Denver''),
      (''MST'', ''America/Denver''), (''PT'', ''America/Los_Angeles''), (''PDT'', ''America/Los_Angeles''),
      (''PST'', ''America/Los_Angeles''), (''UTC'', ''UTC''), (''GMT'', ''UTC''), (''Z'', ''UTC'')]"

definition months :: "(string \<times> int) list" where
  "months = [(''jan'', 1), (''feb'', 2), (''mar'', 3), (''apr'', 4), (''may'', 5), (''jun'', 6), (''jul'', 7),
     (''aug'', 8), (''sep'', 9), (''oct'', 10), (''nov'', 11), (''dec'', 12)]"

section \<open>Normalisation\<close>

definition accent_table :: "(nat \<times> nat \<times> string) list" where
  "accent_table =
     [(160, 160, '' ''), (168, 168, '' ''), (170, 170, ''a''), (175, 175, '' ''), (178, 178, ''2''),
      (179, 179, ''3''), (180, 180, '' ''), (184, 184, '' ''), (185, 185, ''1''), (186, 186, ''o''),
      (188, 188, ''1/4''), (189, 189, ''1/2''), (190, 190, ''3/4''), (192, 197, ''A''), (199, 199, ''C''),
      (200, 203, ''E''), (204, 207, ''I''), (209, 209, ''N''), (210, 214, ''O''), (217, 220, ''U''),
      (221, 221, ''Y''), (224, 229, ''a''), (231, 231, ''c''), (232, 235, ''e''), (236, 239, ''i''),
      (241, 241, ''n''), (242, 246, ''o''), (249, 252, ''u''), (253, 253, ''y''), (255, 255, ''y'')]"

definition fold_accent :: "char \<Rightarrow> string" where
  "fold_accent c =
     (let n = code c
      in if n < 160 then [c]
         else case find (\<lambda>(lo, hi, s). lo \<le> n \<and> n \<le> hi) accent_table of
           None \<Rightarrow> [c] | Some (lo, hi, s) \<Rightarrow> s)"

definition strip_accents :: "string \<Rightarrow> string" where "strip_accents s = concat (map fold_accent s)"

text \<open>The characters of a text, each replaced in view of its two neighbours.\<close>

fun context_map :: "(char \<Rightarrow> char \<Rightarrow> char \<Rightarrow> char) \<Rightarrow> char \<Rightarrow> string \<Rightarrow> string" where
  "context_map f p [] = []"
| "context_map f p (c # cs) = f p c (next_char cs) # context_map f c cs"

definition blank :: char where "blank = CHR '' ''"

definition word_hyphen :: "char \<Rightarrow> char \<Rightarrow> char \<Rightarrow> char" where
  "word_hyphen p c n = (if c = CHR ''-'' \<and> is_lower p \<and> is_lower n then blank else c)"

definition word_period :: "char \<Rightarrow> char \<Rightarrow> char \<Rightarrow> char" where
  "word_period p c n = (if c = CHR ''.'' \<and> \<not> (is_digit p \<and> is_digit n) then blank else c)"

definition punct :: "char \<Rightarrow> char" where
  "punct c = (if is_word c \<or> is_space c \<or> c \<in> set ''.$%-+'' then c else blank)"

definition spell_out :: "char \<Rightarrow> string" where
  "spell_out c = (if c = CHR ''&'' then '' and '' else if c = CHR ''/'' then '' '' else [c])"

definition normalize_text :: "string \<Rightarrow> string" where
  "normalize_text s =
     strip (squeeze (map punct
       (context_map word_period blank
         (context_map word_hyphen blank
           (concat (map spell_out (lower (strip_accents s))))))))"

definition normalized_team_exceptions :: "(string \<times> string) list" where
  "normalized_team_exceptions = map (\<lambda>(k, v). (normalize_text k, v)) team_exceptions"

definition tokenize_with :: "bool \<Rightarrow> string \<Rightarrow> string list" where
  "tokenize_with drop_boilerplate s =
     concat (map (\<lambda>raw.
       let token = strip_chars ''.-'' raw
       in if token = [] then []
          else filter (\<lambda>part. \<not> (drop_boilerplate \<and> part \<in> set boilerplate))
            (split_ws (case map_of synonyms token of None \<Rightarrow> token | Some e \<Rightarrow> e)))
       (split_ws (normalize_text s)))"

definition tokenize :: "string \<Rightarrow> string list" where "tokenize s = tokenize_with True s"

section \<open>Numbers\<close>

definition number_re :: regex where
  "number_re =
     (let char = (\<lambda>c. Class (\<lambda>x. x = c));
          fraction = Maybe (Sequence [char (CHR ''.''), one_or_more digit])
      in Sequence
        [Maybe (Group ''currency'' (char (CHR ''$''))), blanks,
         Group ''value'' (Choice
           [Sequence [digit, Maybe (Sequence [digit, Maybe digit]),
              one_or_more (Sequence [char (CHR '',''), digit, digit, digit]), fraction],
            Sequence [one_or_more digit, fraction]]),
         blanks,
         Maybe (Group ''scale'' (Sequence [Class (\<lambda>c. c \<in> set ''kKmMbB''), NotBefore is_letter])),
         blanks,
         Maybe (Group ''unit'' (Choice (map literal
           [''%'', ''bps'', ''basis points'', ''percent'', ''dollars'', ''usd''])))])"

definition parse_number :: "string \<Rightarrow> pyfloat option" where
  "parse_number text =
     (case search number_re text of None \<Rightarrow> None
      | Some g \<Rightarrow>
          (case float_of_text (filter (\<lambda>c. c \<noteq> CHR '','') (get_default g ''value'' [])) of None \<Rightarrow> None
           | Some v \<Rightarrow>
               (case g ''scale'' of None \<Rightarrow> Some v
                | Some k \<Rightarrow> map_option (fmul v) (map_of scales (lower k)))))"

definition extract_units :: "string \<Rightarrow> string option" where
  "extract_units text =
     (let lowered = lower text
      in if contains ''bps'' lowered \<or> contains ''basis point'' lowered then Some ''bps''
         else if contains ''%'' lowered \<or> contains ''percent'' lowered then Some ''percent''
         else if contains ''$'' lowered \<or> contains ''usd'' lowered \<or> contains ''dollar'' lowered then Some ''usd''
         else None)"

definition extract_comparator :: "string \<Rightarrow> string" where
  "extract_comparator text =
     (case filter (\<lambda>(phrase, c). contains phrase (lower text)) comparators of
        [] \<Rightarrow> ''none'' | (phrase, c) # _ \<Rightarrow> c)"

definition extract_threshold :: "string \<Rightarrow> string \<times> pyfloat option \<times> string option" where
  "extract_threshold text = (extract_comparator text, parse_number text, extract_units text)"

section \<open>Thresholds\<close>

text \<open>\<open>math.isclose\<close> as CPython computes it.\<close>

definition is_close :: "pyfloat \<Rightarrow> pyfloat \<Rightarrow> pyfloat \<Rightarrow> pyfloat \<Rightarrow> bool" where
  "is_close rel_tol abs_tol a b \<longleftrightarrow>
     a = b \<or>
     (let diff = \<bar>fsub b a\<bar>
      in diff \<le> \<bar>fmul rel_tol b\<bar> \<or> diff \<le> \<bar>fmul rel_tol a\<bar> \<or> diff \<le> abs_tol)"

definition same_direction :: "(string \<times> string) list" where
  "same_direction = [(''greater'', ''up''), (''greater_equal'', ''up''), (''less'', ''down''), (''less_equal'', ''down'')]"

definition thresholds_equivalent ::
    "pyfloat \<Rightarrow> string \<Rightarrow> pyfloat option \<Rightarrow> string \<Rightarrow> pyfloat option \<Rightarrow> bool" where
  "thresholds_equivalent tick left_comparator left_threshold right_comparator right_threshold =
     (case (left_threshold, right_threshold) of
        (Some l, Some r) \<Rightarrow>
          (case (map_of same_direction left_comparator, map_of same_direction right_comparator) of
             (Some ld, Some rd) \<Rightarrow>
               if ld \<noteq> rd then False
               else if is_close (lit 1 1000000000) (lit 1 1000000000) l r then left_comparator = right_comparator
               else (let gap = fsub r l; a_tick = is_close (lit 1 1000000) (fdiv tick 100)
                 in if ld = ''up'' then
                      if left_comparator = ''greater'' \<and> right_comparator = ''greater_equal'' then a_tick gap tick
                      else if left_comparator = ''greater_equal'' \<and> right_comparator = ''greater'' then a_tick (- gap) tick
                      else False
                    else if left_comparator = ''less'' \<and> right_comparator = ''less_equal'' then a_tick (- gap) tick
                    else if left_comparator = ''less_equal'' \<and> right_comparator = ''less'' then a_tick gap tick
                    else False)
           | _ \<Rightarrow> left_comparator = right_comparator \<and> is_close (lit 1 1000000000) (fdiv tick 2) l r)
      | (l, r) \<Rightarrow> l = None \<and> r = None)"

section \<open>Dates\<close>

definition leap_year :: "int \<Rightarrow> bool" where
  "leap_year y \<longleftrightarrow> y mod 4 = 0 \<and> (y mod 100 \<noteq> 0 \<or> y mod 400 = 0)"

definition days_in_month :: "int \<Rightarrow> int \<Rightarrow> int" where
  "days_in_month y m =
     (if m = 2 then if leap_year y then 29 else 28 else if m \<in> {4, 6, 9, 11} then 30 else 31)"

definition days_before_year :: "int \<Rightarrow> int" where
  "days_before_year y = (let p = y - 1 in p * 365 + p div 4 - p div 100 + p div 400)"

definition days_before_month :: "int \<Rightarrow> int \<Rightarrow> int" where
  "days_before_month y m = sum_list (map (days_in_month y) [1..m - 1])"

text \<open>The seconds from the epoch to a wall-clock time, as if in UTC; the constructor refuses impossible dates.\<close>

definition naive_seconds :: "int \<Rightarrow> int \<Rightarrow> int \<Rightarrow> int \<Rightarrow> int \<Rightarrow> int option" where
  "naive_seconds year month day hour minute =
     (if 1 \<le> year \<and> year \<le> 9999 \<and> 1 \<le> month \<and> month \<le> 12 \<and> 1 \<le> day \<and> day \<le> days_in_month year month \<and>
         0 \<le> hour \<and> hour \<le> 23 \<and> 0 \<le> minute \<and> minute \<le> 59
      then Some ((days_before_year year + days_before_month year month + day - 719163) * 86400 + hour * 3600 + minute * 60)
      else None)"

definition datetime_re :: regex where
  "datetime_re =
     (let char = (\<lambda>c. Class (\<lambda>x. x = c)); letter = Class is_letter; space = Class is_space
      in Sequence
        [Group ''month'' (Choice (map literal_nocase
           [''Jan'', ''Feb'', ''Mar'', ''Apr'', ''May'', ''Jun'', ''Jul'', ''Aug'', ''Sep'', ''Oct'', ''Nov'', ''Dec''])),
         Many letter, Maybe (char (CHR ''.'')), one_or_more space,
         Group ''day'' (Sequence [digit, Maybe digit]), Maybe (char (CHR '','')), one_or_more space,
         Group ''year'' (Sequence [digit, digit, digit, digit]),
         Maybe (Sequence
           [blanks, Maybe (Choice [literal_nocase ''at'', char (CHR '','')]), blanks,
            Group ''hour'' (Sequence [digit, Maybe digit]),
            Maybe (Sequence [char (CHR '':''), Group ''minute'' (Sequence [digit, digit])]), blanks,
            Maybe (Group ''meridiem'' (Choice [literal_nocase ''AM'', literal_nocase ''PM''])), blanks,
            Maybe (Group ''tz'' (Sequence [letter, letter, Maybe (Sequence [letter, Maybe letter])]))])])"

definition int_of_digits :: "string \<Rightarrow> int" where
  "int_of_digits s = foldl (\<lambda>n c. 10 * n + digit_value c) 0 s"

text \<open>
  The time-zone database is an argument: the offset from UTC, in seconds, of a zone at a wall-clock
  time. The result is \<open>None\<close> where the source returns none.
\<close>

definition parse_datetime_phrase :: "(string \<Rightarrow> int \<Rightarrow> int) \<Rightarrow> string \<Rightarrow> exc + int option" where
  "parse_datetime_phrase utcoffset text =
     (case search datetime_re text of None \<Rightarrow> Inr None
      | Some g \<Rightarrow>
          (case map_of months (lower (take 3 (get_default g ''month'' []))) of None \<Rightarrow> Inr None
           | Some month \<Rightarrow>
               (let hour = (case g ''hour'' of None \<Rightarrow> 0 | Some h \<Rightarrow> int_of_digits h);
                    minute = (case g ''minute'' of None \<Rightarrow> 0 | Some m \<Rightarrow> int_of_digits m);
                    meridiem = lower (get_default g ''meridiem'' []);
                    hour = (if meridiem = ''pm'' \<and> hour \<noteq> 12 then hour + 12
                            else if meridiem = ''am'' \<and> hour = 12 then 0 else hour)
                in if \<not> (0 \<le> hour \<and> hour \<le> 23) then Inr None
                   else case naive_seconds (int_of_digits (get_default g ''year'' [])) month
                       (int_of_digits (get_default g ''day'' [])) hour minute of
                     None \<Rightarrow> Inr None
                   | Some local \<Rightarrow>
                       (let zone = map_of tz_abbreviations (map upper_char (get_default g ''tz'' ''UTC''));
                            utc = local - (case zone of None \<Rightarrow> 0
                              | Some z \<Rightarrow> if z = ''UTC'' then 0 else utcoffset z local)
                        in if - 62135596800 \<le> utc \<and> utc < 253402300800 then Inr (Some (utc * 1000000))
                           else Inl OverflowError))))"

section \<open>Teams\<close>

definition resolve_team_alias :: "string \<Rightarrow> string \<times> string option" where
  "resolve_team_alias label =
     (let normalized = normalize_text label
      in case map_of normalized_team_exceptions normalized of
           Some canonical \<Rightarrow> (canonical, None)
         | None \<Rightarrow>
             (let parts = split_ws normalized
              in if 2 \<le> length parts \<and> length (last parts) \<le> 3 \<and> list_all is_alpha (last parts) \<and>
                    last parts \<notin> set city_words
                 then (join_sp (butlast parts), Some (last parts))
                 else (normalized, None)))"

definition teams_match :: "string \<Rightarrow> string \<Rightarrow> bool" where
  "teams_match kalshi_label other_label =
     (let (city, initials) = resolve_team_alias kalshi_label;
          other = normalize_text other_label
      in if city \<in> set (map snd team_exceptions) \<and> contains city other then True
         else if \<not> starts_with city other \<and> \<not> contains city other then False
         else case initials of None \<Rightarrow> True
           | Some ini \<Rightarrow>
               (let remainder = (if starts_with city other then strip (drop (length city) other) else other);
                    nickname_words = split_ws remainder
                in if nickname_words = [] then False
                   else starts_with ini (map hd nickname_words) \<or> starts_with ini (hd nickname_words)))"

section \<open>Weighted overlap\<close>

text \<open>
  The logarithm of the C library is an argument. A set is iterated in an order of the interpreter's
  choosing, which only a sum of floats can show: the order is an argument as well.
\<close>

definition document_frequencies :: "string list list \<Rightarrow> string \<rightharpoonup> int" where
  "document_frequencies documents =
     fold (\<lambda>document freq. fold (\<lambda>token freq. freq(token \<mapsto> get_default freq token 0 + 1)) (remdups document) freq)
       documents Map.empty"

definition inverse_document_frequency :: "(pyfloat \<Rightarrow> pyfloat) \<Rightarrow> string list list \<Rightarrow> string \<rightharpoonup> pyfloat" where
  "inverse_document_frequency log_of documents =
     (if documents = [] then Map.empty
      else (\<lambda>token. map_option (\<lambda>f. max 0 (log_of (rnd (of_nat (length documents) / of_int (1 + f)))))
        (document_frequencies documents token)))"

definition weighted_overlap ::
    "(string set \<Rightarrow> string list) \<times> (string set \<Rightarrow> string list) \<Rightarrow> string list \<Rightarrow> string list \<Rightarrow>
     (string \<rightharpoonup> pyfloat) \<Rightarrow> pyfloat" where
  "weighted_overlap orders left right weights =
     (let l = set left; r = set right; weigh = (\<lambda>ts. py_sum (map (\<lambda>t. get_default weights t 1) ts))
      in if l = {} \<or> r = {} then 0
         else let union_weight = weigh (fst orders (l \<union> r))
           in if union_weight \<le> 0 then rnd (of_nat (card (l \<inter> r)) / of_nat (card (l \<union> r)))
              else fdiv (weigh (snd orders (l \<inter> r))) union_weight)"

end
