(* ===== verification/Matching.thy ===== *)
theory Matching
  imports Books Wording "HOL-Library.AList" "HOL-Library.List_Lexorder" "HOL-Library.Char_ord"
    "HOL-Library.Product_Lexorder"
begin

text \<open>
  crossvenue/matching.py: candidate generation over an inverted token index, the fuzzy score, and
  the settlement gate that decides whether two markets may be called identical.

  A piece of evidence and a blocker are constructors with what the source prints in them; the
  sentences themselves are left out.
\<close>

section \<open>Tables and data\<close>

definition max_index_document_fraction :: pyfloat where "max_index_document_fraction = lit 8 100"
definition seed_tokens :: nat where "seed_tokens = 6"
definition affirmative_labels :: "string list" where "affirmative_labels = [''yes'', ''over'', ''true'']"
definition negative_labels :: "string list" where "negative_labels = [''no'', ''under'', ''false'']"

definition draw_capable_sports :: "string list" where
  "draw_capable_sports =
     [''soccer'', ''cricket'', ''chess'', ''football club'', ''test match'', ''draw'', ''kbo'', ''npb'']"

definition qualifier_tokens :: "string list" where
  "qualifier_tokens =
     [''vp'', ''vice'', ''deputy'', ''runner'', ''loser'', ''not'', ''without'', ''excluding'', ''runoff'',
      ''consecutive'', ''combined'', ''top'', ''second'', ''third'', ''highest'', ''lowest'', ''map'',
      ''global'', ''worldwide'']"

definition lexical_weight :: pyfloat where "lexical_weight = lit 45 100"
definition time_weight :: pyfloat where "time_weight = lit 20 100"
definition label_weight :: pyfloat where "label_weight = lit 35 100"

record matcher_config =
  min_score :: pyfloat
  strong_score :: pyfloat
  scheduled_time_tolerance_seconds :: int
  expiry_tolerance_seconds :: int
  max_candidates_per_market :: nat

definition default_matcher_config :: matcher_config where
  "default_matcher_config =
     \<lparr>min_score = lit 42 100, strong_score = lit 60 100, scheduled_time_tolerance_seconds = 1800,
      expiry_tolerance_seconds = 86400, max_candidates_per_market = 10\<rparr>"

record match_stats =
  kalshi_markets :: int
  other_markets :: int
  total_pairs :: int
  indexed_tokens :: int
  tokens_dropped_as_too_common :: int
  candidates_scored :: int

text \<open>\<open>None\<close> is the infinite factor.\<close>

definition reduction_factor :: "match_stats \<Rightarrow> pyfloat option" where
  "reduction_factor s =
     (if candidates_scored s = 0 then None else Some (rnd (of_int (total_pairs s) / of_int (candidates_scored s))))"

record indexed =
  ix_market :: normalized_market
  ix_tokens :: "string list"

datatype reason =
    QualifierOnOneSide string | OutcomeUnknown | BelowGate
  | MayDraw string | OneSideLevel | UnitsDiffer string string | RangeMarket | ThresholdsDiffer
  | StartsDiffer pyfloat | NotSameDay | NoSource | SourcesDisjoint

datatype remark =
    LexicalOverlap pyfloat
  | Proposition string string | InvertedProposition string string | TeamsAmbiguous | TeamsMatched string string
  | StartWithin pyfloat | StartApart pyfloat | ExpiryWithin pyfloat | ExpiryApart pyfloat | NoTimestamps
  | LabelByTeams | LabelAbsent | LabelShare pyfloat
  | NoDrawInWording | NoNumericClaim | SameThreshold | SameStart | SameDate | SharedSource "string set"
  | MaySettleEarly

type_synonym matched = "(remark, reason) matched_pair"

section \<open>Candidates\<close>

definition add_posting :: "indexed \<Rightarrow> string \<Rightarrow> (string \<times> indexed list) list \<Rightarrow> (string \<times> indexed list) list" where
  "add_posting entry token postings =
     AList.update token ((case map_of postings token of None \<Rightarrow> [] | Some ms \<Rightarrow> ms) @ [entry]) postings"

definition build_index :: "indexed list \<Rightarrow> (string \<times> indexed list) list \<times> int" where
  "build_index entries =
     (let postings = fold (\<lambda>entry. fold (add_posting entry) (remdups (ix_tokens entry))) entries [];
          ceiling = max 1 (py_int (fmul (float_of (int (length entries))) max_index_document_fraction));
          index = filter (\<lambda>(token, markets). int (length markets) \<le> ceiling) postings
      in (index, int (length postings) - int (length index)))"

definition weight_of :: "(string \<rightharpoonup> pyfloat) \<Rightarrow> string \<Rightarrow> pyfloat" where
  "weight_of weights token = get_default weights token 1"

definition seeds_of :: "(string \<rightharpoonup> pyfloat) \<Rightarrow> indexed \<Rightarrow> string list" where
  "seeds_of weights entry =
     take seed_tokens (sort_key (\<lambda>token. (- weight_of weights token, token)) (remdups (ix_tokens entry)))"

definition add_hit :: "pyfloat \<Rightarrow> indexed \<Rightarrow> (string \<times> indexed \<times> pyfloat) list \<Rightarrow> (string \<times> indexed \<times> pyfloat) list" where
  "add_hit weight candidate hits =
     (let key = market_id (ix_market candidate);
          accumulated = fadd (case map_of hits key of None \<Rightarrow> 0 | Some (_, w) \<Rightarrow> w) weight
      in AList.update key (candidate, accumulated) hits)"

definition candidates ::
    "matcher_config \<Rightarrow> indexed \<Rightarrow> (string \<times> indexed list) list \<Rightarrow> (string \<rightharpoonup> pyfloat) \<Rightarrow> indexed list" where
  "candidates config entry index weights =
     (let hits = fold (\<lambda>token. fold (add_hit (weight_of weights token))
            (case map_of index token of None \<Rightarrow> [] | Some markets \<Rightarrow> markets)) (seeds_of weights entry) [];
          ranked = sort_key (\<lambda>(candidate, w). (- w, market_id (ix_market candidate))) (map snd hits)
      in map fst (take (max_candidates_per_market config) ranked))"

section \<open>The score\<close>

definition label_key :: "string \<Rightarrow> string" where "label_key l = lower (strip l)"

definition resolve_alignment :: "normalized_market \<Rightarrow> normalized_market \<Rightarrow> bool option \<times> remark option" where
  "resolve_alignment kalshi other =
     (let yes = label_key (yes_label other); no = label_key (no_label other)
      in if yes \<in> set affirmative_labels \<and> no \<in> set negative_labels
           then (Some True, Some (Proposition (yes_label other) (no_label other)))
         else if yes \<in> set negative_labels \<and> no \<in> set affirmative_labels
           then (Some False, Some (InvertedProposition (yes_label other) (no_label other)))
         else if teams_match (yes_label kalshi) (yes_label other) then
           if teams_match (yes_label kalshi) (no_label other) then (None, Some TeamsAmbiguous)
           else (Some True, Some (TeamsMatched (yes_label kalshi) (yes_label other)))
         else if teams_match (yes_label kalshi) (no_label other)
           then (Some False, Some (TeamsMatched (yes_label kalshi) (no_label other)))
         else (None, None))"

definition about_teams :: "remark option \<Rightarrow> bool" where
  "about_teams r = (case r of Some TeamsAmbiguous \<Rightarrow> True | Some (TeamsMatched _ _) \<Rightarrow> True | _ \<Rightarrow> False)"

definition label_agreement :: "normalized_market \<Rightarrow> indexed \<Rightarrow> bool \<Rightarrow> pyfloat \<times> remark" where
  "label_agreement kalshi other matched_by_team =
     (if matched_by_team then (1, LabelByTeams)
      else let label_tokens = set (tokenize (yes_label kalshi))
           in if label_tokens = {} then (0, LabelAbsent)
              else let question_tokens = set (tokenize (question (ix_market other) @ '' '' @ yes_label (ix_market other)));
                       present = label_tokens \<inter> question_tokens;
                       s = rnd (of_nat (card present) / of_nat (card label_tokens))
                   in (s, LabelShare s))"

definition qualifier_conflict :: "string list \<Rightarrow> string list \<Rightarrow> string option" where
  "qualifier_conflict kalshi_tokens other_tokens =
     (case sort (filter (\<lambda>q. (q \<in> set kalshi_tokens) \<noteq> (q \<in> set other_tokens)) qualifier_tokens) of
        [] \<Rightarrow> None | q # _ \<Rightarrow> Some q)"

text \<open>\<open>abs((left - right).total_seconds())\<close>\<close>

definition seconds_apart :: "utc \<Rightarrow> utc \<Rightarrow> pyfloat" where
  "seconds_apart a b = \<bar>rnd (of_int (a - b) / 1000000)\<bar>"

definition time_agreement :: "normalized_market \<Rightarrow> normalized_market \<Rightarrow> matcher_config \<Rightarrow> pyfloat \<times> remark" where
  "time_agreement kalshi other config =
     (case (scheduled_event_time (terms kalshi), scheduled_event_time (terms other)) of
        (Some a, Some b) \<Rightarrow>
          (let delta = seconds_apart a b
           in if delta \<le> of_int (scheduled_time_tolerance_seconds config) then (1, StartWithin delta)
              else (0, StartApart delta))
      | _ \<Rightarrow>
          (case (expiry_time (terms kalshi), expiry_time (terms other)) of
             (Some a, Some b) \<Rightarrow>
               (let delta = seconds_apart a b
                in if delta \<le> of_int (expiry_tolerance_seconds config) then (lit 6 10, ExpiryWithin (fdiv delta 3600))
                   else (0, ExpiryApart (fdiv delta 3600)))
           | _ \<Rightarrow> (lit 3 10, NoTimestamps)))"

section \<open>The settlement gate\<close>

definition draw_blockers :: "normalized_market \<Rightarrow> normalized_market \<Rightarrow> reason list \<times> remark list" where
  "draw_blockers kalshi other =
     (if label_key (yes_label other) \<in> set affirmative_labels then ([], [])
      else let wording = lower (raw_rules (terms kalshi) @ '' '' @ question kalshi @ '' '' @ question other);
               drawable = sort (filter (\<lambda>token. contains token wording) draw_capable_sports)
           in case drawable of [] \<Rightarrow> ([], [NoDrawInWording]) | sport # _ \<Rightarrow> ([MayDraw sport], []))"

definition threshold_blockers :: "normalized_market \<Rightarrow> normalized_market \<Rightarrow> reason list \<times> remark list" where
  "threshold_blockers kalshi other =
     (let k = terms kalshi; p = terms other; ku = threshold_units k; pu = threshold_units p
      in if threshold k = None \<and> threshold p = None then ([], [NoNumericClaim])
         else if (threshold k \<noteq> None) \<noteq> (threshold p \<noteq> None) then ([OneSideLevel], [])
         else if ku \<notin> {None, Some []} \<and> pu \<notin> {None, Some []} \<and> ku \<noteq> pu then ([UnitsDiffer (the ku) (the pu)], [])
         else if comparator k = Between \<or> comparator p = Between then ([RangeMarket], [])
         else if \<not> thresholds_equivalent (lit 1 100) (comparator_value (comparator k)) (threshold k)
             (comparator_value (comparator p)) (threshold p) then ([ThresholdsDiffer], [])
         else ([], [SameThreshold]))"

definition microseconds_per_day :: int where "microseconds_per_day = 86400000000"

definition same_day :: "utc option \<Rightarrow> utc option \<Rightarrow> bool" where
  "same_day l r =
     (case (l, r) of (Some a, Some b) \<Rightarrow> a div microseconds_per_day = b div microseconds_per_day | _ \<Rightarrow> False)"

definition timing_blockers ::
    "normalized_market \<Rightarrow> normalized_market \<Rightarrow> matcher_config \<Rightarrow> reason list \<times> remark list" where
  "timing_blockers kalshi other config =
     (case (scheduled_event_time (terms kalshi), scheduled_event_time (terms other)) of
        (Some a, Some b) \<Rightarrow>
          (let delta = seconds_apart a b
           in if of_int (scheduled_time_tolerance_seconds config) < delta then ([StartsDiffer delta], [])
              else ([], [SameStart]))
      | _ \<Rightarrow>
          if \<not> same_day (expiry_time (terms kalshi)) (expiry_time (terms other)) then ([NotSameDay], [])
          else ([], [SameDate]))"

definition source_noise :: "string list" where
  "source_noise = [''https'', ''http'', ''www'', ''com'', ''org'', ''net'', ''official'', ''website'']"

definition source_tokens :: "string list \<Rightarrow> string set" where
  "source_tokens sources =
     set (concat (map (\<lambda>source.
       filter (\<lambda>token. token \<notin> set source_noise \<and> 2 < length token)
         (tokenize (map (\<lambda>c. if c \<in> set ''/.:'' then CHR '' '' else c) source))) sources))"

definition source_blockers :: "normalized_market \<Rightarrow> normalized_market \<Rightarrow> reason list \<times> remark list" where
  "source_blockers kalshi other =
     (let ks = resolution_sources (terms kalshi); os = resolution_sources (terms other)
      in if ks = [] \<or> os = [] then ([NoSource], [])
         else let shared = source_tokens ks \<inter> source_tokens os
              in if shared = {} then ([SourcesDisjoint], []) else ([], [SharedSource shared]))"

definition settlement_blockers ::
    "normalized_market \<Rightarrow> normalized_market \<Rightarrow> matcher_config \<Rightarrow> reason list \<times> remark list" where
  "settlement_blockers kalshi other config =
     (let (b1, e1) = draw_blockers kalshi other;
          (b2, e2) = threshold_blockers kalshi other;
          (b3, e3) = timing_blockers kalshi other config;
          (b4, e4) = source_blockers kalshi other
      in (b1 @ b2 @ b3 @ b4,
          e1 @ e2 @ e3 @ e4 @
          (if can_close_early (terms other) \<and> \<not> can_close_early (terms kalshi) then [MaySettleEarly] else [])))"

section \<open>Matching\<close>

type_synonym set_orders = "(string set \<Rightarrow> string list) \<times> (string set \<Rightarrow> string list)"

definition evaluate ::
    "set_orders \<Rightarrow> matcher_config \<Rightarrow> indexed \<Rightarrow> indexed \<Rightarrow> (string \<rightharpoonup> pyfloat) \<Rightarrow> matched option" where
  "evaluate orders config kalshi other weights =
     (let lexical = weighted_overlap orders (ix_tokens kalshi) (ix_tokens other) weights;
          (side, alignment) = resolve_alignment (ix_market kalshi) (ix_market other);
          (time_score, time_remark) = time_agreement (ix_market kalshi) (ix_market other) config;
          matched_by_team = (side \<noteq> None \<and> about_teams alignment);
          (label_score, label_remark) = label_agreement (ix_market kalshi) other matched_by_team;
          remarks = [LexicalOverlap lexical] @ (case alignment of None \<Rightarrow> [] | Some r \<Rightarrow> [r]) @ [time_remark, label_remark];
          total_score = fadd (fadd (fmul lexical_weight lexical) (fmul time_weight time_score)) (fmul label_weight label_score);
          result = (\<lambda>a c es bs. Some \<lparr>mp_kalshi = ix_market kalshi, mp_other = ix_market other, aligned = a,
            confidence = c, score = total_score, evidence = es, blockers = bs\<rparr>)
      in if total_score < min_score config then None
         else case qualifier_conflict (tokenize (claim_text (ix_market kalshi))) (tokenize (claim_text (ix_market other))) of
           Some q \<Rightarrow> result (case side of None \<Rightarrow> True | Some a \<Rightarrow> a) Rejected remarks [QualifierOnOneSide q]
         | None \<Rightarrow>
             (case side of
                None \<Rightarrow> result True Rejected remarks [OutcomeUnknown]
              | Some a \<Rightarrow>
                  if total_score < strong_score config then result a Weak remarks [BelowGate]
                  else let (bs, es) = settlement_blockers (ix_market kalshi) (ix_market other) config
                       in result a (if bs = [] then Identical else Strong) (remarks @ es) bs))"

definition confidence_rank :: "match_confidence \<Rightarrow> int" where
  "confidence_rank c = (case c of Identical \<Rightarrow> 0 | Strong \<Rightarrow> 1 | Weak \<Rightarrow> 2 | Rejected \<Rightarrow> 3)"

definition index_market :: "normalized_market \<Rightarrow> indexed" where
  "index_market m = \<lparr>ix_market = m, ix_tokens = tokenize (search_text m)\<rparr>"

definition match_all ::
    "(pyfloat \<Rightarrow> pyfloat) \<Rightarrow> set_orders \<Rightarrow> matcher_config \<Rightarrow> normalized_market list \<Rightarrow> normalized_market list \<Rightarrow>
     matched list \<times> match_stats" where
  "match_all log_of orders config kalshi others =
     (let kalshi_indexed = map index_market kalshi; other_indexed = map index_market others
      in if kalshi_indexed = [] \<or> other_indexed = [] then
           ([], \<lparr>kalshi_markets = int (length kalshi_indexed), other_markets = int (length other_indexed), total_pairs = 0,
              indexed_tokens = 0, tokens_dropped_as_too_common = 0, candidates_scored = 0\<rparr>)
         else
           let weights = inverse_document_frequency log_of (map ix_tokens kalshi_indexed @ map ix_tokens other_indexed);
               (index, dropped_tokens) = build_index other_indexed;
               scored = concat (map (\<lambda>entry. map (\<lambda>candidate. (entry, candidate)) (candidates config entry index weights))
                 kalshi_indexed);
               pairs = List.map_filter (\<lambda>(entry, candidate). evaluate orders config entry candidate weights) scored
           in (sort_key (\<lambda>pair. (confidence_rank (confidence pair), - score pair)) pairs,
               \<lparr>kalshi_markets = int (length kalshi_indexed), other_markets = int (length other_indexed),
                total_pairs = int (length kalshi_indexed) * int (length other_indexed), indexed_tokens = int (length index),
                tokens_dropped_as_too_common = dropped_tokens, candidates_scored = int (length scored)\<rparr>))"

end
