(* ===== verification/Wording_Facts.thy ===== *)
theory Wording_Facts
  imports Wording
begin

text \<open>
  What the wording functions guarantee: thresholds compare as the claims they stand for, and
  normalising is idempotent, so that every later step may be given raw or normalised text.
\<close>

section \<open>Thresholds in whole cents\<close>

text \<open>The claim of a level market whose threshold is \<open>k\<close> cents, for a settlement value of \<open>v\<close> cents.\<close>

definition claim_holds :: "string \<Rightarrow> int \<Rightarrow> int \<Rightarrow> bool" where
  "claim_holds c k v \<longleftrightarrow>
     (if c = ''greater'' then k < v else if c = ''greater_equal'' then k \<le> v
      else if c = ''less'' then v < k else v \<le> k)"

text \<open>Cents up to a million dollars, as floats and as the sources subtract them.\<close>

definition cents :: "int \<Rightarrow> bool" where "cents k \<longleftrightarrow> \<bar>k\<bar> \<le> 100000000"

lemma cents_rat: "cents k \<Longrightarrow> \<bar>of_int k\<bar> \<le> (100000000 :: rat)"
  unfolding cents_def by (metis of_int_abs of_int_le_iff of_int_numeral)

lemma cents_lit: "cents k \<Longrightarrow> \<bar>lit k 100 - of_int k / 100\<bar> \<le> 1 / 1000000000"
proof -
  assume "cents k"
  then have "\<bar>of_int k / 100\<bar> \<le> (1000000 :: rat)" using cents_rat [of k] by simp
  then show ?thesis unfolding lit_def of_int_numeral by (rule rnd_close) (simp add: power_int_minus)
qed

lemma cents_gap:
  assumes "cents k" "cents m"
  shows "\<bar>fsub (lit m 100) (lit k 100) - of_int (m - k) / 100\<bar> \<le> 3 / 1000000000"
proof -
  have a: "\<bar>lit k 100 - of_int k / 100\<bar> \<le> 1 / 1000000000" "\<bar>lit m 100 - of_int m / 100\<bar> \<le> 1 / 1000000000"
    using assms cents_lit by simp_all
  then have "\<bar>lit m 100 - lit k 100\<bar> \<le> 2000001" using cents_rat [OF assms(1)] cents_rat [OF assms(2)] by linarith
  then have "\<bar>fsub (lit m 100) (lit k 100) - (lit m 100 - lit k 100)\<bar> \<le> 1 / 1000000000"
    unfolding fsub_def by (rule rnd_close) (simp add: power_int_minus)
  moreover have "of_int (m - k) / 100 = of_int m / 100 - (of_int k / 100 :: rat)" by (simp add: diff_divide_distrib)
  ultimately show ?thesis using a unfolding abs_le_iff by linarith
qed

lemma tick_bounds: "9 / 1000 \<le> lit 1 100 \<and> lit 1 100 \<le> 11 / 1000 \<and> \<bar>lit 1 100 - 1 / 100\<bar> \<le> 1 / 1000000000"
proof -
  have "\<bar>lit 1 100 - 1 / 100\<bar> \<le> 1 / 1000000000" using cents_lit [of 1] by (simp add: cents_def)
  then show ?thesis unfolding abs_le_iff by (intro conjI) linarith+
qed

lemma tolerance_bounds:
  "0 \<le> lit 1 1000000000" "lit 1 1000000000 \<le> 2 / 1000000000" "0 \<le> lit 1 1000000" "lit 1 1000000 \<le> 2 / 1000000"
  "1 / 100000 \<le> fdiv (lit 1 100) 100" "fdiv (lit 1 100) 100 \<le> 1 / 1000"
  by code_simp+

lemma scaled_small:
  assumes "0 \<le> rel" "rel \<le> e" "\<bar>x\<bar> \<le> M" "0 \<le> e" "e * M \<le> 1000" "M \<le> 10000000"
  shows "\<bar>fmul rel x\<bar> \<le> e * \<bar>x\<bar> + 1 / 1000000000"
proof -
  have p: "\<bar>rel * x\<bar> \<le> e * \<bar>x\<bar>" using assms by (simp add: abs_mult mult_right_mono)
  also have "\<dots> \<le> e * M" using assms by (intro mult_left_mono) simp_all
  finally have "\<bar>rel * x\<bar> \<le> 1000" using assms by simp
  then have "\<bar>fmul rel x - rel * x\<bar> \<le> 1 / 1000000000"
    unfolding fmul_def by (rule rnd_close) (simp add: power_int_minus)
  then show ?thesis using p by linarith
qed

lemma close_cents_iff:
  assumes "cents k" "cents m"
  shows "is_close (lit 1 1000000000) (lit 1 1000000000) (lit k 100) (lit m 100) \<longleftrightarrow> k = m"
proof (cases "k = m")
  case False
  let ?a = "lit k 100" and ?b = "lit m 100"
  have lits: "\<bar>?a\<bar> \<le> 1000001" "\<bar>?b\<bar> \<le> 1000001"
    using cents_lit [OF assms(1)] cents_lit [OF assms(2)] cents_rat [OF assms(1)] cents_rat [OF assms(2)] by linarith+
  have small: "\<bar>fmul (lit 1 1000000000) x\<bar> \<le> 3 / 1000" if "\<bar>x\<bar> \<le> 1000001" for x
    using scaled_small [OF tolerance_bounds(1,2) that] that by simp
  define d :: rat where "d = of_int (m - k)"
  have "1 \<le> \<bar>m - k\<bar>" using False by simp
  then have "1 \<le> \<bar>d\<bar>" unfolding d_def by (metis of_int_1_le_iff of_int_abs)
  moreover have "\<bar>fsub ?b ?a - d / 100\<bar> \<le> 3 / 1000000000" using cents_gap [OF assms] by (simp only: d_def)
  ultimately have apart: "9 / 1000 \<le> \<bar>fsub ?b ?a\<bar>" by linarith
  moreover have "?a \<noteq> ?b" using apart by (auto simp: fsub_def)
  ultimately show ?thesis
    using False apart small [OF lits(1)] small [OF lits(2)] tolerance_bounds(2) by (simp add: is_close_def Let_def)
qed (simp add: is_close_def)

lemma tick_apart_iff:
  assumes "cents k" "cents m" "k \<noteq> m"
  shows "is_close (lit 1 1000000) (fdiv (lit 1 100) 100) (fsub (lit m 100) (lit k 100)) (lit 1 100) \<longleftrightarrow> m = k + 1"
proof -
  let ?g = "fsub (lit m 100) (lit k 100)" and ?t = "lit 1 100 :: rat"
  define d :: rat where "d = of_int (m - k)"
  have g: "\<bar>?g - d / 100\<bar> \<le> 3 / 1000000000" using cents_gap [OF assms(1,2)] by (simp add: d_def)
  have d: "\<bar>d\<bar> \<le> 200000000" using cents_rat [OF assms(1)] cents_rat [OF assms(2)] unfolding d_def by (simp add: abs_le_iff)
  then have "\<bar>?t - ?g\<bar> \<le> 2000002" using g tick_bounds by linarith
  then have f: "\<bar>fsub ?t ?g - (?t - ?g)\<bar> \<le> 1 / 1000000000"
    unfolding fsub_def [of ?t] by (rule rnd_close) (simp add: power_int_minus)
  show ?thesis
  proof (cases "m = k + 1")
    case True
    then have "\<bar>?g - 1 / 100\<bar> \<le> 3 / 1000000000" using g by (simp add: d_def)
    then have "\<bar>fsub ?t ?g\<bar> \<le> 1 / 100000" using f tick_bounds by linarith
    then have "\<bar>fsub ?t ?g\<bar> \<le> fdiv ?t 100" using tolerance_bounds(5) by (rule order_trans)
    then show ?thesis using True by (simp add: is_close_def Let_def)
  next
    case False
    have "m - k \<le> - 1 \<or> 2 \<le> m - k" using False assms(3) by linarith
    then have "d \<le> of_int (- 1) \<or> of_int 2 \<le> d" unfolding d_def of_int_le_iff .
    then have d2: "d \<le> - 1 \<or> 2 \<le> d" by simp
    then have apart: "\<bar>d\<bar> / 200 - 1 / 100000000 \<le> \<bar>fsub ?t ?g\<bar>" "1 \<le> \<bar>d\<bar>" using g f tick_bounds by linarith+
    have "\<bar>?g\<bar> \<le> 2000001" using g d by linarith
    then have "\<bar>fmul (lit 1 1000000) ?g\<bar> \<le> 2 / 1000000 * \<bar>?g\<bar> + 1 / 1000000000"
      by (intro scaled_small [where M = 2000001, OF tolerance_bounds(3,4)]) simp_all
    then have "\<bar>fmul (lit 1 1000000) ?g\<bar> < \<bar>fsub ?t ?g\<bar>" using apart g by linarith
    moreover have "\<bar>fmul (lit 1 1000000) ?t\<bar> \<le> 2 / 1000000 * \<bar>?t\<bar> + 1 / 1000000000"
      by (rule scaled_small [where M = 1, OF tolerance_bounds(3,4)]) (use tick_bounds in simp_all)
    then have "\<bar>fmul (lit 1 1000000) ?t\<bar> < \<bar>fsub ?t ?g\<bar>" using apart tick_bounds by linarith
    moreover have "fdiv ?t 100 < \<bar>fsub ?t ?g\<bar>" using apart tolerance_bounds(6) by linarith
    moreover have "?g \<noteq> ?t" using calculation(3) tolerance_bounds(5) by (auto simp: fsub_def)
    ultimately show ?thesis using False by (simp add: is_close_def Let_def not_le)
  qed
qed

lemma direction_of [simp]:
  "map_of same_direction ''greater'' = Some ''up''" "map_of same_direction ''greater_equal'' = Some ''up''"
  "map_of same_direction ''less'' = Some ''down''" "map_of same_direction ''less_equal'' = Some ''down''"
  by (simp_all add: same_direction_def)

lemma comparator_names [simp]:
  "''greater'' \<noteq> ''greater_equal''" "''greater'' \<noteq> ''less''" "''greater'' \<noteq> ''less_equal''"
  "''greater_equal'' \<noteq> ''greater''" "''greater_equal'' \<noteq> ''less''" "''greater_equal'' \<noteq> ''less_equal''"
  "''less'' \<noteq> ''greater''" "''less'' \<noteq> ''greater_equal''" "''less'' \<noteq> ''less_equal''"
  "''less_equal'' \<noteq> ''greater''" "''less_equal'' \<noteq> ''greater_equal''" "''less_equal'' \<noteq> ''less''"
  "''up'' \<noteq> ''down''" "''down'' \<noteq> ''up''"
  by simp_all

lemma claims_differ:
  "(\<forall>v :: int. (a < v) = (b < v)) = (a = b)" "(\<forall>v :: int. (a \<le> v) = (b \<le> v)) = (a = b)"
  "(\<forall>v :: int. (v < a) = (v < b)) = (a = b)" "(\<forall>v :: int. (v \<le> a) = (v \<le> b)) = (a = b)"
  "(\<forall>v :: int. (a < v) = (b \<le> v)) = (b = a + 1)" "(\<forall>v :: int. (b \<le> v) = (a < v)) = (b = a + 1)"
  "(\<forall>v :: int. (v \<le> a) = (v < b)) = (b = a + 1)" "(\<forall>v :: int. (v < b) = (v \<le> a)) = (b = a + 1)"
  by presburger+

lemma claims_oppose:
  "\<exists>v :: int. (a < v) \<noteq> (v < b)" "\<exists>v :: int. (a < v) \<noteq> (v \<le> b)" "\<exists>v :: int. (a \<le> v) \<noteq> (v < b)"
  "\<exists>v :: int. (a \<le> v) \<noteq> (v \<le> b)" "\<exists>v :: int. (v < b) \<noteq> (a < v)" "\<exists>v :: int. (v \<le> b) \<noteq> (a < v)"
  "\<exists>v :: int. (v < b) \<noteq> (a \<le> v)" "\<exists>v :: int. (v \<le> b) \<noteq> (a \<le> v)"
  by presburger+

lemma thresholds_equivalent_cents:
  assumes "cents k" "cents m" "map_of same_direction lc = Some ld" "map_of same_direction rc = Some rd"
  shows "thresholds_equivalent (lit 1 100) lc (Some (lit k 100)) rc (Some (lit m 100)) \<longleftrightarrow>
    ld = rd \<and>
    (if k = m then lc = rc
     else if ld = ''up'' then
       if lc = ''greater'' \<and> rc = ''greater_equal'' then m = k + 1
       else lc = ''greater_equal'' \<and> rc = ''greater'' \<and> k = m + 1
     else if lc = ''less'' \<and> rc = ''less_equal'' then k = m + 1
     else lc = ''less_equal'' \<and> rc = ''less'' \<and> m = k + 1)"
proof -
  have neg: "- fsub (lit m 100) (lit k 100) = fsub (lit k 100) (lit m 100)"
    unfolding fsub_def by (simp flip: rnd_minus)
  have "is_close (lit 1 1000000) (fdiv (lit 1 100) 100) (fsub (lit k 100) (lit m 100)) (lit 1 100) \<longleftrightarrow> k = m + 1"
    if "k \<noteq> m"
    by (rule tick_apart_iff [OF assms(2,1)]) (use that in simp)
  then show ?thesis
    unfolding thresholds_equivalent_def assms(3,4) prod.case option.case Let_def neg
      close_cents_iff [OF assms(1,2)]
    using tick_apart_iff [OF assms(1,2)] by (auto simp del: list.inject)
qed

text \<open>C18. For levels in whole cents, up to a million dollars, the comparison of two thresholds in
  binary floating point is exact: it succeeds just when the two claims hold of the same settlement
  values in cents.\<close>
theorem cent_thresholds_compare_as_claims:
  assumes "\<bar>k\<bar> \<le> 100000000" "\<bar>m\<bar> \<le> 100000000"
    and "lc \<in> {''greater'', ''greater_equal'', ''less'', ''less_equal''}"
    and "rc \<in> {''greater'', ''greater_equal'', ''less'', ''less_equal''}"
  shows "thresholds_equivalent (lit 1 100) lc (Some (lit k 100)) rc (Some (lit m 100)) \<longleftrightarrow>
    (\<forall>v. claim_holds lc k v = claim_holds rc m v)"
proof -
  have "cents k" "cents m" using assms(1,2) by (simp_all add: cents_def)
  note eq = thresholds_equivalent_cents [OF this]
  show ?thesis
    using assms(3,4) unfolding insert_iff empty_iff
    by (elim disjE FalseE; hypsubst;
      simp only: eq [OF direction_of(1) direction_of(1)] eq [OF direction_of(1) direction_of(2)]
        eq [OF direction_of(1) direction_of(3)] eq [OF direction_of(1) direction_of(4)]
        eq [OF direction_of(2) direction_of(1)] eq [OF direction_of(2) direction_of(2)]
        eq [OF direction_of(2) direction_of(3)] eq [OF direction_of(2) direction_of(4)]
        eq [OF direction_of(3) direction_of(1)] eq [OF direction_of(3) direction_of(2)]
        eq [OF direction_of(3) direction_of(3)] eq [OF direction_of(3) direction_of(4)]
        eq [OF direction_of(4) direction_of(1)] eq [OF direction_of(4) direction_of(2)]
        eq [OF direction_of(4) direction_of(3)] eq [OF direction_of(4) direction_of(4)]
        claim_holds_def comparator_names claims_differ claims_oppose simp_thms if_True if_False not_all refl;
      arith?)
qed

theorem cent_thresholds_compare_as_claims_witness:
  "thresholds_equivalent (lit 1 100) ''greater'' (Some (lit 8674999 100)) ''greater_equal'' (Some (lit 8675000 100))"
proof -
  have "\<forall>v. claim_holds ''greater'' 8674999 v = claim_holds ''greater_equal'' 8675000 v"
    by (simp add: claim_holds_def del: list.inject) presburger
  then show ?thesis by (subst cent_thresholds_compare_as_claims) simp_all
qed

section \<open>Normalising twice\<close>

lemma not_letter_space:
  "is_space c \<Longrightarrow> \<not> is_lower c" "is_space c \<Longrightarrow> \<not> is_digit c" "is_space c \<Longrightarrow> c \<noteq> CHR ''-''" "is_space c \<Longrightarrow> c \<noteq> CHR ''.''"
  by (auto simp: is_space_def is_lower_def is_digit_def code_def)

lemma is_space_blank' [simp]: "is_space blank"
  by (simp add: blank_def)

text \<open>A character fades to itself or, unless it is a digit, to a space.\<close>

definition fades :: "char \<Rightarrow> char \<Rightarrow> bool" where
  "fades c d \<longleftrightarrow> d = c \<or> is_space d \<and> \<not> is_digit c"

lemma fades_refl [simp]: "fades c c"
  by (simp add: fades_def)

lemma fades_spaces [simp]: "is_space c \<Longrightarrow> is_space d \<Longrightarrow> fades c d"
  using not_letter_space(2) by (auto simp: fades_def)

text \<open>
  A replacement in context: a replaced character becomes a blank, spaces are never replaced, a
  character that stays would stay if its neighbours faded, and one space is as good as another.
  Both replacements of the source have this form.
\<close>

locale contextual =
  fixes f :: "char \<Rightarrow> char \<Rightarrow> char \<Rightarrow> char"
  assumes blanks: "f p c n = c \<or> f p c n = blank \<and> \<not> is_digit c"
    and spaces: "is_space c \<Longrightarrow> f p c n = c"
    and stays: "f p c n = c \<Longrightarrow> fades p p' \<Longrightarrow> fades n n' \<Longrightarrow> f p' c n' = c"
    and left_edge: "is_space p \<Longrightarrow> is_space p' \<Longrightarrow> f p c n = f p' c n"
    and right_edge: "is_space n \<Longrightarrow> is_space n' \<Longrightarrow> f p c n = f p c n'"
begin

definition settled :: "char \<Rightarrow> string \<Rightarrow> bool" where
  "settled p s \<longleftrightarrow> context_map f p s = s"

lemma settled_simps [simp]:
  "settled p []" "settled p (c # cs) \<longleftrightarrow> f p c (next_char cs) = c \<and> settled c cs"
  by (simp_all add: settled_def)

lemma fades_image: "fades c (f p c n)"
  using blanks [of p c n] by (auto simp: fades_def)

lemma kept: "is_space d \<or> f p c n = c \<and> d = c \<Longrightarrow> fades p p' \<Longrightarrow> fades n n' \<Longrightarrow> f p' d n' = d"
  using spaces stays by blast

text \<open>Letting characters of a settled text fade keeps it settled.\<close>

lemma settled_faded: "list_all2 fades s t \<Longrightarrow> settled p s \<Longrightarrow> fades p p' \<Longrightarrow> settled p' t"
proof (induction s t arbitrary: p p' rule: list_all2_induct)
  case (Cons c cs d ds)
  have n: "fades (next_char cs) (next_char ds)" using Cons.hyps(2) by (cases cs; cases ds) auto
  have "f p' d (next_char ds) = d"
    by (rule kept [of d p c "next_char cs"]) (use Cons.hyps(1) Cons.prems n in \<open>auto simp: fades_def\<close>)
  moreover have "settled d ds" by (rule Cons.IH) (use Cons.hyps(1) Cons.prems in simp_all)
  ultimately show ?case by simp
qed simp

lemma faded: "list_all2 fades s (context_map f p s)"
  by (induction s arbitrary: p) (simp_all add: fades_image)

lemma set_context_map: "set (context_map f p s) \<subseteq> insert blank (set s)"
proof (induction s arbitrary: p)
  case (Cons c cs)
  then show ?case using blanks [of p c "next_char cs"] by fastforce
qed simp

lemma settled_context_map: "fades p p' \<Longrightarrow> settled p' (context_map f p s)"
proof (induction s arbitrary: p p')
  case (Cons c cs)
  let ?d = "f p c (next_char cs)"
  have n: "fades (next_char cs) (next_char (context_map f c cs))"
    using fades_image [of "hd cs" c "next_char (tl cs)"] by (cases cs) auto
  have "f p' ?d (next_char (context_map f c cs)) = ?d"
    by (rule kept [of ?d p c "next_char cs"]) (use blanks [of p c "next_char cs"] Cons.prems n in auto)
  then show ?case using Cons.IH [OF fades_image] by simp
qed simp

text \<open>So does collapsing and trimming white space.\<close>

lemma settled_dropWhile: "is_space p \<Longrightarrow> settled p s \<Longrightarrow> is_space p' \<Longrightarrow> settled p' (dropWhile is_space s)"
proof (induction s arbitrary: p)
  case (Cons c cs)
  then show ?case using left_edge [of p p' c] by (cases "is_space c") auto
qed simp

lemma next_squeeze: "fades (next_char s) (next_char (squeeze s))"
  by (cases s) simp_all

lemma settled_squeeze: "settled p s \<Longrightarrow> fades p p' \<Longrightarrow> settled p' (squeeze s)"
proof (induction s arbitrary: p p' rule: squeeze.induct)
  case (2 c cs)
  show ?case
  proof (cases "is_space c")
    case True
    then have "settled blank (dropWhile is_space cs)" using 2(3) settled_dropWhile [of c] by simp
    then have "settled blank (squeeze (dropWhile is_space cs))" by (rule "2.IH"(1) [OF True _ fades_refl])
    then show ?thesis using True spaces by (simp add: blank_def)
  next
    case False
    have "f p' c (next_char (squeeze cs)) = c" using 2(3,4) stays next_squeeze [of cs] by auto
    then show ?thesis using False "2.IH"(2) [OF False, of c c] 2(3) by simp
  qed
qed simp

lemma settled_append: "settled p (s @ t) \<Longrightarrow> \<forall>c \<in> set t. is_space c \<Longrightarrow> settled p s"
proof (induction s arbitrary: p)
  case (Cons c cs)
  have "fades (next_char (cs @ t)) (next_char cs)" using Cons.prems(2) by (cases cs; cases t) simp_all
  then show ?case using Cons stays by auto
qed simp

lemma settled_strip: "is_space p \<Longrightarrow> settled p s \<Longrightarrow> settled p (strip s)"
proof -
  assume "is_space p" "settled p s"
  then have "settled p (dropWhile is_space s)" using settled_dropWhile by blast
  moreover have "dropWhile is_space s = strip s @ rev (takeWhile is_space (rev (dropWhile is_space s)))"
    unfolding strip_def by (metis rev_append rev_rev_ident takeWhile_dropWhile_id)
  moreover have "\<forall>c \<in> set (rev (takeWhile is_space (rev (dropWhile is_space s)))). is_space c"
    by (auto dest: set_takeWhileD)
  ultimately show ?thesis using settled_append by metis
qed

text \<open>What stands before a space does not matter to what follows it.\<close>

lemma context_map_sep:
  assumes "is_space c"
  shows "context_map f p (a @ c # b) = context_map f p a @ c # context_map f blank b"
proof (induction a arbitrary: p)
  case Nil
  have "context_map f c b = context_map f blank b"
    using left_edge [of c blank] assms by (cases b) auto
  then show ?case using spaces [OF assms] by simp
next
  case (Cons x xs)
  have "f p x (next_char (xs @ c # b)) = f p x (next_char xs)"
    using right_edge [of c "CHR '' ''"] assms by (cases xs) simp_all
  then show ?case using Cons by simp
qed

end

lemma no_digits [simp]: "\<not> is_digit (CHR ''-'')" "\<not> is_digit (CHR ''.'')" "blank \<noteq> CHR ''-''" "blank \<noteq> CHR ''.''"
  by (simp_all add: is_digit_def blank_def)

lemma fades_lower: "fades c d \<Longrightarrow> is_lower d \<Longrightarrow> is_lower c"
  using not_letter_space(1) by (auto simp: fades_def)

lemma fades_digit: "fades c d \<Longrightarrow> is_digit c \<Longrightarrow> is_digit d"
  by (auto simp: fades_def)

interpretation hyphen: contextual word_hyphen
proof
  fix p c n p' n' :: char
  show "word_hyphen p c n = c \<or> word_hyphen p c n = blank \<and> \<not> is_digit c" by (simp add: word_hyphen_def)
  show "is_space c \<Longrightarrow> word_hyphen p c n = c" using not_letter_space(3) by (auto simp: word_hyphen_def)
  show "word_hyphen p c n = c \<Longrightarrow> fades p p' \<Longrightarrow> fades n n' \<Longrightarrow> word_hyphen p' c n' = c"
    using fades_lower by (auto simp: word_hyphen_def split: if_splits)
  show "is_space p \<Longrightarrow> is_space p' \<Longrightarrow> word_hyphen p c n = word_hyphen p' c n"
    "is_space n \<Longrightarrow> is_space n' \<Longrightarrow> word_hyphen p c n = word_hyphen p c n'"
    by (simp_all add: word_hyphen_def not_letter_space)
qed

interpretation period: contextual word_period
proof
  fix p c n p' n' :: char
  show "word_period p c n = c \<or> word_period p c n = blank \<and> \<not> is_digit c" by (simp add: word_period_def)
  show "is_space c \<Longrightarrow> word_period p c n = c" using not_letter_space(4) by (auto simp: word_period_def)
  show "word_period p c n = c \<Longrightarrow> fades p p' \<Longrightarrow> fades n n' \<Longrightarrow> word_period p' c n' = c"
    using fades_digit by (auto simp: word_period_def split: if_splits)
  show "is_space p \<Longrightarrow> is_space p' \<Longrightarrow> word_period p c n = word_period p' c n"
    "is_space n \<Longrightarrow> is_space n' \<Longrightarrow> word_period p c n = word_period p c n'"
    by (simp_all add: word_period_def not_letter_space)
qed

section \<open>Normalised text\<close>

text \<open>A character on which every character-wise step of the normalisation is the identity.\<close>

definition plain :: "char \<Rightarrow> bool" where
  "plain c \<longleftrightarrow> fold_accent c = [c] \<and> lower_char c = c \<and> spell_out c = [c] \<and> punct c = c \<and> (is_space c \<longrightarrow> c = blank)"

lemma code_char [simp]: "n < 256 \<Longrightarrow> code (char_of n) = n" "code c < 256"
  by (simp_all add: code_def)

lemma accent_table_ascii: "list_all (\<lambda>(lo, hi, s). 160 \<le> lo \<and> list_all (\<lambda>d. code d < 128) s) accent_table"
  by code_simp

lemma find_in: "find P xs = Some x \<Longrightarrow> x \<in> set xs \<and> P x"
  by (induction xs) (auto split: if_splits)

lemma fold_accent_cases: "fold_accent c = [c] \<or> 160 \<le> code c \<and> (\<forall>d \<in> set (fold_accent c). code d < 128)"
proof (cases "find (\<lambda>(lo, hi, s). lo \<le> code c \<and> code c \<le> hi) accent_table")
  case (Some e)
  then show ?thesis using find_in [OF Some] accent_table_ascii by (auto simp: fold_accent_def Let_def list_all_iff)
qed (simp add: fold_accent_def Let_def)

lemma fold_accent_low: "code c < 160 \<Longrightarrow> fold_accent c = [c]"
  using fold_accent_cases [of c] by simp

lemma lower_char_lower [simp]: "lower_char (lower_char c) = lower_char c"
proof (cases "lower_char c = c")
  case False
  define k where "k = code c"
  have k: "65 \<le> k \<and> k \<le> 90 \<or> 192 \<le> k \<and> k \<le> 222" and e: "lower_char c = char_of (k + 32)"
    using False by (auto simp: lower_char_def is_upper_def k_def split: if_splits)
  then have "code (lower_char c) = k + 32" by (auto intro!: code_char(1))
  then show ?thesis using k unfolding lower_char_def [of "lower_char c"] is_upper_def by auto
qed simp

definition folded :: "char \<Rightarrow> bool" where
  "folded c \<longleftrightarrow> fold_accent c = [c] \<and> lower_char c = c"

definition decomposed :: "nat \<Rightarrow> bool" where
  "decomposed n \<longleftrightarrow> find (\<lambda>(lo, hi, s). lo \<le> n \<and> n \<le> hi) accent_table \<noteq> None"

lemma decomposed_uppers: "list_all (\<lambda>n. n \<in> set [198, 208, 215, 216, 222] \<or> decomposed n) [192..<223]"
  by code_simp

lemma undecomposed_upper:
  assumes "fold_accent c = [c]" "192 \<le> code c" "code c \<le> 222" "code c \<noteq> 215"
  shows "code c \<in> set [198, 208, 216, 222]"
proof (rule ccontr)
  assume "code c \<notin> set [198, 208, 216, 222]"
  moreover have "code c \<in> set [192..<223]" unfolding set_upt atLeastLessThan_iff using assms(2,3) by linarith
  ultimately have "decomposed (code c)" using decomposed_uppers assms(4) unfolding list_all_iff by fastforce
  then obtain lo hi s where e: "find (\<lambda>(lo, hi, s). lo \<le> code c \<and> code c \<le> hi) accent_table = Some (lo, hi, s)"
    by (auto simp: decomposed_def)
  then have "list_all (\<lambda>d. code d < 128) s" using find_in [OF e] accent_table_ascii by (auto simp: list_all_iff)
  then show False using assms(1,2) e by (simp add: fold_accent_def Let_def)
qed

lemma folded_lower: "d \<in> set (fold_accent c) \<Longrightarrow> folded (lower_char d)"
proof -
  assume d: "d \<in> set (fold_accent c)"
  have "fold_accent (lower_char d) = [lower_char d]"
  proof (cases "code d < 128")
    case True
    then have "lower_char d = d \<or> lower_char d = char_of (code d + 32) \<and> code d \<le> 90"
      by (auto simp: lower_char_def is_upper_def)
    then have "code (lower_char d) < 160" using True by auto
    then show ?thesis by (rule fold_accent_low)
  next
    case False
    then have c: "fold_accent d = [d]" using fold_accent_cases [of c] d by auto
    show ?thesis
    proof (cases "lower_char d = d")
      case False
      then have "192 \<le> code d" "code d \<le> 222" "code d \<noteq> 215" and e: "lower_char d = char_of (code d + 32)"
        using \<open>\<not> code d < 128\<close> by (auto simp: lower_char_def is_upper_def split: if_splits)
      then have "code d \<in> set [198, 208, 216, 222]" by (intro undecomposed_upper [OF c])
      moreover have "list_all (\<lambda>n. \<not> decomposed (n + 32)) [198, 208, 216, 222]" by code_simp
      ultimately have "\<not> decomposed (code d + 32)" unfolding list_all_iff by blast
      moreover have "code (lower_char d) = code d + 32" using e \<open>code d \<le> 222\<close> by simp
      ultimately have "\<not> decomposed (code (lower_char d))" by simp
      then show ?thesis by (auto simp: decomposed_def fold_accent_def Let_def split: option.split)
    qed (use c in simp)
  qed
  then show ?thesis by (simp add: folded_def)
qed

definition allowed :: "char \<Rightarrow> bool" where
  "allowed c \<longleftrightarrow> folded c \<and> spell_out c = [c]"

lemma allowed_blank: "allowed blank" "punct blank = blank"
  by (simp_all add: allowed_def folded_def spell_out_def punct_def blank_def fold_accent_low code_def lower_char_def is_upper_def)

lemma allowed_spelled: "folded c \<Longrightarrow> d \<in> set (spell_out c) \<Longrightarrow> allowed d"
proof (cases "c = CHR ''&''")
  case True
  have "list_all (\<lambda>d. code d < 128 \<and> \<not> is_upper d \<and> spell_out d = [d]) '' and ''" by code_simp
  then have "\<forall>d \<in> set '' and ''. allowed d"
    unfolding list_all_iff by (auto simp: allowed_def folded_def lower_char_def fold_accent_low)
  then show "folded c \<Longrightarrow> d \<in> set (spell_out c) \<Longrightarrow> allowed d"
    using True by (simp only: spell_out_def if_True refl)
next
  case False
  then show "folded c \<Longrightarrow> d \<in> set (spell_out c) \<Longrightarrow> allowed d"
    using allowed_blank by (auto simp: spell_out_def allowed_def blank_def split: if_splits)
qed

text \<open>The text after the two replacements in context and the removal of punctuation.\<close>

definition spelled :: "string \<Rightarrow> string" where
  "spelled s = concat (map spell_out (lower (strip_accents s)))"

definition cleaned :: "string \<Rightarrow> string" where
  "cleaned s = map punct (context_map word_period blank (context_map word_hyphen blank s))"

lemma normalize_text_eq: "normalize_text s = join_sp (split_ws (cleaned (spelled s)))"
  by (simp add: normalize_text_def strip_squeeze cleaned_def spelled_def)

lemma spelled_allowed: "c \<in> set (spelled s) \<Longrightarrow> allowed c"
  using folded_lower allowed_spelled by (fastforce simp: spelled_def lower_def strip_accents_def)

lemma spelled_id: "\<forall>c \<in> set s. allowed c \<Longrightarrow> spelled s = s"
  by (induction s) (simp_all add: spelled_def strip_accents_def lower_def allowed_def folded_def)

lemma punct_fades: "fades c (punct c)"
  by (auto simp: punct_def fades_def is_word_def)

lemma punct_idem [simp]: "punct (punct c) = punct c"
  using allowed_blank(2) by (auto simp: punct_def)

lemma list_all2_fades_trans: "list_all2 fades s t \<Longrightarrow> list_all2 fades t u \<Longrightarrow> list_all2 fades s u"
  by (rule list_all2_trans [where ?P1.0 = fades and ?P2.0 = fades]) (auto simp: fades_def not_letter_space)

lemma cleaned_settled:
  "hyphen.settled blank (cleaned s)" "period.settled blank (cleaned s)" "map punct (cleaned s) = cleaned s"
proof -
  let ?h = "context_map word_hyphen blank s"
  let ?p = "context_map word_period blank ?h"
  have p: "list_all2 fades ?p (map punct ?p)" by (simp add: list_all2_conv_all_nth punct_fades)
  have "list_all2 fades ?h (map punct ?p)" by (rule list_all2_fades_trans [OF period.faded p])
  then have "hyphen.settled blank (map punct ?p)"
    by (rule hyphen.settled_faded) (rule hyphen.settled_context_map, rule fades_refl, rule fades_refl)
  then show "hyphen.settled blank (cleaned s)" by (simp only: cleaned_def)
  have "period.settled blank (map punct ?p)"
    by (rule period.settled_faded [OF p]) (rule period.settled_context_map, rule fades_refl, rule fades_refl)
  then show "period.settled blank (cleaned s)" by (simp only: cleaned_def)
  show "map punct (cleaned s) = cleaned s" by (simp add: cleaned_def)
qed

lemma cleaned_allowed: "\<forall>c \<in> set s. allowed c \<Longrightarrow> d \<in> set (cleaned s) \<Longrightarrow> allowed d"
proof -
  assume s: "\<forall>c \<in> set s. allowed c" and d: "d \<in> set (cleaned s)"
  then obtain e where e: "e \<in> set (context_map word_period blank (context_map word_hyphen blank s))" "d = punct e"
    by (auto simp: cleaned_def)
  then have "e \<in> insert blank (set s)"
    using period.set_context_map hyphen.set_context_map by blast
  then have "allowed e" using s allowed_blank(1) by blast
  then show "allowed d" using e(2) allowed_blank(1) by (simp add: punct_def)
qed

lemma cleaned_id: "hyphen.settled blank s \<Longrightarrow> period.settled blank s \<Longrightarrow> map punct s = s \<Longrightarrow> cleaned s = s"
  by (simp add: cleaned_def hyphen.settled_def period.settled_def)

lemma set_strip_squeeze: "c \<in> set (strip (squeeze s)) \<Longrightarrow> c \<in> set s \<or> c = blank"
proof -
  have "c \<in> set s \<or> c = blank" if "c \<in> set (squeeze s)"
    using that by (induction s rule: squeeze.induct) (auto split: if_splits dest: set_dropWhileD simp: blank_def)
  then show "c \<in> set (strip (squeeze s)) \<Longrightarrow> c \<in> set s \<or> c = blank"
    by (auto simp: strip_def dest!: set_dropWhileD)
qed

lemma normalize_text_idem: "normalize_text (normalize_text s) = normalize_text s"
proof -
  let ?c = "cleaned (spelled s)" and ?t = "normalize_text s"
  have t: "?t = strip (squeeze ?c)" by (simp add: normalize_text_eq strip_squeeze)
  have "allowed c" if "c \<in> set ?c" for c
    using cleaned_allowed [OF _ that] spelled_allowed by blast
  then have "\<forall>c \<in> set ?t. allowed c" using t set_strip_squeeze allowed_blank(1) by metis
  then have "spelled ?t = ?t" by (rule spelled_id)
  moreover have "cleaned ?t = ?t"
  proof (rule cleaned_id)
    show "hyphen.settled blank ?t" unfolding t
      by (intro hyphen.settled_strip hyphen.settled_squeeze [OF cleaned_settled(1)]) simp_all
    show "period.settled blank ?t" unfolding t
      by (intro period.settled_strip period.settled_squeeze [OF cleaned_settled(2)]) simp_all
    have "punct c = c" if "c \<in> set ?t" for c
      using that t set_strip_squeeze [of c ?c] cleaned_settled(3) [of "spelled s"] allowed_blank(2) by (metis map_eq_conv map_ident)
    then show "map punct ?t = ?t" by (simp add: map_idI)
  qed
  ultimately have "normalize_text ?t = join_sp (split_ws ?t)" by (simp add: normalize_text_eq)
  also have "\<dots> = ?t" by (simp add: normalize_text_eq)
  finally show ?thesis .
qed

text \<open>Wording may be normalised before it is used: normalising is idempotent, and the tokens, the
  team alias and the team comparison of a normalised text are those of the text.\<close>
theorem wording_may_be_normalised_first:
  "normalize_text (normalize_text s) = normalize_text s \<and>
   tokenize_with b (normalize_text s) = tokenize_with b s \<and>
   resolve_team_alias (normalize_text s) = resolve_team_alias s \<and>
   teams_match (normalize_text k) (normalize_text s) = teams_match k s"
  by (simp add: normalize_text_idem tokenize_with_def resolve_team_alias_def teams_match_def)

section \<open>Negated labels\<close>

lemma normalize_text_not:
  "normalize_text (''not '' @ s) = join_sp (''not'' # split_ws (cleaned (spelled s)))"
proof -
  have not: "spelled (''not '' @ s) = ''not'' @ CHR '' '' # spelled s"
    by (simp add: spelled_def strip_accents_def lower_def fold_accent_low code_def lower_char_def is_upper_def spell_out_def)
  have "context_map word_hyphen blank ''not'' = ''not''" "context_map word_period blank ''not'' = ''not''" "map punct ''not'' = ''not''"
    "split_ws ''not'' = [''not'']"
    by code_simp+
  moreover have "punct (CHR '' '') = CHR '' ''" using allowed_blank(2) by (simp add: blank_def)
  ultimately have "cleaned (''not'' @ CHR '' '' # spelled s) = ''not'' @ CHR '' '' # cleaned (spelled s)"
    unfolding cleaned_def
    by (simp only: hyphen.context_map_sep [OF is_space_blank] period.context_map_sep [OF is_space_blank] map_append list.map)
  then have "normalize_text (''not '' @ s) = join_sp (split_ws (''not'' @ CHR '' '' # cleaned (spelled s)))"
    unfolding normalize_text_eq not by (rule arg_cong)
  also have "split_ws (''not'' @ CHR '' '' # cleaned (spelled s)) = [''not''] @ split_ws (cleaned (spelled s))"
    unfolding split_ws_sep [OF is_space_blank] \<open>split_ws ''not'' = [''not'']\<close> by (rule refl)
  finally show ?thesis by simp
qed

lemma normalize_text_not_contains: "contains city (normalize_text s) \<Longrightarrow> contains city (normalize_text (''not '' @ s))"
proof (cases "split_ws (cleaned (spelled s)) = []")
  case True
  then show "contains city (normalize_text s) \<Longrightarrow> ?thesis" by (simp add: normalize_text_eq)
next
  case False
  then have "normalize_text (''not '' @ s) = ''not '' @ normalize_text s"
    unfolding normalize_text_not by (simp add: normalize_text_eq join_sp_Cons)
  then show "contains city (normalize_text s) \<Longrightarrow> ?thesis" using contains_append(1) by metis
qed

lemma teams_match_contains: "teams_match k s \<Longrightarrow> contains (fst (resolve_team_alias k)) (normalize_text s)"
proof -
  have "contains p s" if "starts_with p s" for p s :: string
    using that by (auto simp: starts_with_iff contains_iff)
  then show "teams_match k s \<Longrightarrow> contains (fst (resolve_team_alias k)) (normalize_text s)"
    by (auto simp: teams_match_def Let_def split: prod.splits if_splits option.splits)
qed

text \<open>A label without a disambiguator matches the negation of every label it matches.\<close>

lemma teams_match_negated:
  assumes "teams_match k s" "snd (resolve_team_alias k) = None"
  shows "teams_match k (''not '' @ s)"
proof -
  have "contains (fst (resolve_team_alias k)) (normalize_text (''not '' @ s))"
    using normalize_text_not_contains [OF teams_match_contains [OF assms(1)]] .
  moreover obtain city where "resolve_team_alias k = (city, None)" using assms(2) by (metis prod.collapse)
  ultimately show ?thesis by (simp add: teams_match_def Let_def)
qed

text \<open>
  The table of synonyms is consulted token by token, after an abbreviation has been taken apart at
  its periods, so the entries for the country do not bring its spellings together.
\<close>

theorem country_spellings_stay_apart:
  "tokenize ''USA'' = [''us''] \<and> tokenize ''U.S.'' = [''u'', ''s''] \<and> tokenize ''United States'' = [''united'', ''states'']"
  by (intro conjI; code_simp)

end
