(* ===== verification/Matching_Gate.thy ===== *)
theory Matching_Gate
  imports Matching Wording_Facts
begin

text \<open>
  What matching guarantees: the settlement gate as a conjunction of four agreements, identity only
  for pairs that pass it, and an index that retrieves what a scan of the venue would.
\<close>

section \<open>The gate\<close>

definition exhaustive_outcomes :: "normalized_market \<Rightarrow> normalized_market \<Rightarrow> bool" where
  "exhaustive_outcomes k p \<longleftrightarrow>
     label_key (yes_label p) \<in> set affirmative_labels \<or>
     (\<forall>sport \<in> set draw_capable_sports.
        \<not> contains sport (lower (raw_rules (terms k) @ '' '' @ question k @ '' '' @ question p)))"

definition same_level :: "normalized_market \<Rightarrow> normalized_market \<Rightarrow> bool" where
  "same_level k p \<longleftrightarrow>
     threshold (terms k) = None \<and> threshold (terms p) = None \<or>
     threshold (terms k) \<noteq> None \<and> threshold (terms p) \<noteq> None \<and>
     (\<forall>u v. threshold_units (terms k) = Some u \<longrightarrow> threshold_units (terms p) = Some v \<longrightarrow> u \<noteq> [] \<longrightarrow> v \<noteq> [] \<longrightarrow> u = v) \<and>
     comparator (terms k) \<noteq> Between \<and> comparator (terms p) \<noteq> Between \<and>
     thresholds_equivalent (lit 1 100) (comparator_value (comparator (terms k))) (threshold (terms k))
       (comparator_value (comparator (terms p))) (threshold (terms p))"

definition same_occasion :: "matcher_config \<Rightarrow> normalized_market \<Rightarrow> normalized_market \<Rightarrow> bool" where
  "same_occasion config k p \<longleftrightarrow>
     (case (scheduled_event_time (terms k), scheduled_event_time (terms p)) of
        (Some a, Some b) \<Rightarrow> seconds_apart a b \<le> of_int (scheduled_time_tolerance_seconds config)
      | _ \<Rightarrow> same_day (expiry_time (terms k)) (expiry_time (terms p)))"

definition same_authority :: "normalized_market \<Rightarrow> normalized_market \<Rightarrow> bool" where
  "same_authority k p \<longleftrightarrow>
     source_tokens (resolution_sources (terms k)) \<inter> source_tokens (resolution_sources (terms p)) \<noteq> {}"

definition settles_alike :: "matcher_config \<Rightarrow> normalized_market \<Rightarrow> normalized_market \<Rightarrow> bool" where
  "settles_alike config k p \<longleftrightarrow>
     exhaustive_outcomes k p \<and> same_level k p \<and> same_occasion config k p \<and> same_authority k p"

lemma sort_Nil_iff [simp]: "sort xs = [] \<longleftrightarrow> xs = []"
  by (metis length_0_conv length_sort)

lemma case_sort [simp]:
  "(case sort xs of [] \<Rightarrow> None | q # qs \<Rightarrow> Some (f q qs)) = None \<longleftrightarrow> xs = []"
  "fst (case sort xs of [] \<Rightarrow> ([], a) | q # qs \<Rightarrow> ([g q qs], b)) = [] \<longleftrightarrow> xs = []"
  using sort_Nil_iff [of xs] by (cases "sort xs"; simp)+

lemma draw_gate: "fst (draw_blockers k p) = [] \<longleftrightarrow> exhaustive_outcomes k p"
  by (simp add: draw_blockers_def exhaustive_outcomes_def Let_def filter_empty_conv)

lemma threshold_gate: "fst (threshold_blockers k p) = [] \<longleftrightarrow> same_level k p"
  unfolding threshold_blockers_def same_level_def Let_def
  by (cases "threshold_units (terms k)"; cases "threshold_units (terms p)") auto

lemma timing_gate: "fst (timing_blockers k p config) = [] \<longleftrightarrow> same_occasion config k p"
  by (auto simp: timing_blockers_def same_occasion_def Let_def split: option.split)

lemma source_gate: "fst (source_blockers k p) = [] \<longleftrightarrow> same_authority k p"
  by (auto simp: source_blockers_def same_authority_def Let_def source_tokens_def)

lemma gate_iff: "fst (settlement_blockers k p config) = [] \<longleftrightarrow> settles_alike config k p"
  unfolding settles_alike_def draw_gate [symmetric] threshold_gate [symmetric] timing_gate [symmetric] source_gate [symmetric]
  by (simp add: settlement_blockers_def split: prod.split)

section \<open>One pair\<close>

definition same_qualifiers :: "normalized_market \<Rightarrow> normalized_market \<Rightarrow> bool" where
  "same_qualifiers k p \<longleftrightarrow>
     (\<forall>q \<in> set qualifier_tokens. q \<in> set (tokenize (claim_text k)) \<longleftrightarrow> q \<in> set (tokenize (claim_text p)))"

lemma qualifier_conflict_None: "qualifier_conflict ks ps = None \<longleftrightarrow> (\<forall>q \<in> set qualifier_tokens. q \<in> set ks \<longleftrightarrow> q \<in> set ps)"
  unfolding qualifier_conflict_def case_sort filter_empty_conv by blast

definition verdict :: "matcher_config \<Rightarrow> matched \<Rightarrow> bool" where
  "verdict config p \<longleftrightarrow>
     min_score config \<le> score p \<and>
     (confidence p = Identical \<longleftrightarrow>
        strong_score config \<le> score p \<and> fst (resolve_alignment (mp_kalshi p) (mp_other p)) \<noteq> None \<and>
        same_qualifiers (mp_kalshi p) (mp_other p) \<and> settles_alike config (mp_kalshi p) (mp_other p)) \<and>
     (confidence p = Identical \<longleftrightarrow> blockers p = []) \<and>
     (confidence p = Identical \<longrightarrow> fst (resolve_alignment (mp_kalshi p) (mp_other p)) = Some (aligned p))"

lemma evaluate_verdict:
  assumes "evaluate orders config k c weights = Some p"
  shows "mp_kalshi p = ix_market k \<and> mp_other p = ix_market c \<and> verdict config p"
proof -
  let ?K = "ix_market k" and ?P = "ix_market c"
  obtain side alignment where a: "resolve_alignment ?K ?P = (side, alignment)" by force
  obtain bs es where g: "settlement_blockers ?K ?P config = (bs, es)" by force
  have gate: "bs = [] \<longleftrightarrow> settles_alike config ?K ?P" using gate_iff [of ?K ?P config] g by simp
  have q: "qualifier_conflict (tokenize (claim_text ?K)) (tokenize (claim_text ?P)) = None \<longleftrightarrow> same_qualifiers ?K ?P"
    by (simp add: qualifier_conflict_None same_qualifiers_def)
  show ?thesis
    using assms unfolding evaluate_def Let_def a g prod.case
    by (auto simp: verdict_def a gate q [symmetric] not_less split: if_splits option.splits prod.splits)
qed

section \<open>The index\<close>

definition having :: "string \<Rightarrow> indexed list \<Rightarrow> indexed list" where
  "having token entries = filter (\<lambda>e. token \<in> set (ix_tokens e)) entries"

lemma add_posting_lookup:
  "map_of (add_posting e token ps) t =
     (if t = token then Some ((case map_of ps t of None \<Rightarrow> [] | Some ms \<Rightarrow> ms) @ [e]) else map_of ps t)"
  by (simp add: add_posting_def update_conv)

lemma add_postings_lookup:
  "distinct ts \<Longrightarrow> map_of (fold (add_posting e) ts ps) t =
     (if t \<in> set ts then Some ((case map_of ps t of None \<Rightarrow> [] | Some ms \<Rightarrow> ms) @ [e]) else map_of ps t)"
  by (induction ts arbitrary: ps) (auto simp: add_posting_lookup)

lemma postings_lookup:
  "map_of (fold (\<lambda>e. fold (add_posting e) (remdups (ix_tokens e))) entries ps) t =
     (if having t entries = [] then map_of ps t
      else Some ((case map_of ps t of None \<Rightarrow> [] | Some ms \<Rightarrow> ms) @ having t entries))"
proof (induction entries arbitrary: ps)
  case (Cons e entries)
  show ?case
    by (simp add: Cons.IH add_postings_lookup having_def)
qed (simp add: having_def)

lemma postings_distinct:
  "distinct (map fst ps) \<Longrightarrow> distinct (map fst (fold (\<lambda>e. fold (add_posting e) (remdups (ix_tokens e))) entries ps))"
proof -
  have "distinct (map fst ps) \<Longrightarrow> distinct (map fst (fold (add_posting e) ts ps))" for e ts and ps :: "(string \<times> indexed list) list"
    by (induction ts arbitrary: ps) (simp_all add: add_posting_def distinct_update)
  then show "distinct (map fst ps) \<Longrightarrow> ?thesis" by (induction entries arbitrary: ps) simp_all
qed

lemma map_of_filter_distinct:
  "distinct (map fst xs) \<Longrightarrow>
     map_of (filter (\<lambda>(k, v). P v) xs) k = (case map_of xs k of None \<Rightarrow> None | Some v \<Rightarrow> if P v then Some v else None)"
proof (induction xs)
  case (Cons x xs)
  have "map_of xs k = None" if "k = fst x" using Cons.prems that by (simp add: map_of_eq_None_iff)
  then show ?case using Cons by (auto split: prod.split option.split)
qed simp

definition index_ceiling :: "indexed list \<Rightarrow> int" where
  "index_ceiling entries = max 1 (py_int (fmul (float_of (int (length entries))) max_index_document_fraction))"

lemma index_lookup:
  "map_of (fst (build_index entries)) t =
     (if having t entries \<noteq> [] \<and> int (length (having t entries)) \<le> index_ceiling entries then Some (having t entries) else None)"
  by (simp add: build_index_def Let_def index_ceiling_def postings_distinct postings_lookup
      map_of_filter_distinct [where P = "\<lambda>ms. int (length ms) \<le> _"])

text \<open>A hit is kept under the identifier of its candidate.\<close>

definition hits_ok :: "indexed set \<Rightarrow> (string \<times> indexed \<times> pyfloat) list \<Rightarrow> bool" where
  "hits_ok C hits \<longleftrightarrow> distinct (map fst hits) \<and> (\<forall>(k, c, w) \<in> set hits. k = market_id (ix_market c) \<and> c \<in> C) \<and>
     market_id ` ix_market ` C \<subseteq> fst ` set hits"

lemma add_hit_ok: "hits_ok C hits \<Longrightarrow> hits_ok (insert c C) (add_hit w c hits)"
proof -
  assume ok: "hits_ok C hits"
  let ?k = "market_id (ix_market c)"
  have "set (AList.update ?k v hits) \<subseteq> insert (?k, v) (set hits)" for v
    by (induction hits) auto
  then show "hits_ok (insert c C) (add_hit w c hits)"
    using ok unfolding hits_ok_def add_hit_def Let_def
    by (auto simp: distinct_update dom_update [simplified] image_iff) blast+
qed

lemma add_hits_ok: "hits_ok C hits \<Longrightarrow> hits_ok (C \<union> set cs) (fold (add_hit w) cs hits)"
proof (induction cs arbitrary: C hits)
  case (Cons c cs)
  then show ?case using Cons.IH [OF add_hit_ok [OF Cons.prems, of c w]] by simp
qed simp

lemma all_hits_ok:
  "hits_ok C hits \<Longrightarrow> hits_ok (C \<union> (\<Union>t \<in> set ts. set (f t))) (fold (\<lambda>t. fold (add_hit (g t)) (f t)) ts hits)"
proof (induction ts arbitrary: C hits)
  case (Cons t ts)
  then show ?case using Cons.IH [OF add_hits_ok [OF Cons.prems, of "f t" "g t"]] by (simp add: Un_assoc)
qed simp

definition retrieved :: "indexed list \<Rightarrow> string list \<Rightarrow> indexed set" where
  "retrieved entries seeds =
     {c \<in> set entries. \<exists>t \<in> set seeds. t \<in> set (ix_tokens c) \<and> int (length (having t entries)) \<le> index_ceiling entries}"

lemma index_lookup_set:
  "set (case map_of (fst (build_index entries)) t of None \<Rightarrow> [] | Some ms \<Rightarrow> ms) =
     {c \<in> set entries. t \<in> set (ix_tokens c) \<and> int (length (having t entries)) \<le> index_ceiling entries}"
  by (auto simp: index_lookup) (auto simp: having_def filter_empty_conv)

lemma retrieved_eq:
  "(\<Union>t \<in> set seeds. set (case map_of (fst (build_index entries)) t of None \<Rightarrow> [] | Some ms \<Rightarrow> ms)) = retrieved entries seeds"
  unfolding index_lookup_set by (auto simp: retrieved_def)

abbreviation market_key :: "indexed \<Rightarrow> string" where "market_key c \<equiv> market_id (ix_market c)"

lemma candidates_retrieved:
  fixes config entries e w
  defines "R \<equiv> retrieved entries (seeds_of w e)"
    and "cs \<equiv> candidates config e (fst (build_index entries)) w"
  shows "set cs \<subseteq> R \<and> distinct (map market_key cs) \<and> length cs \<le> max_candidates_per_market config \<and>
    length cs \<le> card (market_key ` R) \<and>
    (card (market_key ` R) \<le> max_candidates_per_market config \<longrightarrow> market_key ` set cs = market_key ` R)"
proof -
  define hits where "hits = fold (\<lambda>token. fold (add_hit (weight_of w token))
      (case map_of (fst (build_index entries)) token of None \<Rightarrow> [] | Some ms \<Rightarrow> ms)) (seeds_of w e) []"
  define ranked where "ranked = sort_key (\<lambda>(c, w). (- w, market_key c)) (map snd hits)"
  let ?id = "\<lambda>h. market_key (fst h)" and ?n = "max_candidates_per_market config"
  have cs: "cs = take ?n (map fst ranked)"
    by (simp add: cs_def candidates_def Let_def hits_def ranked_def take_map)
  have "hits_ok ({} \<union> R) hits"
    unfolding hits_def R_def retrieved_eq [symmetric] by (rule all_hits_ok) (simp add: hits_ok_def)
  then have ok: "distinct (map fst hits)" "\<forall>(k, c, w) \<in> set hits. k = market_key c \<and> c \<in> R"
      "market_key ` R \<subseteq> fst ` set hits"
    by (simp_all add: hits_ok_def image_image)
  have "mset (map ?id ranked) = mset (map ?id (map snd hits))"
    by (simp add: ranked_def image_mset.compositionality comp_def)
  also have "map ?id (map snd hits) = map fst hits" using ok(2) by auto
  finally have m: "mset (map ?id ranked) = mset (map fst hits)" .
  have d: "distinct (map ?id ranked)" using mset_eq_imp_distinct_iff [OF m] ok(1) by simp
  have ids: "?id ` set ranked = fst ` set hits" using mset_eq_setD [OF m] by simp
  have sub: "fst ` set ranked \<subseteq> R" using ok(2) by (auto simp: ranked_def)
  have idsR: "market_key ` fst ` set ranked = market_key ` R"
  proof
    show "market_key ` fst ` set ranked \<subseteq> market_key ` R" using sub by blast
    show "market_key ` R \<subseteq> market_key ` fst ` set ranked" using ok(3) ids by (auto simp: image_image)
  qed
  have n: "length ranked = card (market_key ` R)"
    using distinct_card [OF d] idsR by (simp add: image_image)
  have "map market_key cs = take ?n (map ?id ranked)" by (simp add: cs take_map)
  then have "distinct (map market_key cs)" using d by (simp add: distinct_take)
  moreover have "set cs \<subseteq> R" using sub set_take_subset [of ?n "map fst ranked"] by (auto simp: cs)
  moreover have "market_key ` set cs = market_key ` R" if "card (market_key ` R) \<le> ?n"
    using that n idsR by (simp add: cs)
  ultimately show ?thesis using n by (simp add: cs)
qed


section \<open>All pairs\<close>

lemma match_all_member:
  assumes "p \<in> set (fst (match_all log_of orders config ks os))"
  shows "mp_kalshi p \<in> set ks \<and> mp_other p \<in> set os \<and> verdict config p"
proof -
  let ?ks = "map index_market ks" and ?os = "map index_market os"
  let ?w = "inverse_document_frequency log_of (map ix_tokens ?ks @ map ix_tokens ?os)"
  obtain k c where kc: "k \<in> set ?ks" "c \<in> set (candidates config k (fst (build_index ?os)) ?w)"
      "evaluate orders config k c ?w = Some p"
    using assms by (auto simp: match_all_def Let_def List.map_filter_def case_prod_beta split: if_splits) blast
  have "c \<in> set ?os" using candidates_retrieved [where config = config and entries = ?os and e = k and w = ?w] kc(2) by (auto simp: retrieved_def)
  then show ?thesis using evaluate_verdict [OF kc(3)] kc(1) by (auto simp: index_market_def)
qed

text \<open>C9. Every pair the matcher reports joins a market of each list and scores at least the minimum,
  and it is called identical exactly when the score reaches the settlement gate, the outcomes
  could be aligned, the claims carry the same qualifiers and the two markets pass the four checks
  of the gate: exhaustive outcomes, the same level, the same occasion and a shared settlement
  source; exactly these pairs have no blocker, and their alignment is the one that was resolved.\<close>
theorem identical_pairs_settle_alike:
  assumes "p \<in> set (fst (match_all log_of orders config ks os))"
  shows "mp_kalshi p \<in> set ks \<and> mp_other p \<in> set os \<and> min_score config \<le> score p \<and>
    (confidence p = Identical \<longleftrightarrow>
       strong_score config \<le> score p \<and> fst (resolve_alignment (mp_kalshi p) (mp_other p)) \<noteq> None \<and>
       same_qualifiers (mp_kalshi p) (mp_other p) \<and> settles_alike config (mp_kalshi p) (mp_other p)) \<and>
    (confidence p = Identical \<longleftrightarrow> blockers p = []) \<and>
    (confidence p = Identical \<longrightarrow> fst (resolve_alignment (mp_kalshi p) (mp_other p)) = Some (aligned p))"
  using match_all_member [OF assms] unfolding verdict_def by blast

lemma length_concat_le: "(\<And>x. x \<in> set xs \<Longrightarrow> length (f x) \<le> n) \<Longrightarrow> length (concat (map f xs)) \<le> n * length xs"
  by (induction xs) (simp_all add: add_mono)

lemma length_map_filter_le: "length (List.map_filter f xs) \<le> length xs"
  by (simp add: List.map_filter_def)

lemma candidates_le_scan: "length (candidates config e (fst (build_index entries)) w) \<le> length entries"
proof -
  let ?R = "retrieved entries (seeds_of w e)"
  have "?R \<subseteq> set entries" by (auto simp: retrieved_def)
  then have "card (market_key ` ?R) \<le> card (set entries)"
    by (metis card_image_le card_mono List.finite_set finite_subset le_trans)
  then show ?thesis
    using candidates_retrieved [where config = config and entries = entries and e = e and w = w] card_length [of entries]
    by linarith
qed

text \<open>A run of the matcher reports at most the pairs it scored, scores at most the candidate
  limit for each Kalshi market and never more than the full product, so the reduction factor is at
  least one, or infinite when nothing was scored and nothing is reported; the report is sorted by
  confidence and then by falling score.\<close>
theorem scoring_is_bounded_by_the_candidates:
  fixes log_of orders config ks os
  defines "r \<equiv> match_all log_of orders config ks os"
  shows "int (length (fst r)) \<le> candidates_scored (snd r) \<and>
    candidates_scored (snd r) \<le> total_pairs (snd r) \<and>
    candidates_scored (snd r) \<le> int (max_candidates_per_market config) * kalshi_markets (snd r) \<and>
    (case reduction_factor (snd r) of None \<Rightarrow> fst r = [] | Some x \<Rightarrow> 1 \<le> x) \<and>
    sorted (map (\<lambda>p. (confidence_rank (confidence p), - score p)) (fst r))"
proof (cases "ks = [] \<or> os = []")
  case True
  then show ?thesis by (auto simp: r_def match_all_def reduction_factor_def)
next
  case False
  let ?ks = "map index_market ks" and ?os = "map index_market os"
  define w where "w = inverse_document_frequency log_of (map ix_tokens ?ks @ map ix_tokens ?os)"
  define cs where "cs = (\<lambda>k. candidates config k (fst (build_index ?os)) w)"
  define scored where "scored = concat (map (\<lambda>k. map (Pair k) (cs k)) ?ks)"
  define pairs where "pairs = List.map_filter (\<lambda>(k, c). evaluate orders config k c w) scored"
  have r: "fst r = sort_key (\<lambda>p. (confidence_rank (confidence p), - score p)) pairs"
      "candidates_scored (snd r) = int (length scored)" "total_pairs (snd r) = int (length ks) * int (length os)"
      "kalshi_markets (snd r) = int (length ks)"
    using False by (simp_all add: r_def match_all_def Let_def w_def cs_def scored_def pairs_def case_prod_beta')
  have "length scored \<le> max_candidates_per_market config * length ?ks"
    unfolding scored_def by (rule length_concat_le)
      (use candidates_retrieved [where config = config and entries = ?os and w = w] in \<open>simp add: cs_def\<close>)
  moreover have os: "length scored \<le> length os * length ?ks"
    unfolding scored_def by (rule length_concat_le) (use candidates_le_scan [of config _ ?os w] in \<open>simp add: cs_def\<close>)
  moreover have "length pairs \<le> length scored" unfolding pairs_def by (rule length_map_filter_le)
  moreover have "1 \<le> rnd (of_int (int (length ks) * int (length os)) / of_int (int (length scored)))" if "length scored \<noteq> 0"
  proof -
    have "of_nat (length scored) \<le> (of_nat (length os * length ks) :: rat)" using os by (simp only: of_nat_le_iff length_map)
    then have "(1 :: rat) \<le> of_int (int (length ks) * int (length os)) / of_int (int (length scored))"
      using that by (simp add: field_simps)
    then show ?thesis using f64.rd_ge_fixed [of 1] by simp
  qed
  ultimately show ?thesis
    unfolding r(2-4) reduction_factor_def by (auto simp: r(1) mult.commute simp flip: of_nat_mult)
qed

section \<open>Witnesses\<close>

definition sample_terms :: settlement_terms where
  "sample_terms = \<lparr>close_time = None, expiry_time = Some 0, scheduled_event_time = None, comparator = NoComparator,
     threshold = None, threshold_upper = None, threshold_units = None, resolution_sources = [''nba''],
     can_close_early = False, raw_rules = []\<rparr>"

definition sample_market :: "venue \<Rightarrow> string \<Rightarrow> string \<Rightarrow> normalized_market" where
  "sample_market v yes no = \<lparr>nm_venue = v, market_id = ''m'', event_id = ''e'', question = ''heat'', yes_label = yes,
     no_label = no, category = [], terms = sample_terms, fee = fee_free_kalshi, tick_dollars = 1, min_order_contracts = 1,
     yes_token = [], no_token = [], claim_text = ''heat'', search_text = ''heat''\<rparr>"

definition sample_orders :: set_orders where
  "sample_orders = (sorted_list_of_set, sorted_list_of_set)"

lemma sample_match:
  "map confidence (fst (match_all (\<lambda>_. 1) sample_orders default_matcher_config [sample_market Kalshi ''heat'' ''not heat'']
     [sample_market Polymarket_US ''yes'' ''no''])) = [Identical]"
  by code_simp

theorem identical_pairs_settle_alike_witness:
  "\<exists>p. p \<in> set (fst (match_all (\<lambda>_. 1) sample_orders default_matcher_config [sample_market Kalshi ''heat'' ''not heat'']
       [sample_market Polymarket_US ''yes'' ''no''])) \<and> confidence p = Identical \<and>
     mp_kalshi p = sample_market Kalshi ''heat'' ''not heat'' \<and> settles_alike default_matcher_config (mp_kalshi p) (mp_other p)"
proof -
  obtain p where p: "p \<in> set (fst (match_all (\<lambda>_. 1) sample_orders default_matcher_config
      [sample_market Kalshi ''heat'' ''not heat''] [sample_market Polymarket_US ''yes'' ''no'']))" "confidence p = Identical"
    using sample_match by (auto simp: map_eq_Cons_conv)
  then show ?thesis using identical_pairs_settle_alike [OF p(1)] by auto
qed


end
