(* ===== verification/Normalize.thy ===== *)
theory Normalize
  imports Matching
begin

text \<open>
  crossvenue/normalize.py: lowering each venue's payload into a normalised market.

  Arguments of the model: the JSON decoder, \<open>datetime.fromisoformat\<close> (the wall-clock microseconds
  and, where the text states one, the offset from UTC) and the time-zone database.
\<close>

section \<open>Reading fields\<close>

definition decode_json_array :: "(string \<Rightarrow> jvalue option) \<Rightarrow> jvalue \<Rightarrow> jvalue list" where
  "decode_json_array loads raw =
     (case raw of
        JArray xs \<Rightarrow> xs
      | JScalar (JStr s) \<Rightarrow> if s = [] then [] else (case loads s of Some (JArray xs) \<Rightarrow> xs | _ \<Rightarrow> [])
      | _ \<Rightarrow> [])"

type_synonym iso_parser = "string \<Rightarrow> (int \<times> int option) option"

fun replace_first :: "char \<Rightarrow> char \<Rightarrow> string \<Rightarrow> string" where
  "replace_first a b [] = []"
| "replace_first a b (c # cs) = (if c = a then b # cs else c # replace_first a b cs)"

definition parse_iso :: "iso_parser \<Rightarrow> jvalue \<Rightarrow> exc + utc option" where
  "parse_iso fromisoformat v =
     (case v of
        JScalar (JStr s) \<Rightarrow>
          if s = [] then Inr None
          else (let text = concat (map (\<lambda>c. if c = CHR ''Z'' then ''+00:00'' else [c]) (strip s));
                    text = (if CHR '' '' \<in> set text \<and> CHR ''T'' \<notin> set text
                            then replace_first (CHR '' '') (CHR ''T'') text else text)
                in case fromisoformat text of
                     None \<Rightarrow> Inr None
                   | Some (wall, None) \<Rightarrow> Inr (Some wall)
                   | Some (wall, Some offset) \<Rightarrow>
                       if - 62135596800000000 \<le> wall - offset \<and> wall - offset < 253402300800000000
                       then Inr (Some (wall - offset)) else Inl OverflowError)
      | _ \<Rightarrow> Inr None)"

definition parse_float_or :: "jvalue \<Rightarrow> pyfloat \<Rightarrow> exc + pyfloat" where
  "parse_float_or v d =
     (let w = jor v (JScalar (JFloat d))
      in case py_float w of None \<Rightarrow> Inl (float_error w) | Some x \<Rightarrow> Inr x)"

definition text_parts :: "jvalue list \<Rightarrow> string list" where
  "text_parts vs = concat (map (\<lambda>v. case v of JScalar (JStr s) \<Rightarrow> [s] | _ \<Rightarrow> []) vs)"

definition nonempty :: "string list \<Rightarrow> string list" where "nonempty = filter (\<lambda>s. s \<noteq> [])"

section \<open>Kalshi\<close>

definition kalshi_strike_comparators :: "(string \<times> comparator) list" where
  "kalshi_strike_comparators =
     [(''greater'', Greater), (''greater_or_equal'', GreaterEqual), (''less'', Less),
      (''less_or_equal'', LessEqual), (''between'', Between)]"

definition default_kalshi_tick :: pyfloat where "default_kalshi_tick = lit 1 100"

text \<open>Iterating text or a dictionary yields no dictionary; a number cannot be iterated.\<close>

definition kalshi_tick :: "pydict \<Rightarrow> exc + pyfloat" where
  "kalshi_tick market =
     (let ranges = dict_get market ''price_ranges'';
          entries = (case ranges of JArray xs \<Rightarrow> Inr xs | JObject _ \<Rightarrow> Inr [] | JScalar (JStr _) \<Rightarrow> Inr []
            | _ \<Rightarrow> if truthy ranges then Inl TypeError else Inr []);
          step_of = (\<lambda>entry. case entry of
            JObject kvs \<Rightarrow> (case py_float (dict_get kvs ''step'') of Some x \<Rightarrow> if 0 < x then [x] else [] | None \<Rightarrow> [])
          | _ \<Rightarrow> [])
      in bind_exc entries (\<lambda>xs.
           let steps = concat (map step_of xs)
           in Inr (if steps = [] then default_kalshi_tick else Min (set steps))))"

definition kalshi_units :: "pydict \<Rightarrow> string option" where
  "kalshi_units market =
     (let text = lower (text_field market ''yes_sub_title'' @ '' '' @ text_field market ''rules_primary'')
      in if contains ''fahrenheit'' text \<or> contains [CHR 0xB0] text then Some ''fahrenheit''
         else if contains ''bps'' text \<or> contains ''basis point'' text then Some ''bps''
         else if contains ''percent'' text \<or> contains ''%'' text then Some ''percent''
         else if contains ''$'' text \<or> contains ''dollar'' text then Some ''usd''
         else None)"

definition name_and_url :: "string \<Rightarrow> string \<Rightarrow> pydict \<Rightarrow> string" where
  "name_and_url a b d = lower (strip (join_sp (nonempty [text_field d a, text_field d b])))"

definition flatten_settlement_sources :: "jvalue \<Rightarrow> string list" where
  "flatten_settlement_sources raw =
     (case raw of
        JArray entries \<Rightarrow>
          concat (map (\<lambda>entry. case entry of
              JScalar (JStr s) \<Rightarrow> [lower s]
            | JObject kvs \<Rightarrow> nonempty [name_and_url ''name'' ''url'' kvs]
            | _ \<Rightarrow> []) entries)
      | _ \<Rightarrow> [])"

definition normalize_kalshi_market ::
    "(string \<Rightarrow> int \<Rightarrow> int) \<Rightarrow> iso_parser \<Rightarrow> pydict \<Rightarrow> pydict \<Rightarrow> fee_model \<Rightarrow> exc + normalized_market" where
  "normalize_kalshi_market utcoffset fromisoformat market event fee_model =
     (let c = (case map_of kalshi_strike_comparators (text_field market ''strike_type'') of
            None \<Rightarrow> NoComparator | Some c \<Rightarrow> c);
          floor_strike = py_float (dict_get market ''floor_strike'');
          cap_strike = py_float (dict_get market ''cap_strike'');
          rules = text_field market ''rules_primary'';
          title = text_field market ''title'';
          yes = py_str (jor (dict_get market ''yes_sub_title'') (jor (dict_get market ''subtitle'') (jstr title)))
      in bind_exc (parse_iso fromisoformat (dict_get market ''close_time'')) (\<lambda>close.
         bind_exc (parse_iso fromisoformat (dict_get market ''expected_expiration_time'')) (\<lambda>expected.
         bind_exc (case expected of Some t \<Rightarrow> Inr (Some t)
           | None \<Rightarrow> parse_iso fromisoformat (dict_get market ''expiration_time'')) (\<lambda>expiry.
         bind_exc (parse_datetime_phrase utcoffset rules) (\<lambda>scheduled.
         bind_exc (kalshi_tick market) (\<lambda>tick.
           Inr \<lparr>nm_venue = Kalshi, market_id = text_field market ''ticker'', event_id = text_field market ''event_ticker'',
             question = py_str (jor (dict_get event ''title'') (jstr title)),
             yes_label = yes,
             no_label = py_str (jor (dict_get market ''no_sub_title'') (jstr (''not '' @ yes))),
             category = lower (text_field event ''category''),
             terms = \<lparr>close_time = close, expiry_time = expiry, scheduled_event_time = scheduled,
               comparator = c,
               threshold = (if c \<in> {Greater, GreaterEqual, Between} then floor_strike
                 else if c \<in> {Less, LessEqual} then cap_strike else None),
               threshold_upper = (if c = Between then cap_strike else None),
               threshold_units = kalshi_units market,
               resolution_sources = flatten_settlement_sources (dict_get event ''settlement_sources''),
               can_close_early = truthy (dict_get market ''can_close_early''), raw_rules = rules\<rparr>,
             fee = fee_model, tick_dollars = tick, min_order_contracts = 1,
             yes_token = text_field market ''ticker'', no_token = text_field market ''ticker'',
             claim_text = join_sp (text_parts [dict_get event ''title'', jstr title, jstr yes]),
             search_text = join_sp (nonempty (text_parts
               [dict_get event ''title'', jstr title, jstr yes, dict_get market ''sub_title'', jstr rules]))\<rparr>))))))"

section \<open>Polymarket International\<close>

definition moneyline_market_types :: "string list" where "moneyline_market_types = [''moneyline'', []]"

definition comparator_named :: "string \<Rightarrow> comparator" where
  "comparator_named s =
     (case find (\<lambda>c. comparator_value c = s) [Greater, GreaterEqual, Less, LessEqual, Between, Equal] of
        Some c \<Rightarrow> c | None \<Rightarrow> NoComparator)"

definition polymarket_units :: "string \<Rightarrow> string option" where
  "polymarket_units q =
     (let lowered = lower q
      in if contains ''bps'' lowered \<or> contains ''basis point'' lowered then Some ''bps''
         else if contains ''%'' lowered \<or> contains ''percent'' lowered then Some ''percent''
         else if contains ''$'' lowered then Some ''usd''
         else None)"

definition polymarket_category :: "pydict \<Rightarrow> string" where
  "polymarket_category market = lower (takeWhile (\<lambda>c. c \<noteq> CHR ''_'') (text_field market ''feeType''))"

text \<open>The numeric claim of a question: comparator, threshold and units, and what a line market's type overrides.\<close>

definition question_claim :: "string \<Rightarrow> comparator \<times> pyfloat option \<times> string option" where
  "question_claim q =
     (let c = comparator_named (extract_comparator q)
      in (c, if c \<noteq> NoComparator then parse_number q else None, polymarket_units q))"

definition line_claim :: "string \<Rightarrow> string \<Rightarrow> comparator \<times> pyfloat option \<times> string option" where
  "line_claim q units = (Greater, parse_number q, Some units)"

definition polymarket_claim :: "pydict \<Rightarrow> comparator \<times> pyfloat option \<times> string option" where
  "polymarket_claim market =
     (let q = text_field market ''question''; sports_type = lower (text_field market ''sportsMarketType'')
      in if sports_type \<notin> set moneyline_market_types then line_claim q sports_type else question_claim q)"

definition first_event :: "jvalue \<Rightarrow> exc + pydict" where
  "first_event events =
     (case events of
        JArray (JObject kvs # _) \<Rightarrow> Inr kvs
      | JArray (_ # _) \<Rightarrow> Inl AttributeError
      | _ \<Rightarrow> Inr [])"

definition normalize_polymarket_market ::
    "(string \<Rightarrow> jvalue option) \<Rightarrow> iso_parser \<Rightarrow> pydict \<Rightarrow> exc + normalized_market option" where
  "normalize_polymarket_market loads fromisoformat market =
     (let outcomes = map py_str (decode_json_array loads (dict_get market ''outcomes''));
          token_ids = map py_str (decode_json_array loads (dict_get market ''clobTokenIds''))
      in if length outcomes \<noteq> 2 \<or> length token_ids \<noteq> 2 then Inr None
         else
           let q = text_field market ''question'';
               (c, level, units) = polymarket_claim market;
               resolution_source = lower (text_field market ''resolutionSource'')
           in bind_exc (first_event (dict_get market ''events'')) (\<lambda>event.
              bind_exc (parse_iso fromisoformat (dict_get market ''endDate'')) (\<lambda>end_date.
              bind_exc (parse_iso fromisoformat (dict_get market ''gameStartTime'')) (\<lambda>start.
              bind_exc (polymarket_fee_model market) (\<lambda>fm.
              bind_exc (parse_float_or (dict_get market ''orderPriceMinTickSize'') (lit 1 100)) (\<lambda>tick.
              bind_exc (parse_float_or (dict_get market ''orderMinSize'') 1) (\<lambda>smallest.
                Inr (Some \<lparr>nm_venue = Polymarket_Intl,
                  market_id = py_str (jor (dict_get market ''conditionId'') (jor (dict_get market ''id'') (jstr []))),
                  event_id = py_str (jor (dict_get event ''slug'') (jor (dict_get market ''slug'') (jstr []))),
                  question = q, yes_label = outcomes ! 0, no_label = outcomes ! 1,
                  category = polymarket_category market,
                  terms = \<lparr>close_time = end_date, expiry_time = end_date, scheduled_event_time = start,
                    comparator = c, threshold = level, threshold_upper = None, threshold_units = units,
                    resolution_sources = nonempty [resolution_source], can_close_early = True,
                    raw_rules = text_field market ''description''\<rparr>,
                  fee = fm, tick_dollars = tick, min_order_contracts = smallest,
                  yes_token = token_ids ! 0, no_token = token_ids ! 1,
                  claim_text = q @ '' '' @ outcomes ! 0,
                  search_text = join_sp (nonempty [q, outcomes ! 0, outcomes ! 1, text_field event ''title''])\<rparr>))))))))"

section \<open>Polymarket US\<close>

definition generic_side_labels :: "string list" where "generic_side_labels = [''yes'', ''no'']"
definition pm_us_outcome_market_types :: "string list" where
  "pm_us_outcome_market_types = [''futures'', ''moneyline'', ''election'']"

definition pm_us_labels :: "string \<Rightarrow> string \<Rightarrow> string \<Rightarrow> string \<Rightarrow> string \<times> string" where
  "pm_us_labels long_side short_side title q =
     (if lower (strip long_side) \<notin> set generic_side_labels then (long_side, short_side)
      else if title = [] \<or> title = q then (long_side, short_side)
      else (title, ''not '' @ title))"

definition pm_us_settlement_sources :: "pydict \<Rightarrow> string list" where
  "pm_us_settlement_sources event =
     (case dict_get event ''primaryTag'' of
        JObject tag \<Rightarrow> (case dict_get tag ''league'' of
            JObject league \<Rightarrow> nonempty [name_and_url ''name'' ''resolution'' league]
          | _ \<Rightarrow> [])
      | _ \<Rightarrow> [])"

definition side_description :: "jvalue \<Rightarrow> string" where
  "side_description side = (case side of JObject kvs \<Rightarrow> text_field kvs ''description'' | _ \<Rightarrow> [])"

definition polymarket_us_claim :: "pydict \<Rightarrow> comparator \<times> pyfloat option \<times> string option" where
  "polymarket_us_claim market =
     (let q = text_field market ''question''; market_type = lower (text_field market ''marketType'');
          fine_type = lower (text_field market ''sportsMarketType'')
      in if market_type \<notin> set pm_us_outcome_market_types
         then line_claim q (if fine_type \<noteq> [] then fine_type else market_type) else question_claim q)"

definition normalize_polymarket_us_market :: "iso_parser \<Rightarrow> pydict \<Rightarrow> pydict \<Rightarrow> exc + normalized_market option" where
  "normalize_polymarket_us_market fromisoformat market event =
     (case dict_get market ''marketSides'' of
        JArray [long, short] \<Rightarrow>
          (let long_side = side_description long; short_side = side_description short
           in if long_side = [] \<or> short_side = [] then Inr None
              else
                let q = text_field market ''question'';
                    title = strip (text_field market ''title'');
                    (long_label, short_label) = pm_us_labels long_side short_side title q;
                    (c, level, units) = polymarket_us_claim market;
                    other_title = (if title \<noteq> long_label then title else [])
                in bind_exc (parse_iso fromisoformat (dict_get market ''endDate'')) (\<lambda>end_date.
                   bind_exc (parse_iso fromisoformat (dict_get market ''gameStartTime'')) (\<lambda>game_start.
                   bind_exc (case game_start of Some t \<Rightarrow> Inr (Some t)
                     | None \<Rightarrow> parse_iso fromisoformat (dict_get event ''startTime'')) (\<lambda>start.
                   bind_exc (polymarket_us_fee_model market) (\<lambda>fm.
                   bind_exc (parse_float_or (dict_get market ''orderPriceMinTickSize'') (lit 1 100)) (\<lambda>tick.
                   bind_exc (parse_float_or (dict_get market ''minimumTradeQty'') 1) (\<lambda>smallest.
                     Inr (Some \<lparr>nm_venue = Polymarket_US, market_id = text_field market ''slug'',
                       event_id = py_str (jor (dict_get event ''slug'') (jor (dict_get event ''ticker'') (jstr []))),
                       question = q, yes_label = long_label, no_label = short_label,
                       category = lower (py_str (jor (dict_get market ''category'') (jor (dict_get event ''category'') (jstr [])))),
                       terms = \<lparr>close_time = end_date, expiry_time = end_date, scheduled_event_time = start,
                         comparator = c, threshold = level, threshold_upper = None, threshold_units = units,
                         resolution_sources = pm_us_settlement_sources event, can_close_early = False,
                         raw_rules = text_field market ''description''\<rparr>,
                       fee = fm, tick_dollars = tick, min_order_contracts = smallest,
                       yes_token = text_field market ''slug'', no_token = text_field market ''slug'',
                       claim_text = join_sp (nonempty [q, other_title, long_label]),
                       search_text = join_sp (nonempty [q, other_title, text_field market ''subtitle'', long_label,
                         short_label, text_field event ''title''])\<rparr>))))))))
      | _ \<Rightarrow> Inr None)"

end
