(* ===== verification/Normalize_Facts.thy ===== *)
theory Normalize_Facts
  imports Normalize Matching_Gate
begin

text \<open>
  What lowering a payload guarantees about the terms the settlement gate reads, and how the lowered
  markets of two venues meet in the gate.
\<close>

section \<open>Well-formed terms\<close>

definition well_formed_terms :: "settlement_terms \<Rightarrow> bool" where
  "well_formed_terms t \<longleftrightarrow>
     (comparator t = NoComparator \<longrightarrow> threshold t = None) \<and>
     (threshold_upper t \<noteq> None \<longrightarrow> comparator t = Between) \<and>
     (\<forall>s \<in> set (resolution_sources t). lower s = s)"

lemma lower_lower [simp]: "lower (lower s) = lower s"
  by (simp add: lower_def)

lemma name_and_url_lower: "lower (name_and_url a b d) = name_and_url a b d"
  by (simp only: name_and_url_def lower_lower)

lemma single_name_lower: "s \<in> set (nonempty [name_and_url a b d]) \<Longrightarrow> lower s = s"
  by (auto simp: nonempty_def name_and_url_lower split: if_splits)

lemma flattened_sources_lower: "s \<in> set (flatten_settlement_sources raw) \<Longrightarrow> lower s = s"
proof (cases raw)
  case (JArray entries)
  moreover have "lower s = s"
    if "s \<in> set (case e of JScalar (JStr s) \<Rightarrow> [lower s]
          | JObject kvs \<Rightarrow> nonempty [name_and_url ''name'' ''url'' kvs] | _ \<Rightarrow> [])" for e
    using that by (auto dest: single_name_lower split: jvalue.splits json.splits)
  ultimately show "s \<in> set (flatten_settlement_sources raw) \<Longrightarrow> ?thesis"
    unfolding flatten_settlement_sources_def by auto
qed (simp_all add: flatten_settlement_sources_def)

lemma pm_us_sources_lower: "s \<in> set (pm_us_settlement_sources e) \<Longrightarrow> lower s = s"
  by (auto simp: pm_us_settlement_sources_def dest: single_name_lower split: jvalue.splits)

lemma question_claim_terms: "question_claim q = (c, level, units) \<Longrightarrow> c = NoComparator \<Longrightarrow> level = None"
  by (auto simp: question_claim_def Let_def)

text \<open>A claim without a comparator has no level.\<close>

definition claim_ok :: "comparator \<times> pyfloat option \<times> string option \<Rightarrow> bool" where
  "claim_ok r \<longleftrightarrow> (fst r = NoComparator \<longrightarrow> fst (snd r) = None)"

lemma claims_ok [simp]: "claim_ok (line_claim q u)" "claim_ok (question_claim q)"
    "claim_ok (polymarket_claim m)" "claim_ok (polymarket_us_claim m)"
  by (simp_all add: claim_ok_def line_claim_def question_claim_def polymarket_claim_def polymarket_us_claim_def Let_def)

lemma if_None_Inr: "(if b then Inr None else x) = Inr (Some m) \<longleftrightarrow> \<not> b \<and> x = Inr (Some m)"
  by simp

lemmas lowering = Let_def if_None_Inr bind_exc_Inr sum.inject option.inject

lemma polymarket_cases:
  assumes "normalize_polymarket_market loads fromiso market = Inr (Some m)"
  obtains c level units where "polymarket_claim market = (c, level, units)" "nm_venue m = Polymarket_Intl"
    "question m = text_field market ''question''" "comparator (terms m) = c" "threshold (terms m) = level"
    "threshold_units (terms m) = units" "threshold_upper (terms m) = None"
    "resolution_sources (terms m) = nonempty [lower (text_field market ''resolutionSource'')]"
proof -
  obtain c level units where c: "polymarket_claim market = (c, level, units)" by (metis prod_cases3)
  show thesis
    using assms unfolding normalize_polymarket_market_def lowering c prod.case
    by (elim exE conjE, hypsubst, intro that [OF c]) (simp_all only: normalized_market.simps settlement_terms.simps)
qed

lemma polymarket_us_cases:
  assumes "normalize_polymarket_us_market fromiso market event = Inr (Some m)"
  obtains c level units long short where "polymarket_us_claim market = (c, level, units)"
    "dict_get market ''marketSides'' = JArray [long, short]"
    "nm_venue m = Polymarket_US"
    "question m = text_field market ''question''" "comparator (terms m) = c" "threshold (terms m) = level"
    "threshold_units (terms m) = units" "threshold_upper (terms m) = None"
    "resolution_sources (terms m) = pm_us_settlement_sources event"
    "(yes_label m, no_label m) = pm_us_labels (side_description long) (side_description short)
       (strip (text_field market ''title'')) (text_field market ''question'')"
proof -
  obtain long short where sides: "dict_get market ''marketSides'' = JArray [long, short]"
    using assms unfolding normalize_polymarket_us_market_def by (simp split: jvalue.splits list.splits)
  obtain c level units where c: "polymarket_us_claim market = (c, level, units)" by (metis prod_cases3)
  obtain l s where ls: "pm_us_labels (side_description long) (side_description short)
      (strip (text_field market ''title'')) (text_field market ''question'') = (l, s)" by fastforce
  show thesis
    using assms unfolding normalize_polymarket_us_market_def lowering c sides ls prod.case list.case jvalue.case
    by (elim exE conjE, hypsubst, intro that [OF c sides])
      (simp_all only: normalized_market.simps settlement_terms.simps ls)
qed

lemma kalshi_cases:
  assumes "normalize_kalshi_market tz fromiso market event fm = Inr m"
  obtains c where "map_of kalshi_strike_comparators (text_field market ''strike_type'') = c"
    "nm_venue m = Kalshi" "fee m = fm" "comparator (terms m) = (case c of None \<Rightarrow> NoComparator | Some c \<Rightarrow> c)"
    "threshold (terms m) = (if comparator (terms m) \<in> {Greater, GreaterEqual, Between} then py_float (dict_get market ''floor_strike'')
       else if comparator (terms m) \<in> {Less, LessEqual} then py_float (dict_get market ''cap_strike'') else None)"
    "threshold_upper (terms m) = (if comparator (terms m) = Between then py_float (dict_get market ''cap_strike'') else None)"
    "resolution_sources (terms m) = flatten_settlement_sources (dict_get event ''settlement_sources'')"
  using assms unfolding normalize_kalshi_market_def lowering
  by (elim exE conjE, hypsubst, intro that [OF refl]) (simp_all only: normalized_market.simps settlement_terms.simps)

lemma kalshi_terms:
  assumes "normalize_kalshi_market tz fromiso market event fm = Inr m"
  shows "well_formed_terms (terms m)"
  by (rule kalshi_cases [OF assms]) (auto simp: well_formed_terms_def flattened_sources_lower split: if_splits)

lemma polymarket_terms:
  assumes "normalize_polymarket_market loads fromiso market = Inr (Some m)"
  shows "well_formed_terms (terms m)"
proof (rule polymarket_cases [OF assms])
  fix c level units
  assume "polymarket_claim market = (c, level, units)"
  then have "claim_ok (c, level, units)" using claims_ok(3) by metis
  then show ?thesis if "comparator (terms m) = c" "threshold (terms m) = level" "threshold_upper (terms m) = None"
      "resolution_sources (terms m) = nonempty [lower (text_field market ''resolutionSource'')]"
    using that by (auto simp: well_formed_terms_def claim_ok_def nonempty_def)
qed

lemma polymarket_us_terms:
  assumes "normalize_polymarket_us_market fromiso market event = Inr (Some m)"
  shows "well_formed_terms (terms m)"
proof (rule polymarket_us_cases [OF assms])
  fix c level units
  assume "polymarket_us_claim market = (c, level, units)"
  then have "claim_ok (c, level, units)" using claims_ok(4) by metis
  then show ?thesis if "comparator (terms m) = c" "threshold (terms m) = level" "threshold_upper (terms m) = None"
      "resolution_sources (terms m) = pm_us_settlement_sources event"
    using that by (auto simp: well_formed_terms_def claim_ok_def pm_us_sources_lower)
qed

text \<open>C37. Whatever the payload, a lowered market carries the venue it was read from, a market without
  a comparator has no level, only a range has an upper level, and settlement sources are in lower
  case; Polymarket markets have no upper level, and a Kalshi market carries the fee model it was
  given.\<close>
theorem lowered_terms_are_well_formed:
  "(case normalize_kalshi_market tz fromiso market event fm of
      Inl e \<Rightarrow> True | Inr m \<Rightarrow> nm_venue m = Kalshi \<and> fee m = fm \<and> well_formed_terms (terms m)) \<and>
   (case normalize_polymarket_market loads fromiso market of
      Inr (Some m) \<Rightarrow> nm_venue m = Polymarket_Intl \<and> well_formed_terms (terms m) \<and> threshold_upper (terms m) = None
    | _ \<Rightarrow> True) \<and>
   (case normalize_polymarket_us_market fromiso market event of
      Inr (Some m) \<Rightarrow> nm_venue m = Polymarket_US \<and> well_formed_terms (terms m) \<and> threshold_upper (terms m) = None
    | _ \<Rightarrow> True)"
proof (intro conjI)
  show "case normalize_kalshi_market tz fromiso market event fm of
      Inl e \<Rightarrow> True | Inr m \<Rightarrow> nm_venue m = Kalshi \<and> fee m = fm \<and> well_formed_terms (terms m)"
    by (simp split: sum.split) (blast dest: kalshi_terms elim: kalshi_cases)
  show "case normalize_polymarket_market loads fromiso market of
      Inr (Some m) \<Rightarrow> nm_venue m = Polymarket_Intl \<and> well_formed_terms (terms m) \<and> threshold_upper (terms m) = None
    | _ \<Rightarrow> True"
    by (simp split: sum.split option.split) (blast dest: polymarket_terms elim: polymarket_cases)
  show "case normalize_polymarket_us_market fromiso market event of
      Inr (Some m) \<Rightarrow> nm_venue m = Polymarket_US \<and> well_formed_terms (terms m) \<and> threshold_upper (terms m) = None
    | _ \<Rightarrow> True"
    by (simp split: sum.split option.split) (blast dest: polymarket_us_terms elim: polymarket_us_cases)
qed

section \<open>What lowering raises\<close>

definition raises_in :: "exc set \<Rightarrow> exc + 'a \<Rightarrow> bool" where
  "raises_in E r \<longleftrightarrow> (\<forall>e. r = Inl e \<longrightarrow> e \<in> E)"

lemma raises_in_simps [simp]: "raises_in E (Inr x)" "raises_in E (Inl e) \<longleftrightarrow> e \<in> E"
  by (simp_all add: raises_in_def)

lemma raises_in_bind: "raises_in E r \<Longrightarrow> (\<And>x. raises_in E (f x)) \<Longrightarrow> raises_in E (bind_exc r f)"
  by (cases r) simp_all

lemma parse_iso_raises: "OverflowError \<in> E \<Longrightarrow> raises_in E (parse_iso fromiso v)"
  by (simp add: parse_iso_def Let_def split: jvalue.split json.split option.split)

lemma parse_datetime_raises: "OverflowError \<in> E \<Longrightarrow> raises_in E (parse_datetime_phrase tz s)"
  by (simp add: parse_datetime_phrase_def Let_def split: option.split)

lemma kalshi_tick_raises: "TypeError \<in> E \<Longrightarrow> raises_in E (kalshi_tick market)"
  unfolding kalshi_tick_def Let_def by (rule raises_in_bind) (simp_all split: jvalue.split json.split)

lemma parse_float_raises: "ValueError \<in> E \<Longrightarrow> TypeError \<in> E \<Longrightarrow> raises_in E (parse_float_or v d)"
  by (simp add: parse_float_or_def Let_def float_error_def split: option.split jvalue.split json.split)

lemma fee_models_raise:
  "UnsupportedFeeModelError \<in> E \<Longrightarrow> raises_in E (polymarket_fee_model market)"
  "UnsupportedFeeModelError \<in> E \<Longrightarrow> raises_in E (polymarket_us_fee_model market)"
  by (simp_all add: polymarket_fee_model_def polymarket_us_fee_model_def Let_def split: jvalue.split option.split)

lemma first_event_raises: "AttributeError \<in> E \<Longrightarrow> raises_in E (first_event v)"
  by (simp add: first_event_def split: jvalue.split list.split)

lemmas lowering_raises =
  raises_in_bind parse_iso_raises parse_datetime_raises kalshi_tick_raises parse_float_raises fee_models_raise first_event_raises

lemma raises_in_if: "(b \<Longrightarrow> raises_in E x) \<Longrightarrow> (\<not> b \<Longrightarrow> raises_in E y) \<Longrightarrow> raises_in E (if b then x else y)"
  by simp

lemma kalshi_raises: "raises_in {OverflowError, TypeError} (normalize_kalshi_market tz fromiso market event fm)"
  unfolding normalize_kalshi_market_def Let_def
  by (intro lowering_raises raises_in_simps insertI1 insertI2) (simp add: parse_iso_raises split: option.split)

lemma polymarket_raises:
  "raises_in {AttributeError, OverflowError, UnsupportedFeeModelError, ValueError, TypeError}
     (normalize_polymarket_market loads fromiso market)"
  unfolding normalize_polymarket_market_def Let_def case_prod_beta
  by (intro lowering_raises raises_in_if raises_in_simps insertI1 insertI2)

lemma polymarket_us_raises:
  "raises_in {OverflowError, UnsupportedFeeModelError, ValueError, TypeError}
     (normalize_polymarket_us_market fromiso market event)"
proof (cases "\<exists>long short. dict_get market ''marketSides'' = JArray [long, short]")
  case True
  then obtain long short where sides: "dict_get market ''marketSides'' = JArray [long, short]" by blast
  show ?thesis
    unfolding normalize_polymarket_us_market_def sides Let_def case_prod_beta jvalue.case list.case
    by (intro lowering_raises raises_in_if raises_in_simps insertI1 insertI2) (simp add: parse_iso_raises split: option.split)
next
  case False
  then show ?thesis unfolding normalize_polymarket_us_market_def by (simp split: jvalue.split list.split)
qed


section \<open>Titled markets\<close>

lemma strip_not: "\<exists>u. strip (''not '' @ t) = ''not'' @ u"
proof (cases "\<forall>c \<in> set t. is_space c")
  case True
  then have "dropWhile is_space (rev t @ '' ton'') = dropWhile is_space '' ton''" by (intro dropWhile_append2) simp
  then have "dropWhile is_space (rev (''not '' @ t)) = rev ''not''" by (simp add: is_space_def)
  then show ?thesis by (simp add: strip_def is_space_def)
next
  case False
  then have "dropWhile is_space (rev (''not '' @ t)) = dropWhile is_space (rev t) @ rev ''not ''"
    by (simp add: dropWhile_append)
  then show ?thesis by (simp add: strip_def is_space_def)
qed

lemma label_key_not: "label_key (''not '' @ t) \<notin> set affirmative_labels \<and> label_key (''not '' @ t) \<notin> set negative_labels"
proof -
  obtain u where "strip (''not '' @ t) = ''not'' @ u" using strip_not by blast
  moreover have "lower ''not'' = ''not''" by code_simp
  ultimately have "label_key (''not '' @ t) = ''not'' @ lower u"
    unfolding label_key_def by (simp only: lower_def map_append)
  then show ?thesis by (simp add: affirmative_labels_def negative_labels_def)
qed

lemma titled_labels:
  "lower (strip l) \<in> {''yes'', ''no''} \<Longrightarrow> t \<notin> {[], q} \<Longrightarrow> pm_us_labels l s t q = (t, ''not '' @ t)"
  unfolding pm_us_labels_def generic_side_labels_def by simp

lemma alignment_of_negated:
  assumes "no_label p = ''not '' @ yes_label p" "snd (resolve_team_alias (yes_label k)) = None"
  shows "fst (resolve_alignment k p) \<noteq> Some True"
  using label_key_not [of "yes_label p"] teams_match_negated [of "yes_label k" "yes_label p"] assms
  by (auto simp: resolve_alignment_def Let_def)

text \<open>A Polymarket US market whose sides are a bare Yes and No is labelled by its title and the
  negated title, so a Kalshi label without a disambiguator never aligns with its first outcome:
  whenever it matches the title it matches the negation too, the pair is ambiguous, and no such
  pair is called identical with its outcomes in order.\<close>
theorem titled_market_never_affirms_a_plain_label:
  assumes "normalize_polymarket_us_market fromiso market event = Inr (Some p)"
    and "dict_get market ''marketSides'' = JArray [long, short]"
    and "lower (strip (side_description long)) \<in> {''yes'', ''no''}"
    and "strip (text_field market ''title'') \<notin> {[], text_field market ''question''}"
    and "snd (resolve_team_alias (yes_label k)) = None"
  shows "yes_label p = strip (text_field market ''title'') \<and> no_label p = ''not '' @ yes_label p \<and>
    fst (resolve_alignment k p) \<noteq> Some True \<and>
    (\<forall>m. evaluate orders config \<lparr>ix_market = k, ix_tokens = kt\<rparr> \<lparr>ix_market = p, ix_tokens = pt\<rparr> w = Some m \<longrightarrow>
       confidence m = Identical \<longrightarrow> \<not> aligned m)"
proof -
  have labels: "(yes_label p, no_label p) = (strip (text_field market ''title''), ''not '' @ strip (text_field market ''title''))"
  proof (rule polymarket_us_cases [OF assms(1)])
    fix l s
    assume "dict_get market ''marketSides'' = JArray [l, s]"
    then have "l = long" "s = short" using assms(2) by simp_all
    then show ?thesis if "(yes_label p, no_label p) = pm_us_labels (side_description l) (side_description s)
        (strip (text_field market ''title'')) (text_field market ''question'')"
      using that titled_labels [OF assms(3,4)] by simp
  qed
  then have "fst (resolve_alignment k p) \<noteq> Some True" using alignment_of_negated assms(5) by simp
  moreover from this have "\<not> aligned m"
    if "evaluate orders config \<lparr>ix_market = k, ix_tokens = kt\<rparr> \<lparr>ix_market = p, ix_tokens = pt\<rparr> w = Some m"
      "confidence m = Identical" for m
    using evaluate_verdict [OF that(1)] that(2) by (auto simp: verdict_def)
  ultimately show ?thesis using labels by simp
qed

section \<open>Line markets\<close>

text \<open>A line market of either Polymarket venue takes its level from the first number of its
  question and nothing else; against a Kalshi market without a level the level check refuses it
  when there is such a number and passes it when there is none, whatever its type is.\<close>
theorem line_market_is_stopped_only_by_its_number:
  assumes "normalize_polymarket_market loads fromiso market = Inr (Some p) \<and>
      lower (text_field market ''sportsMarketType'') \<notin> {''moneyline'', []} \<or>
    normalize_polymarket_us_market fromiso market event = Inr (Some p) \<and>
      lower (text_field market ''marketType'') \<notin> {''futures'', ''moneyline'', ''election''}"
    and "threshold (terms k) = None"
  shows "threshold (terms p) = parse_number (question p) \<and> (same_level k p \<longleftrightarrow> parse_number (question p) = None)"
proof -
  have "threshold (terms p) = parse_number (question p)"
    using assms(1)
  proof (elim disjE conjE)
    assume a: "normalize_polymarket_market loads fromiso market = Inr (Some p)"
      "lower (text_field market ''sportsMarketType'') \<notin> {''moneyline'', []}"
    show ?thesis
      by (rule polymarket_cases [OF a(1)]) (use a(2) in \<open>simp add: polymarket_claim_def Let_def line_claim_def moneyline_market_types_def\<close>)
  next
    assume a: "normalize_polymarket_us_market fromiso market event = Inr (Some p)"
      "lower (text_field market ''marketType'') \<notin> {''futures'', ''moneyline'', ''election''}"
    show ?thesis
      by (rule polymarket_us_cases [OF a(1)])
        (use a(2) in \<open>simp add: polymarket_us_claim_def Let_def line_claim_def pm_us_outcome_market_types_def\<close>)
  qed
  then show ?thesis using assms(2) by (auto simp: same_level_def)
qed

section \<open>Comparators inside words\<close>

text \<open>A phrase is looked for anywhere in the question, so "hit" is found in "White".\<close>

theorem white_sox_make_a_level:
  "question_claim ''White Sox vs. Royals, August 18'' = (GreaterEqual, Some 18, None) \<and>
   question_claim ''Red Sox vs. Royals, August 18'' = (NoComparator, None, None)"
  by (rule conjI; code_simp)

section \<open>Witnesses\<close>

definition sample_futures :: pydict where
  "sample_futures =
     [(''marketSides'', JArray [JObject [(''description'', jstr ''Yes'')], JObject [(''description'', jstr ''No'')]]),
      (''title'', jstr ''Miami''), (''question'', jstr ''NBA Champion''), (''marketType'', jstr ''futures''),
      (''feeCoefficient'', JScalar (JInt 0)), (''slug'', jstr ''nba-miami'')]"

definition lowered :: "exc + normalized_market option \<Rightarrow> bool" where
  "lowered r = (case r of Inr (Some m) \<Rightarrow> True | _ \<Rightarrow> False)"

lemma lowered_iff: "lowered r \<longleftrightarrow> (\<exists>m. r = Inr (Some m))"
  by (simp add: lowered_def split: sum.split option.split)

lemma sample_lowered: "lowered (normalize_polymarket_us_market (\<lambda>_. None) sample_futures [])"
  by code_simp

lemma sample_alias: "snd (resolve_team_alias ''Miami'') = None"
  by code_simp

lemma sample_fields:
  "dict_get sample_futures ''marketSides'' =
     JArray [JObject [(''description'', jstr ''Yes'')], JObject [(''description'', jstr ''No'')]]"
  "lower (strip (side_description (JObject [(''description'', jstr ''Yes'')]))) = ''yes''"
  "strip (text_field sample_futures ''title'') = ''Miami''" "text_field sample_futures ''question'' = ''NBA Champion''"
  by code_simp+

theorem titled_market_never_affirms_a_plain_label_witness:
  "\<exists>p. normalize_polymarket_us_market (\<lambda>_. None) sample_futures [] = Inr (Some p) \<and> yes_label p = ''Miami'' \<and>
     fst (resolve_alignment (sample_market Kalshi ''Miami'' ''not Miami'') p) \<noteq> Some True"
proof -
  obtain p where p: "normalize_polymarket_us_market (\<lambda>_. None) sample_futures [] = Inr (Some p)"
    using sample_lowered lowered_iff by blast
  have "snd (resolve_team_alias (yes_label (sample_market Kalshi ''Miami'' ''not Miami''))) = None"
    using sample_alias by (simp add: sample_market_def)
  then show ?thesis
    using titled_market_never_affirms_a_plain_label [OF p sample_fields(1)] sample_fields(2-4) p by auto
qed

definition sample_line :: pydict where
  "sample_line = (''marketType'', jstr ''props'') # (''question'', jstr ''Both teams to score'') # sample_futures"

lemma sample_line_lowered:
  "lowered (normalize_polymarket_us_market (\<lambda>_. None) sample_line [])"
  "lower (text_field sample_line ''marketType'') = ''props''" "text_field sample_line ''question'' = ''Both teams to score''"
  "parse_number ''Both teams to score'' = None"
  by code_simp+

theorem line_market_is_stopped_only_by_its_number_witness:
  "\<exists>p. normalize_polymarket_us_market (\<lambda>_. None) sample_line [] = Inr (Some p) \<and> comparator (terms p) = Greater \<and>
     threshold (terms p) = None \<and> same_level (sample_market Kalshi ''Miami'' ''not Miami'') p"
proof -
  obtain p where p: "normalize_polymarket_us_market (\<lambda>_. None) sample_line [] = Inr (Some p)"
    using sample_line_lowered(1) lowered_iff by blast
  have c: "polymarket_us_claim sample_line = (Greater, None, Some ''props'')" by code_simp
  have q: "question p = ''Both teams to score'' \<and> comparator (terms p) = Greater"
    by (rule polymarket_us_cases [OF p]) (simp add: c sample_line_lowered)
  have t: "lower (text_field sample_line ''marketType'') \<notin> {''futures'', ''moneyline'', ''election''}"
    by (simp add: sample_line_lowered)
  have "threshold (terms (sample_market Kalshi ''Miami'' ''not Miami'')) = None"
    by (simp add: sample_market_def sample_terms_def)
  then show ?thesis
    using line_market_is_stopped_only_by_its_number [OF disjI2 [OF conjI [OF p t]]] p q sample_line_lowered(4) by auto
qed

end
