(* ===== verification/Configuration.thy ===== *)
theory Configuration
  imports Executor_Fire Python_Text
begin

text \<open>
  config.py: the configuration read from environment variables, and its two guards on production.

  The environment is a map of texts. \<open>float\<close> also reads texts for infinity and not-a-number and
  digits grouped by underscores; such texts are outside the model of floats, as everywhere else.
\<close>

section \<open>Reading texts\<close>

text \<open>\<open>int(text)\<close>: an optional sign and digits, single underscores allowed between digits.\<close>

fun digit_groups :: "int \<Rightarrow> string \<Rightarrow> int option" where
  "digit_groups n [] = Some n"
| "digit_groups n (c # cs) =
     (if is_digit c then digit_groups (10 * n + digit_value c) cs
      else if c = CHR ''_'' then (case cs of [] \<Rightarrow> None | d # _ \<Rightarrow> if is_digit d then digit_groups n cs else None)
      else None)"

definition int_of_text :: "string \<Rightarrow> int option" where
  "int_of_text s =
     (let t = strip s;
          (sg, u) = (case t of [] \<Rightarrow> (1, [])
            | c # cs \<Rightarrow> if c = CHR ''-'' then (- 1, cs) else if c = CHR ''+'' then (1, cs) else (1, t))
      in case u of [] \<Rightarrow> None
         | c # _ \<Rightarrow> if is_digit c then map_option ((*) sg) (digit_groups 0 u) else None)"

text \<open>\<open>str(Path(text))\<close> on POSIX: repeated slashes and components \<open>.\<close> go, and nothing at all is \<open>.\<close>.\<close>

fun join_slash :: "string list \<Rightarrow> string" where
  "join_slash [] = []"
| "join_slash [p] = p"
| "join_slash (p # q # ps) = p @ CHR ''/'' # join_slash (q # ps)"

definition path_text :: "string \<Rightarrow> string" where
  "path_text s =
     (let root = (if starts_with ''//'' s \<and> \<not> starts_with ''///'' s then ''//''
                  else if starts_with ''/'' s then ''/'' else []);
          parts = filter (\<lambda>p. p \<noteq> [] \<and> p \<noteq> ''.'') (pieces (\<lambda>c. c = CHR ''/'') s)
      in if root = [] \<and> parts = [] then ''.'' else root @ join_slash parts)"

section \<open>The configuration\<close>

record bot_config = risk_config +
  cf_api_key_id :: string
  cf_private_key_path :: string
  cf_demo_api_key_id :: string
  cf_demo_private_key_path :: string
  cf_prod_api_key_id :: string
  cf_prod_private_key_path :: string
  cf_demo_base_url :: string
  cf_prod_base_url :: string
  cf_demo_ws_url :: string
  cf_prod_ws_url :: string
  cf_environment :: string
  cf_allow_production_orders :: bool
  cf_telemetry_db_path :: string
  cf_ipc_socket_path :: string
  cf_fixed_order_contract_count :: int
  cf_order_time_in_force :: string
  cf_order_self_trade_prevention_type :: string
  cf_allowed_exchange_indexes :: "int set"
  cf_killswitch_path :: string
  cf_log_dir :: string
  cf_risk_gate_enabled :: bool
  cf_kelly_fraction :: pyfloat
  cf_max_pct_of_balance :: pyfloat

definition environments :: "string list" where "environments = [''demo'', ''prod'']"
definition time_in_force_values :: "string list" where
  "time_in_force_values = [''fill_or_kill'', ''good_till_canceled'', ''immediate_or_cancel'']"
definition self_trade_prevention_values :: "string list" where
  "self_trade_prevention_values = [''taker_at_cross'', ''maker'']"

definition base_url :: "bot_config \<Rightarrow> string" where
  "base_url c = (if cf_environment c = ''prod'' then cf_prod_base_url c else cf_demo_base_url c)"

definition ws_url :: "bot_config \<Rightarrow> string" where
  "ws_url c = (if cf_environment c = ''prod'' then cf_prod_ws_url c else cf_demo_ws_url c)"

definition resolved_api_key_id :: "bot_config \<Rightarrow> string" where
  "resolved_api_key_id c =
     (let specific = (if cf_environment c = ''prod'' then cf_prod_api_key_id c else cf_demo_api_key_id c)
      in if specific \<noteq> [] then specific else cf_api_key_id c)"

definition resolved_private_key_path :: "bot_config \<Rightarrow> string" where
  "resolved_private_key_path c =
     (let specific = (if cf_environment c = ''prod'' then cf_prod_private_key_path c else cf_demo_private_key_path c)
      in if specific \<notin> {[], ''.''} then specific else cf_private_key_path c)"

definition assert_orders_permitted :: "bot_config \<Rightarrow> exc + unit" where
  "assert_orders_permitted c =
     (if cf_environment c = ''prod'' \<and> \<not> cf_allow_production_orders c then Inl RuntimeError else Inr ())"

definition assert_demo_trading_process :: "bot_config \<Rightarrow> exc + unit" where
  "assert_demo_trading_process c = (if cf_environment c \<noteq> ''demo'' then Inl RuntimeError else Inr ())"

section \<open>Loading\<close>

type_synonym environ = "string \<rightharpoonup> string"

definition switched_on :: "string \<Rightarrow> bool" where
  "switched_on s \<longleftrightarrow> lower (strip s) \<in> {''1'', ''true'', ''yes''}"

definition exchange_indexes :: "string \<Rightarrow> int set option" where
  "exchange_indexes raw =
     (let parts = filter (\<lambda>p. strip p \<noteq> []) (pieces (\<lambda>c. c = CHR '','') raw);
          ns = map (\<lambda>p. int_of_text (strip p)) parts
      in if None \<in> set ns then None else Some (set (map the ns)))"

text \<open>\<open>int(...)\<close> and \<open>float(...)\<close> of a variable or its default.\<close>

definition int_var :: "environ \<Rightarrow> string \<Rightarrow> string \<Rightarrow> exc + int" where
  "int_var env k d = (case int_of_text (get_default env k d) of None \<Rightarrow> Inl ValueError | Some n \<Rightarrow> Inr n)"

definition float_var :: "environ \<Rightarrow> string \<Rightarrow> string \<Rightarrow> exc + pyfloat" where
  "float_var env k d = (case float_of_text (get_default env k d) of None \<Rightarrow> Inl ValueError | Some x \<Rightarrow> Inr x)"

definition load_config :: "environ \<Rightarrow> exc + bot_config" where
  "load_config env =
     (let get = get_default env;
          environment = get ''KALSHI_ENVIRONMENT'' ''demo'';
          tif = get ''KALSHI_ORDER_TIME_IN_FORCE'' ''fill_or_kill'';
          stp = get ''KALSHI_ORDER_SELF_TRADE_PREVENTION_TYPE'' ''taker_at_cross''
      in if environment \<notin> set environments then Inl ValueError
         else if tif \<notin> set time_in_force_values then Inl ValueError
         else if stp \<notin> set self_trade_prevention_values then Inl ValueError
         else case exchange_indexes (get ''KALSHI_ALLOWED_EXCHANGE_INDEXES'' []) of
           None \<Rightarrow> Inl ValueError
         | Some allowed \<Rightarrow>
             bind_exc (int_var env ''KALSHI_FIXED_ORDER_CONTRACT_COUNT'' ''1'') (\<lambda>contract_count.
             bind_exc (int_var env ''KALSHI_RISK_MAX_ATTEMPTS_PER_HOUR'' ''10'') (\<lambda>per_hour.
             bind_exc (int_var env ''KALSHI_RISK_MAX_ATTEMPTS_PER_DAY'' ''50'') (\<lambda>per_day.
             bind_exc (int_var env ''KALSHI_RISK_MAX_ATTEMPTS_PER_TICKER_PER_DAY'' ''5'') (\<lambda>per_ticker.
             bind_exc (float_var env ''KALSHI_RISK_MAX_NOTIONAL_PER_DAY_DOLLARS'' ''50.0'') (\<lambda>notional.
             bind_exc (int_var env ''KALSHI_RISK_MAX_CONCURRENT_DISPATCHES'' ''2'') (\<lambda>concurrent.
             bind_exc (float_var env ''KALSHI_RISK_MAX_POSITION_CONTRACTS_PER_TICKER'' ''5.0'') (\<lambda>position_ticker.
             bind_exc (int_var env ''KALSHI_RISK_MAX_ATTEMPTS_PER_CORRELATION_GROUP_PER_DAY'' ''10'') (\<lambda>per_group.
             bind_exc (int_var env ''KALSHI_RISK_MAX_ATTEMPTS_PER_EVENT_PER_DAY'' ''6'') (\<lambda>per_event.
             bind_exc (float_var env ''KALSHI_RISK_MAX_POSITION_CONTRACTS_PER_EVENT'' ''6.0'') (\<lambda>position_event.
             bind_exc (float_var env ''KALSHI_RISK_MAX_POSITION_CONTRACTS_PER_CORRELATION_GROUP'' ''10.0'') (\<lambda>position_group.
             bind_exc (float_var env ''KALSHI_RISK_REFIRE_COOLDOWN_SECONDS'' ''60.0'') (\<lambda>cooldown.
             bind_exc (float_var env ''KALSHI_KELLY_FRACTION'' ''0.15'') (\<lambda>kelly.
             bind_exc (float_var env ''KALSHI_MAX_POSITION_PCT_OF_BALANCE'' ''0.02'') (\<lambda>max_pct.
               Inr \<lparr>risk_max_attempts_per_hour = per_hour, risk_max_attempts_per_day = per_day,
                 risk_max_attempts_per_ticker_per_day = per_ticker, risk_max_notional_per_day_dollars = notional,
                 risk_max_concurrent_dispatches = concurrent, risk_max_position_contracts_per_ticker = position_ticker,
                 risk_max_attempts_per_correlation_group_per_day = per_group,
                 risk_max_position_contracts_per_correlation_group = position_group,
                 risk_max_attempts_per_event_per_day = per_event, risk_max_position_contracts_per_event = position_event,
                 risk_refire_cooldown_seconds = cooldown,
                 cf_api_key_id = get ''KALSHI_API_KEY_ID'' [],
                 cf_private_key_path = path_text (get ''KALSHI_PRIVATE_KEY_PATH'' []),
                 cf_demo_api_key_id = get ''KALSHI_DEMO_API_KEY_ID'' [],
                 cf_demo_private_key_path = path_text (get ''KALSHI_DEMO_PRIVATE_KEY_PATH'' []),
                 cf_prod_api_key_id = get ''KALSHI_PROD_API_KEY_ID'' [],
                 cf_prod_private_key_path = path_text (get ''KALSHI_PROD_PRIVATE_KEY_PATH'' []),
                 cf_demo_base_url = get ''KALSHI_DEMO_BASE_URL'' [], cf_prod_base_url = get ''KALSHI_PROD_BASE_URL'' [],
                 cf_demo_ws_url = get ''KALSHI_DEMO_WS_URL'' [], cf_prod_ws_url = get ''KALSHI_PROD_WS_URL'' [],
                 cf_environment = environment,
                 cf_allow_production_orders = switched_on (get ''KALSHI_ALLOW_PRODUCTION_ORDERS'' []),
                 cf_telemetry_db_path = path_text (get ''KALSHI_TELEMETRY_DB_PATH'' []),
                 cf_ipc_socket_path = path_text (get ''KALSHI_IPC_SOCKET_PATH'' ''./data/executor.sock''),
                 cf_fixed_order_contract_count = contract_count,
                 cf_order_time_in_force = tif, cf_order_self_trade_prevention_type = stp,
                 cf_allowed_exchange_indexes = allowed,
                 cf_killswitch_path = path_text (get ''KALSHI_KILLSWITCH_PATH'' ''./data/killswitch''),
                 cf_log_dir = path_text (get ''KALSHI_LOG_DIR'' ''./data/logs''),
                 cf_risk_gate_enabled = switched_on (get ''KALSHI_RISK_GATE_ENABLED'' ''true''),
                 cf_kelly_fraction = kelly, cf_max_pct_of_balance = max_pct\<rparr>)))))))))))))))"

lemma load_config_cases:
  assumes "load_config env = Inr c"
  obtains "cf_environment c = get_default env ''KALSHI_ENVIRONMENT'' ''demo''"
    "cf_environment c \<in> {''demo'', ''prod''}"
    "cf_allow_production_orders c = switched_on (get_default env ''KALSHI_ALLOW_PRODUCTION_ORDERS'' [])"
    "cf_risk_gate_enabled c = switched_on (get_default env ''KALSHI_RISK_GATE_ENABLED'' ''true'')"
    "cf_order_time_in_force c \<in> set time_in_force_values"
    "cf_order_self_trade_prevention_type c \<in> set self_trade_prevention_values"
    "exchange_indexes (get_default env ''KALSHI_ALLOWED_EXCHANGE_INDEXES'' []) = Some (cf_allowed_exchange_indexes c)"
proof -
  obtain allowed where a: "exchange_indexes (get_default env ''KALSHI_ALLOWED_EXCHANGE_INDEXES'' []) = Some allowed"
    using assms by (cases "exchange_indexes (get_default env ''KALSHI_ALLOWED_EXCHANGE_INDEXES'' [])")
      (auto simp only: load_config_def Let_def option.case sum.distinct split: if_splits)
  have ite: "(if b then Inl x else r) = Inr y \<longleftrightarrow> \<not> b \<and> r = Inr y" for b and x :: exc and r and y :: bot_config
    by simp
  show thesis
    using assms unfolding load_config_def Let_def a option.case ite bind_exc_Inr sum.inject
    by (elim exE conjE, hypsubst, intro that)
      (simp_all only: bot_config.simps risk_config.simps not_not environments_def list.set a option.inject)
qed

section \<open>Production\<close>

definition allows_production :: "environ \<Rightarrow> bool" where
  "allows_production env \<longleftrightarrow> (\<exists>t. env ''KALSHI_ALLOW_PRODUCTION_ORDERS'' = Some t \<and> switched_on t)"

lemma not_switched_on_Nil: "\<not> switched_on []"
  by code_simp

lemma allow_variable: "switched_on (get_default env ''KALSHI_ALLOW_PRODUCTION_ORDERS'' []) \<longleftrightarrow> allows_production env"
  by (simp add: allows_production_def get_default_def not_switched_on_Nil split: option.split)

lemma environment_variable:
  "get_default env ''KALSHI_ENVIRONMENT'' ''demo'' = ''prod'' \<longleftrightarrow> env ''KALSHI_ENVIRONMENT'' = Some ''prod''"
  "get_default env ''KALSHI_ENVIRONMENT'' ''demo'' = ''demo'' \<longleftrightarrow> env ''KALSHI_ENVIRONMENT'' \<in> {None, Some ''demo''}"
  by (simp_all add: get_default_def split: option.split)

text \<open>C6. A loaded configuration permits orders against production exactly when the environment
  variable says prod and the second variable switches it on; the poller and the executor start
  exactly in the demo environment; and from an environment that has neither setting no change of a
  single variable arms production.\<close>
theorem production_takes_two_switches:
  assumes "load_config env = Inr c"
  shows "(cf_environment c = ''prod'' \<and> assert_orders_permitted c = Inr () \<longleftrightarrow>
      env ''KALSHI_ENVIRONMENT'' = Some ''prod'' \<and> allows_production env) \<and>
    (assert_demo_trading_process c = Inr () \<longleftrightarrow> env ''KALSHI_ENVIRONMENT'' \<in> {None, Some ''demo''}) \<and>
    (\<forall>env0 k v. env = env0(k \<mapsto> v) \<longrightarrow> env0 ''KALSHI_ENVIRONMENT'' \<noteq> Some ''prod'' \<longrightarrow> \<not> allows_production env0 \<longrightarrow>
      cf_environment c = ''prod'' \<longrightarrow> assert_orders_permitted c = Inl RuntimeError)"
proof (rule load_config_cases [OF assms])
  assume c: "cf_environment c = get_default env ''KALSHI_ENVIRONMENT'' ''demo''"
    "cf_allow_production_orders c = switched_on (get_default env ''KALSHI_ALLOW_PRODUCTION_ORDERS'' [])"
  have prod: "cf_environment c = ''prod'' \<and> assert_orders_permitted c = Inr () \<longleftrightarrow>
      env ''KALSHI_ENVIRONMENT'' = Some ''prod'' \<and> allows_production env"
    by (simp only: assert_orders_permitted_def c allow_variable environment_variable) auto
  have demo: "assert_demo_trading_process c = Inr () \<longleftrightarrow> env ''KALSHI_ENVIRONMENT'' \<in> {None, Some ''demo''}"
    unfolding environment_variable(2) [symmetric] c(1) [symmetric] by (simp add: assert_demo_trading_process_def)
  have "assert_orders_permitted c = Inl RuntimeError"
    if "env = env0(k \<mapsto> v)" "env0 ''KALSHI_ENVIRONMENT'' \<noteq> Some ''prod''" "\<not> allows_production env0"
      "cf_environment c = ''prod''" for env0 k v
  proof -
    have e: "env ''KALSHI_ENVIRONMENT'' = Some ''prod''" using that(4) c(1) environment_variable(1) by metis
    then have "k = ''KALSHI_ENVIRONMENT''" using that(1,2) by (auto split: if_splits)
    then have "env ''KALSHI_ALLOW_PRODUCTION_ORDERS'' = env0 ''KALSHI_ALLOW_PRODUCTION_ORDERS''" using that(1) by simp
    then have "\<not> allows_production env" using that(3) by (simp add: allows_production_def)
    then show ?thesis using that(4) c(2) allow_variable by (simp add: assert_orders_permitted_def)
  qed
  then show ?thesis using prod demo by blast
qed

section \<open>Unset variables\<close>

lemma default_numbers:
  "int_of_text ''1'' = Some 1" "int_of_text ''10'' = Some 10" "int_of_text ''50'' = Some 50" "int_of_text ''5'' = Some 5"
  "int_of_text ''2'' = Some 2" "int_of_text ''6'' = Some 6"
  "float_of_text ''50.0'' = Some 50" "float_of_text ''5.0'' = Some 5" "float_of_text ''6.0'' = Some 6"
  "float_of_text ''10.0'' = Some 10" "float_of_text ''60.0'' = Some 60"
  "float_of_text ''0.15'' = Some (lit 15 100)" "float_of_text ''0.02'' = Some (lit 2 100)"
  by code_simp+

lemma unset_var:
  "env k = None \<Longrightarrow> int_of_text d = Some n \<Longrightarrow> int_var env k d = Inr n"
  "env k = None \<Longrightarrow> float_of_text d = Some x \<Longrightarrow> float_var env k d = Inr x"
  by (simp_all add: int_var_def float_var_def get_default_def)

text \<open>A configuration loaded with no risk or sizing variable set has the risk gate on, and gives
  exactly the default limits of the gate and the default sizing of the executor.\<close>
theorem unset_limits_are_the_defaults:
  assumes "load_config env = Inr c"
    and "\<forall>k. starts_with ''KALSHI_RISK_'' k \<longrightarrow> env k = None"
    and "env ''KALSHI_KELLY_FRACTION'' = None" "env ''KALSHI_MAX_POSITION_PCT_OF_BALANCE'' = None"
  shows "from_config (risk_config.truncate c) allowed = default_limits allowed \<and> cf_risk_gate_enabled c \<and>
    cf_kelly_fraction c = default_kelly_fraction \<and> cf_max_pct_of_balance c = default_max_position_pct"
proof -
  have risk: "env (''KALSHI_RISK_'' @ k) = None" for k using assms(2) starts_with_iff by blast
  have r: "env ''KALSHI_RISK_MAX_ATTEMPTS_PER_HOUR'' = None" "env ''KALSHI_RISK_MAX_ATTEMPTS_PER_DAY'' = None"
    "env ''KALSHI_RISK_MAX_ATTEMPTS_PER_TICKER_PER_DAY'' = None" "env ''KALSHI_RISK_MAX_NOTIONAL_PER_DAY_DOLLARS'' = None"
    "env ''KALSHI_RISK_MAX_CONCURRENT_DISPATCHES'' = None" "env ''KALSHI_RISK_MAX_POSITION_CONTRACTS_PER_TICKER'' = None"
    "env ''KALSHI_RISK_MAX_ATTEMPTS_PER_CORRELATION_GROUP_PER_DAY'' = None"
    "env ''KALSHI_RISK_MAX_ATTEMPTS_PER_EVENT_PER_DAY'' = None" "env ''KALSHI_RISK_MAX_POSITION_CONTRACTS_PER_EVENT'' = None"
    "env ''KALSHI_RISK_MAX_POSITION_CONTRACTS_PER_CORRELATION_GROUP'' = None"
    "env ''KALSHI_RISK_REFIRE_COOLDOWN_SECONDS'' = None" "env ''KALSHI_RISK_GATE_ENABLED'' = None"
    using risk [of "''MAX_ATTEMPTS_PER_HOUR''"] risk [of "''MAX_ATTEMPTS_PER_DAY''"] risk [of "''MAX_ATTEMPTS_PER_TICKER_PER_DAY''"]
      risk [of "''MAX_NOTIONAL_PER_DAY_DOLLARS''"] risk [of "''MAX_CONCURRENT_DISPATCHES''"] risk [of "''MAX_POSITION_CONTRACTS_PER_TICKER''"]
      risk [of "''MAX_ATTEMPTS_PER_CORRELATION_GROUP_PER_DAY''"] risk [of "''MAX_ATTEMPTS_PER_EVENT_PER_DAY''"] risk [of "''MAX_POSITION_CONTRACTS_PER_EVENT''"]
      risk [of "''MAX_POSITION_CONTRACTS_PER_CORRELATION_GROUP''"] risk [of "''REFIRE_COOLDOWN_SECONDS''"] risk [of "''GATE_ENABLED''"]
    by (simp_all only: append.simps)
  note vars =
    unset_var(1) [of env, OF r(1) default_numbers(2)] unset_var(1) [of env, OF r(2) default_numbers(3)]
    unset_var(1) [of env, OF r(3) default_numbers(4)] unset_var(2) [of env, OF r(4) default_numbers(7)]
    unset_var(1) [of env, OF r(5) default_numbers(5)] unset_var(2) [of env, OF r(6) default_numbers(8)]
    unset_var(1) [of env, OF r(7) default_numbers(2)] unset_var(1) [of env, OF r(8) default_numbers(6)]
    unset_var(2) [of env, OF r(9) default_numbers(9)] unset_var(2) [of env, OF r(10) default_numbers(10)]
    unset_var(2) [of env, OF r(11) default_numbers(11)] unset_var(2) [of env, OF assms(3) default_numbers(12)]
    unset_var(2) [of env, OF assms(4) default_numbers(13)]
  have ite: "(if p then Inl x else y) = Inr z \<longleftrightarrow> \<not> p \<and> y = Inr z" for p and x :: exc and y and z :: bot_config
    by simp
  have opt: "(case a of None \<Rightarrow> Inl x | Some b \<Rightarrow> f b) = Inr z \<longleftrightarrow> (\<exists>b. a = Some b \<and> f b = Inr z)"
    for a :: "int set option" and x :: exc and f and z :: bot_config
    by (simp split: option.split)
  have gate: "get_default env ''KALSHI_RISK_GATE_ENABLED'' ''true'' = ''true''" by (simp only: get_default_def r(12) option.case)
  have on: "switched_on ''true''" by code_simp
  show ?thesis
    using assms(1) unfolding load_config_def Let_def opt ite bind_exc_Inr sum.inject vars gate
    by (elim exE conjE, hypsubst)
      (simp_all only: from_config_def default_limits_def risk_config.truncate_def bot_config.simps risk_config.simps on
        default_kelly_fraction_def default_max_position_pct_def simp_thms)
qed

lemma sample_environment: "\<exists>c. load_config Map.empty = Inr c"
proof -
  have "(case load_config Map.empty of Inr c \<Rightarrow> True | Inl e \<Rightarrow> False)" by code_simp
  then show ?thesis by (cases "load_config Map.empty") auto
qed

section \<open>Witnesses\<close>

definition production_environment :: environ where
  "production_environment = [''KALSHI_ENVIRONMENT'' \<mapsto> ''prod'']"

lemma production_loads: "\<exists>c. load_config production_environment = Inr c"
proof -
  have "(case load_config production_environment of Inr c \<Rightarrow> True | Inl e \<Rightarrow> False)"
    unfolding production_environment_def by code_simp
  then show ?thesis by (cases "load_config production_environment") auto
qed

theorem production_takes_two_switches_witness:
  "\<exists>c. load_config production_environment = Inr c \<and> cf_environment c = ''prod'' \<and> assert_orders_permitted c = Inl RuntimeError \<and>
     assert_demo_trading_process c \<noteq> Inr ()"
proof -
  obtain c where c: "load_config production_environment = Inr c" using production_loads by blast
  have e: "cf_environment c = ''prod''"
    by (rule load_config_cases [OF c]) (simp add: production_environment_def get_default_def)
  have "production_environment = Map.empty(''KALSHI_ENVIRONMENT'' \<mapsto> ''prod'')" by (simp add: production_environment_def)
  moreover have "\<not> allows_production Map.empty" by (simp add: allows_production_def)
  ultimately show ?thesis using production_takes_two_switches [OF c] c e by (auto simp: production_environment_def)
qed

theorem unset_limits_are_the_defaults_witness:
  "\<exists>c. load_config Map.empty = Inr c \<and> from_config (risk_config.truncate c) {0} = default_limits {0} \<and> cf_risk_gate_enabled c"
proof -
  obtain c where c: "load_config Map.empty = Inr c" using sample_environment by blast
  show ?thesis using unset_limits_are_the_defaults [OF c, where allowed = "{0}"] c by simp
qed

end
