(* ===== verification/Migrations.thy ===== *)
theory Migrations
  imports Telemetry_Store
begin

text \<open>
  \<open>telemetry/migrations.py\<close> and \<open>TelemetryDB.initialize\<close>: how a database file comes to the current
  schema. Of a table the model keeps the columns, the rows and whether the old \<open>CHECK\<close> on latency
  stages is there; of a connection the file as it would be found after a crash, the open
  transaction, and the durable states the file went through. A statement that fails raises
  \<open>sqlite3.Error\<close>. \<open>executescript\<close> commits an open transaction first and then runs its statements
  one by one, each durable on its own, as the \<open>sqlite3\<close> module documents.
\<close>

record sql_table =
  tb_columns :: "string list"
  tb_stage_check :: bool
  tb_rows :: db_table

record dbfile =
  fl_tables :: "string \<rightharpoonup> sql_table"
  fl_indexes :: "(string \<times> string) list"
  fl_version :: nat

section \<open>Statements\<close>

datatype ddl =
    CreateTable string "string list"
  | CreateIfAbsent string "string list"
  | CopyRows string string
  | DropTable string
  | RenameTable string string
  | AddColumn string string
  | CreateIndex string string string

definition fresh_table :: "string list \<Rightarrow> sql_table" where
  "fresh_table cs = \<lparr>tb_columns = cs, tb_stage_check = False, tb_rows = []\<rparr>"

fun exec_ddl :: "ddl \<Rightarrow> dbfile \<Rightarrow> dbfile option" where
  "exec_ddl (CreateTable t cs) d =
     (if fl_tables d t \<noteq> None then None else Some (d\<lparr>fl_tables := (fl_tables d)(t \<mapsto> fresh_table cs)\<rparr>))"
| "exec_ddl (CreateIfAbsent t cs) d =
     (if fl_tables d t \<noteq> None then Some d else Some (d\<lparr>fl_tables := (fl_tables d)(t \<mapsto> fresh_table cs)\<rparr>))"
| "exec_ddl (CopyRows t u) d =
     (case (fl_tables d t, fl_tables d u) of
        (Some x, Some y) \<Rightarrow> Some (d\<lparr>fl_tables := (fl_tables d)(t \<mapsto> x\<lparr>tb_rows := tb_rows x @ tb_rows y\<rparr>)\<rparr>)
      | _ \<Rightarrow> None)"
| "exec_ddl (DropTable t) d =
     (if fl_tables d t = None then None
      else Some (d\<lparr>fl_tables := (fl_tables d)(t := None),
                   fl_indexes := filter (\<lambda>i. snd i \<noteq> t) (fl_indexes d)\<rparr>))"
| "exec_ddl (RenameTable t u) d =
     (case (fl_tables d t, fl_tables d u) of
        (Some x, None) \<Rightarrow> Some (d\<lparr>fl_tables := (fl_tables d)(t := None, u \<mapsto> x),
          fl_indexes := map (\<lambda>i. if snd i = t then (fst i, u) else i) (fl_indexes d)\<rparr>)
      | _ \<Rightarrow> None)"
| "exec_ddl (AddColumn t c) d =
     (case fl_tables d t of
        None \<Rightarrow> None
      | Some x \<Rightarrow> if c \<in> set (tb_columns x) then None
          else Some (d\<lparr>fl_tables := (fl_tables d)(t \<mapsto> x\<lparr>tb_columns := tb_columns x @ [c]\<rparr>)\<rparr>))"
| "exec_ddl (CreateIndex n t c) d =
     (if n \<in> set (map fst (fl_indexes d)) then Some d
      else case fl_tables d t of
        None \<Rightarrow> None
      | Some x \<Rightarrow> if c \<in> set (tb_columns x) then Some (d\<lparr>fl_indexes := fl_indexes d @ [(n, t)]\<rparr>) else None)"

section \<open>Connections\<close>

record conn =
  cn_file :: dbfile
  cn_open :: "dbfile option"
  cn_history :: "dbfile list"

definition view :: "conn \<Rightarrow> dbfile" where
  "view c = (case cn_open c of Some d \<Rightarrow> d | None \<Rightarrow> cn_file c)"

text \<open>A change inside the transaction, or one that is durable at once.\<close>

definition update :: "dbfile \<Rightarrow> conn \<Rightarrow> conn" where
  "update d c =
     (case cn_open c of
        Some _ \<Rightarrow> c\<lparr>cn_open := Some d\<rparr>
      | None \<Rightarrow> c\<lparr>cn_file := d, cn_history := cn_history c @ [d]\<rparr>)"

definition commit :: "conn \<Rightarrow> conn" where
  "commit c = (case cn_open c of None \<Rightarrow> c
     | Some d \<Rightarrow> c\<lparr>cn_file := d, cn_open := None, cn_history := cn_history c @ [d]\<rparr>)"

definition rollback :: "conn \<Rightarrow> conn" where "rollback c = c\<lparr>cn_open := None\<rparr>"

text \<open>The flag is False when \<open>sqlite3.Error\<close> is raised.\<close>

definition begin_tx :: "conn \<Rightarrow> bool \<times> conn" where
  "begin_tx c = (case cn_open c of Some _ \<Rightarrow> (False, c) | None \<Rightarrow> (True, c\<lparr>cn_open := Some (cn_file c)\<rparr>))"

definition execute :: "ddl \<Rightarrow> conn \<Rightarrow> bool \<times> conn" where
  "execute s c = (case exec_ddl s (view c) of None \<Rightarrow> (False, c) | Some d \<Rightarrow> (True, update d c))"

fun execute_all :: "ddl list \<Rightarrow> conn \<Rightarrow> bool \<times> conn" where
  "execute_all [] c = (True, c)"
| "execute_all (s # ss) c = (case execute s c of (False, c') \<Rightarrow> (False, c') | (True, c') \<Rightarrow> execute_all ss c')"

definition executescript :: "ddl list \<Rightarrow> conn \<Rightarrow> bool \<times> conn" where
  "executescript ss c = execute_all ss (commit c)"

definition set_version :: "nat \<Rightarrow> conn \<Rightarrow> conn" where
  "set_version v c = update ((view c)\<lparr>fl_version := v\<rparr>) c"

section \<open>The migrations\<close>

definition latency_columns :: "string list" where
  "latency_columns = [''id'', ''correlation_id'', ''stage'', ''started_at_ms'', ''ended_at_ms'', ''duration_ms'',
     ''metadata_json'', ''created_at_ms'']"

definition fill_columns :: "string list" where
  "fill_columns = [''id'', ''fill_id'', ''order_id'', ''client_order_id'', ''ticker'', ''outcome_side'', ''book_side'',
     ''count_fp'', ''yes_price_dollars'', ''fee_cost'', ''is_taker'', ''exchange_index'', ''post_position_fp'',
     ''source'', ''filled_at_ms'', ''recorded_at_ms'', ''created_at_ms'']"

definition latency_indexes :: "ddl list" where
  "latency_indexes =
     [CreateIndex ''idx_latency_events_stage'' ''latency_events'' ''stage'',
      CreateIndex ''idx_latency_events_correlation_id'' ''latency_events'' ''correlation_id'',
      CreateIndex ''idx_latency_events_started_at'' ''latency_events'' ''started_at_ms'']"

definition fill_indexes :: "ddl list" where
  "fill_indexes =
     [CreateIndex ''idx_fills_order_id'' ''fills'' ''order_id'', CreateIndex ''idx_fills_ticker'' ''fills'' ''ticker'',
      CreateIndex ''idx_fills_source'' ''fills'' ''source'']"

definition drop_latency_stage_check :: "conn \<Rightarrow> bool \<times> conn" where
  "drop_latency_stage_check = executescript
     ([CreateTable ''latency_events_new'' latency_columns, CopyRows ''latency_events_new'' ''latency_events'',
       DropTable ''latency_events'', RenameTable ''latency_events_new'' ''latency_events''] @ latency_indexes)"

definition order_fill_columns :: "string list" where
  "order_fill_columns = [''fill_count'', ''remaining_count'', ''average_fill_price'', ''average_fee_paid'']"

definition add_order_fill_columns :: "conn \<Rightarrow> bool \<times> conn" where
  "add_order_fill_columns = executescript (map (AddColumn ''orders_fired'') order_fill_columns)"

definition add_order_correlation_group_column :: "conn \<Rightarrow> bool \<times> conn" where
  "add_order_correlation_group_column = execute (AddColumn ''orders_fired'' ''correlation_group'')"

definition add_account_snapshot_net_pnl_column :: "conn \<Rightarrow> bool \<times> conn" where
  "add_account_snapshot_net_pnl_column c =
     (if fl_tables (view c) ''account_snapshots'' = None then (True, c)
      else execute (AddColumn ''account_snapshots'' ''total_net_realized_pnl_dollars'') c)"

definition add_order_post_only_column :: "conn \<Rightarrow> bool \<times> conn" where
  "add_order_post_only_column = execute (AddColumn ''orders_fired'' ''post_only'')"

definition create_fills_table :: "conn \<Rightarrow> bool \<times> conn" where
  "create_fills_table = execute_all (CreateIfAbsent ''fills'' fill_columns # fill_indexes)"

definition migrations :: "(conn \<Rightarrow> bool \<times> conn) list" where
  "migrations =
     [drop_latency_stage_check, add_order_fill_columns, add_order_correlation_group_column,
      add_account_snapshot_net_pnl_column, add_order_post_only_column, create_fills_table]"

definition current_schema :: nat where "current_schema = length migrations"

fun run_pending :: "(conn \<Rightarrow> bool \<times> conn) list \<Rightarrow> nat \<Rightarrow> conn \<Rightarrow> bool \<times> conn" where
  "run_pending [] version c = (True, c)"
| "run_pending (m # ms) version c =
     (case begin_tx c of
        (False, c1) \<Rightarrow> (False, c1)
      | (True, c1) \<Rightarrow>
          (case m c1 of
             (False, c2) \<Rightarrow> (False, rollback c2)
           | (True, c2) \<Rightarrow> run_pending ms (version + 1) (commit (set_version (version + 1) c2))))"

text \<open>\<open>apply_migrations\<close>: the number applied, or an error; foreign keys are back on in either case.\<close>

definition apply_migrations :: "conn \<Rightarrow> nat option \<times> conn" where
  "apply_migrations c =
     (let current = fl_version (view c)
      in if current_schema \<le> current then (Some 0, c)
         else (case run_pending (drop current migrations) current c of
                 (True, c') \<Rightarrow> (Some (current_schema - current), c')
               | (False, c') \<Rightarrow> (None, c')))"

definition stamp_current_version :: "conn \<Rightarrow> conn" where
  "stamp_current_version c = set_version current_schema c"

section \<open>Opening a database\<close>

text \<open>\<open>schema.sql\<close>: tables with their columns, and indexes by table and leading column.\<close>

definition with_id :: "string list \<Rightarrow> string list" where
  "with_id cs = ''id'' # cs @ [''created_at_ms'']"

definition schema_script :: "ddl list" where
  "schema_script =
     [CreateIfAbsent ''correlations'' [''correlation_id'', ''created_at_ms''],
      CreateIfAbsent ''orders_fired'' (with_id (columns_of ''orders_fired'')),
      CreateIndex ''idx_orders_fired_ticker'' ''orders_fired'' ''ticker'',
      CreateIndex ''idx_orders_fired_status'' ''orders_fired'' ''status'',
      CreateIndex ''idx_orders_fired_requested_at'' ''orders_fired'' ''requested_at_ms'',
      CreateIndex ''idx_orders_fired_correlation_id'' ''orders_fired'' ''correlation_id'',
      CreateIfAbsent ''market_snapshots'' (with_id (columns_of ''market_snapshots'')),
      CreateIndex ''idx_market_snapshots_ticker'' ''market_snapshots'' ''ticker'',
      CreateIndex ''idx_market_snapshots_observed_at'' ''market_snapshots'' ''observed_at_ms'',
      CreateIndex ''idx_market_snapshots_ticker_observed_at'' ''market_snapshots'' ''ticker'',
      CreateIfAbsent ''latency_events'' latency_columns] @ latency_indexes @
     [CreateIfAbsent ''index_observations'' (with_id (columns_of ''index_observations'')),
      CreateIndex ''idx_index_observations_asset'' ''index_observations'' ''asset'',
      CreateIndex ''idx_index_observations_observed_at'' ''index_observations'' ''observed_at_ms'',
      CreateIndex ''idx_index_observations_asset_observed_at'' ''index_observations'' ''asset'',
      CreateIfAbsent ''decision_results'' (with_id (columns_of ''decision_results'')),
      CreateIndex ''idx_decision_results_ticker'' ''decision_results'' ''market_ticker'',
      CreateIndex ''idx_decision_results_asset'' ''decision_results'' ''asset'',
      CreateIndex ''idx_decision_results_should_fire'' ''decision_results'' ''should_fire'',
      CreateIndex ''idx_decision_results_ts'' ''decision_results'' ''ts_ms'',
      CreateIfAbsent ''heartbeats'' (columns_of ''heartbeats''),
      CreateIfAbsent ''account_snapshots'' (with_id (columns_of ''account_snapshots'')),
      CreateIndex ''idx_account_snapshots_snapshot_at'' ''account_snapshots'' ''snapshot_at_ms'',
      CreateIfAbsent ''fills'' fill_columns] @ fill_indexes"

definition has_tables :: "conn \<Rightarrow> bool" where
  "has_tables c \<longleftrightarrow> fl_tables (view c) ''latency_events'' \<noteq> None"

definition connect :: "dbfile \<Rightarrow> conn" where
  "connect d = \<lparr>cn_file = d, cn_open = None, cn_history = [d]\<rparr>"

text \<open>The database part of \<open>initialize\<close>; False when it raises.\<close>

definition initialize_db :: "dbfile \<Rightarrow> bool \<times> conn" where
  "initialize_db d =
     (let c = connect d
      in if has_tables c then
           (case apply_migrations c of
              (None, c1) \<Rightarrow> (False, c1)
            | (Some _, c1) \<Rightarrow> (case executescript schema_script c1 of (b, c2) \<Rightarrow> (b, if b then commit c2 else c2)))
         else (case executescript schema_script c of
                 (False, c1) \<Rightarrow> (False, c1)
               | (True, c1) \<Rightarrow> (True, commit (stamp_current_version c1))))"

section \<open>Scripts on the file\<close>

fun exec_ddls :: "ddl list \<Rightarrow> dbfile \<Rightarrow> dbfile option" where
  "exec_ddls [] d = Some d"
| "exec_ddls (s # ss) d = (case exec_ddl s d of None \<Rightarrow> None | Some d' \<Rightarrow> exec_ddls ss d')"

lemma exec_ddls_append: "exec_ddls (xs @ ys) d = (case exec_ddls xs d of None \<Rightarrow> None | Some d' \<Rightarrow> exec_ddls ys d')"
  by (induction xs arbitrary: d) (auto split: option.split)

lemma view_simps [simp]:
  "view (update d c) = d" "view (commit c) = view c" "cn_open (commit c) = None" "cn_file (commit c) = view c"
  "view (set_version v c) = (view c)\<lparr>fl_version := v\<rparr>" "view (connect d) = d"
  by (simp_all add: view_def update_def commit_def set_version_def connect_def split: option.split)

lemma execute_True: "execute s c = (True, c') \<Longrightarrow> exec_ddl s (view c) = Some (view c')"
  by (auto simp: execute_def split: option.splits)

lemma execute_all_True: "execute_all ss c = (True, c') \<Longrightarrow> exec_ddls ss (view c) = Some (view c')"
proof (induction ss arbitrary: c)
  case (Cons s ss)
  obtain b c1 where c1: "execute s c = (b, c1)" by fastforce
  then have "b" "execute_all ss c1 = (True, c')" using Cons.prems by (auto split: bool.splits)
  then show ?case using Cons.IH c1 execute_True [of s c c1] by simp
qed simp

lemma executescript_True: "executescript ss c = (True, c') \<Longrightarrow> exec_ddls ss (view c) = Some (view c')"
  using execute_all_True [of ss "commit c" c'] by (simp add: executescript_def)

section \<open>No row is lost\<close>

definition rows_of :: "dbfile \<Rightarrow> string \<Rightarrow> db_table option" where
  "rows_of d t = map_option tb_rows (fl_tables d t)"

definition keeps_rows :: "dbfile \<Rightarrow> dbfile \<Rightarrow> bool" where
  "keeps_rows d d' \<longleftrightarrow> (\<forall>t rows. rows_of d t = Some rows \<longrightarrow> rows_of d' t = Some rows)"

lemma keeps_rows_refl [simp]: "keeps_rows d d"
  by (simp add: keeps_rows_def)

lemma keeps_rows_trans [trans]: "keeps_rows d d' \<Longrightarrow> keeps_rows d' d'' \<Longrightarrow> keeps_rows d d''"
  by (simp add: keeps_rows_def)

lemma keeps_rows_version [simp]: "keeps_rows d (d'\<lparr>fl_version := v\<rparr>) \<longleftrightarrow> keeps_rows d d'"
  by (simp add: keeps_rows_def rows_of_def)

text \<open>The statements that add.\<close>

fun adds :: "ddl \<Rightarrow> bool" where
  "adds (CreateIfAbsent t cs) = True"
| "adds (AddColumn t c) = True"
| "adds (CreateIndex n t c) = True"
| "adds _ = False"

lemma adds_keeps: "adds s \<Longrightarrow> exec_ddl s d = Some d' \<Longrightarrow> keeps_rows d d'"
  by (cases s) (auto simp: keeps_rows_def rows_of_def split: if_splits option.splits)

lemma adds_keeps_all: "list_all adds ss \<Longrightarrow> exec_ddls ss d = Some d' \<Longrightarrow> keeps_rows d d'"
proof (induction ss arbitrary: d)
  case (Cons s ss)
  then show ?case using adds_keeps [of s d] keeps_rows_trans by (fastforce split: option.splits)
qed simp

lemma add_column_keeps: "execute (AddColumn t col) c = (True, c') \<Longrightarrow> keeps_rows (view c) (view c')"
  by (rule adds_keeps [OF _ execute_True]) simp_all

lemma rebuild_names: "''latency_events_new'' \<noteq> ''latency_events''" "''latency_events'' \<noteq> ''latency_events_new''"
  by simp_all

lemma rebuild_keeps:
  assumes "exec_ddls [CreateTable ''latency_events_new'' cs, CopyRows ''latency_events_new'' ''latency_events'',
       DropTable ''latency_events'', RenameTable ''latency_events_new'' ''latency_events''] d = Some d'"
  shows "keeps_rows d d'"
proof -
  define new old where "new = ''latency_events_new''" and "old = ''latency_events''"
  have n: "new \<noteq> old" "old \<noteq> new" by (simp_all add: new_def old_def rebuild_names)
  have "exec_ddls [CreateTable new cs, CopyRows new old, DropTable old, RenameTable new old] d = Some d'"
    using assms by (simp only: new_def old_def)
  then show ?thesis
    using n by (auto simp: keeps_rows_def rows_of_def fresh_table_def split: if_splits option.splits)
qed

lemma migration_keeps:
  assumes "m \<in> set migrations" "m c = (True, c')"
  shows "keeps_rows (view c) (view c')"
proof -
  have latency: "list_all adds latency_indexes" and fills: "list_all adds (CreateIfAbsent ''fills'' fill_columns # fill_indexes)"
    by (simp_all add: latency_indexes_def fill_indexes_def)
  from assms(1) consider "m = drop_latency_stage_check" | "m = add_order_fill_columns"
    | "m = add_order_correlation_group_column" | "m = add_account_snapshot_net_pnl_column"
    | "m = add_order_post_only_column" | "m = create_fills_table"
    by (auto simp: migrations_def)
  then show ?thesis
  proof cases
    case 1
    obtain d where d: "exec_ddls [CreateTable ''latency_events_new'' latency_columns, CopyRows ''latency_events_new'' ''latency_events'',
        DropTable ''latency_events'', RenameTable ''latency_events_new'' ''latency_events''] (view c) = Some d"
        "exec_ddls latency_indexes d = Some (view c')"
      using assms(2) unfolding 1 drop_latency_stage_check_def
      by (auto dest!: executescript_True simp only: exec_ddls_append split: option.splits)
    show ?thesis using rebuild_keeps [OF d(1)] adds_keeps_all [OF latency d(2)] by (rule keeps_rows_trans)
  next
    case 2
    have "list_all adds (map (AddColumn ''orders_fired'') order_fill_columns)" by (simp add: list_all_iff)
    then show ?thesis using assms(2) 2 adds_keeps_all executescript_True by (metis add_order_fill_columns_def)
  next
    case 3
    then show ?thesis using assms(2) add_column_keeps by (metis add_order_correlation_group_column_def)
  next
    case 4
    then show ?thesis using assms(2) add_column_keeps
      by (metis add_account_snapshot_net_pnl_column_def keeps_rows_refl prod.inject)
  next
    case 5
    then show ?thesis using assms(2) add_column_keeps by (metis add_order_post_only_column_def)
  next
    case 6
    then show ?thesis using assms(2) execute_all_True adds_keeps_all [OF fills] by (metis create_fills_table_def)
  qed
qed

lemma begin_tx_True: "begin_tx c = (True, c1) \<Longrightarrow> view c1 = view c"
  by (auto simp: begin_tx_def view_def split: option.splits)

lemma run_pending_True:
  assumes "run_pending ms v c = (True, c')" "set ms \<subseteq> set migrations"
  shows "keeps_rows (view c) (view c') \<and> (ms \<noteq> [] \<longrightarrow> fl_version (view c') = v + length ms) \<and> (ms = [] \<longrightarrow> c' = c)"
  using assms
proof (induction ms arbitrary: v c)
  case (Cons m ms)
  obtain c1 c2 where c: "begin_tx c = (True, c1)" "m c1 = (True, c2)"
      "run_pending ms (v + 1) (commit (set_version (v + 1) c2)) = (True, c')"
    using Cons.prems(1) by (auto split: prod.splits bool.splits)
  have "keeps_rows (view c) (view c2)"
    using begin_tx_True [OF c(1)] migration_keeps [of m c1 c2] c(2) Cons.prems(2) by simp
  moreover have IH: "keeps_rows (view (commit (set_version (v + 1) c2))) (view c') \<and>
      (ms \<noteq> [] \<longrightarrow> fl_version (view c') = v + 1 + length ms) \<and> (ms = [] \<longrightarrow> c' = commit (set_version (v + 1) c2))"
    using Cons.prems(2) by (intro Cons.IH [OF c(3)]) simp
  moreover have "keeps_rows (view c2) (view (commit (set_version (v + 1) c2)))" by simp
  ultimately have "keeps_rows (view c) (view c')" using keeps_rows_trans by blast
  then show ?case using IH by (cases "ms = []") simp_all
qed simp

lemma apply_migrations_Some:
  assumes "apply_migrations c = (Some n, c')"
  shows "keeps_rows (view c) (view c') \<and> current_schema \<le> fl_version (view c') \<and> n = current_schema - fl_version (view c)"
proof (cases "current_schema \<le> fl_version (view c)")
  case True
  then show ?thesis using assms by (simp add: apply_migrations_def)
next
  case False
  let ?v = "fl_version (view c)"
  have run: "run_pending (drop ?v migrations) ?v c = (True, c')" "n = current_schema - ?v"
    using assms False by (auto simp: apply_migrations_def Let_def split: prod.splits bool.splits)
  have "drop ?v migrations \<noteq> []" "?v + length (drop ?v migrations) = current_schema"
    using False by (simp_all add: current_schema_def)
  then show ?thesis using run_pending_True [OF run(1)] run(2) set_drop_subset [of ?v migrations] by simp
qed

section \<open>Opening twice\<close>

text \<open>What a statement of the schema script leaves in place, so that running it again changes nothing.\<close>

fun in_place :: "ddl \<Rightarrow> dbfile \<Rightarrow> bool" where
  "in_place (CreateIfAbsent t cs) d = (fl_tables d t \<noteq> None)"
| "in_place (CreateIndex n t c) d = (n \<in> set (map fst (fl_indexes d)))"
| "in_place _ d = False"

fun if_absent :: "ddl \<Rightarrow> bool" where
  "if_absent (CreateIfAbsent t cs) = True"
| "if_absent (CreateIndex n t c) = True"
| "if_absent _ = False"

lemma in_place_exec: "in_place s d \<Longrightarrow> exec_ddl s d = Some d"
  by (cases s) simp_all

lemma if_absent_step:
  assumes "if_absent s" "exec_ddl s d = Some d'"
  shows "in_place s d' \<and> (\<forall>u. in_place u d \<longrightarrow> in_place u d') \<and> fl_version d' = fl_version d"
proof (intro conjI allI impI)
  show "in_place s d'" "fl_version d' = fl_version d"
    using assms by (cases s; auto split: if_splits option.splits)+
  show "in_place u d'" if "in_place u d" for u
    using assms that by (cases s; cases u) (auto split: if_splits option.splits)
qed

lemma if_absent_script:
  "list_all if_absent ss \<Longrightarrow> exec_ddls ss d = Some d' \<Longrightarrow>
   list_all (\<lambda>s. in_place s d') ss \<and> (\<forall>u. in_place u d \<longrightarrow> in_place u d') \<and> fl_version d' = fl_version d"
proof (induction ss arbitrary: d)
  case (Cons s ss)
  then obtain d1 where d1: "exec_ddl s d = Some d1" "exec_ddls ss d1 = Some d'" by (auto split: option.splits)
  then show ?case using Cons.IH [OF _ d1(2)] if_absent_step [of s d d1] Cons.prems(1) by auto
qed simp

lemma in_place_script: "list_all (\<lambda>s. in_place s d) ss \<Longrightarrow> exec_ddls ss d = Some d"
  by (induction ss) (simp_all add: in_place_exec)

lemma execute_all_total:
  "exec_ddls ss (view c) = Some d \<Longrightarrow> \<exists>c'. execute_all ss c = (True, c') \<and> view c' = d"
proof (induction ss arbitrary: c)
  case (Cons s ss)
  then obtain d1 where d1: "exec_ddl s (view c) = Some d1" "exec_ddls ss d1 = Some d" by (auto split: option.splits)
  then have "execute s c = (True, update d1 c)" by (simp add: execute_def)
  then show ?case using Cons.IH [of "update d1 c"] d1 by simp
qed simp

lemma schema_if_absent: "list_all if_absent schema_script" "list_all adds schema_script"
  by (simp_all add: schema_script_def latency_indexes_def fill_indexes_def)

lemma schema_latency: "CreateIfAbsent ''latency_events'' latency_columns \<in> set schema_script"
  unfolding schema_script_def set_append list.set by (rule UnI1) (simp only: insert_iff simp_thms)

lemma script_True: "executescript schema_script c = (True, c') \<Longrightarrow>
   keeps_rows (view c) (view c') \<and> list_all (\<lambda>s. in_place s (view c')) schema_script \<and> fl_version (view c') = fl_version (view c)"
  using adds_keeps_all [OF schema_if_absent(2)] if_absent_script [OF schema_if_absent(1)] by (auto dest!: executescript_True)

lemma initialize_True:
  assumes "initialize_db d = (True, c)"
  shows "cn_open c = None \<and> keeps_rows d (cn_file c) \<and> current_schema \<le> fl_version (cn_file c) \<and>
    list_all (\<lambda>s. in_place s (cn_file c)) schema_script"
proof (cases "has_tables (connect d)")
  case True
  obtain n c1 c2 where c: "apply_migrations (connect d) = (Some n, c1)" "executescript schema_script c1 = (True, c2)" "c = commit c2"
    using assms True by (auto simp: initialize_db_def Let_def split: prod.splits option.splits if_splits)
  show ?thesis
    using apply_migrations_Some [OF c(1)] script_True [OF c(2)] keeps_rows_trans unfolding c(3) by auto
next
  case False
  obtain c1 where c: "executescript schema_script (connect d) = (True, c1)" "c = commit (stamp_current_version c1)"
    using assms False by (auto simp: initialize_db_def Let_def split: prod.splits bool.splits)
  have "in_place s (d'\<lparr>fl_version := v\<rparr>) = in_place s d'" for s d' v by (cases s) simp_all
  then show ?thesis using script_True [OF c(1)] unfolding c(2) by (simp add: stamp_current_version_def)
qed

lemma commit_view: "cn_open c = None \<Longrightarrow> commit c = c \<and> view c = cn_file c"
  by (simp add: commit_def view_def)

lemma initialize_again:
  assumes "current_schema \<le> fl_version d" "list_all (\<lambda>s. in_place s d) schema_script"
  shows "\<exists>c. initialize_db d = (True, c) \<and> cn_file c = d"
proof -
  have "in_place (CreateIfAbsent ''latency_events'' latency_columns) d"
    using assms(2) schema_latency by (simp only: list_all_iff)
  then have "has_tables (connect d)" by (simp add: has_tables_def)
  moreover have "apply_migrations (connect d) = (Some 0, connect d)" using assms(1) by (simp add: apply_migrations_def)
  moreover obtain c where "execute_all schema_script (connect d) = (True, c)" "view c = d"
    using execute_all_total [of schema_script "connect d" d] in_place_script [OF assms(2)] by auto
  moreover have "commit (connect d) = connect d" by (simp add: commit_def connect_def)
  ultimately show ?thesis by (simp add: initialize_db_def Let_def executescript_def)
qed

text \<open>C17. Opening a telemetry file that succeeds, by migrating an old file or creating a fresh one,
  leaves every row of every table it had, brings it to the current schema version with no
  transaction open, and opening it again changes nothing.\<close>
theorem opening_loses_no_row:
  assumes "initialize_db d = (True, c)"
  shows "(\<forall>t rows. rows_of d t = Some rows \<longrightarrow> rows_of (cn_file c) t = Some rows) \<and>
    current_schema \<le> fl_version (cn_file c) \<and> cn_open c = None \<and>
    (\<exists>c'. initialize_db (cn_file c) = (True, c') \<and> cn_file c' = cn_file c)"
  using initialize_True [OF assms] initialize_again [of "cn_file c"] by (simp add: keeps_rows_def)

section \<open>An interrupted migration\<close>

text \<open>The table a rebuild starts with is already there: the rebuild fails at its first statement, for ever.\<close>

lemma rebuild_stuck:
  assumes "fl_tables (view c) ''latency_events_new'' \<noteq> None"
  shows "drop_latency_stage_check c = (False, commit c)"
  using assms by (simp add: drop_latency_stage_check_def executescript_def execute_def)

lemma migrations_from_0: "drop 0 migrations = drop_latency_stage_check # tl migrations"
  by (simp add: migrations_def)

lemma interrupted_rebuild_fails:
  assumes "fl_version d = 0" "fl_tables d ''latency_events'' \<noteq> None" "fl_tables d ''latency_events_new'' \<noteq> None"
  shows "\<exists>c. initialize_db d = (False, c) \<and> cn_file c = d"
proof -
  let ?c = "connect d"
  have b: "begin_tx ?c = (True, ?c\<lparr>cn_open := Some d\<rparr>)" by (simp add: begin_tx_def connect_def)
  have v: "view (?c\<lparr>cn_open := Some d\<rparr>) = d" by (simp add: view_def)
  have m: "drop_latency_stage_check (?c\<lparr>cn_open := Some d\<rparr>) = (False, commit (?c\<lparr>cn_open := Some d\<rparr>))"
    by (rule rebuild_stuck) (simp only: v assms not_False_eq_True)
  have "run_pending (drop 0 migrations) 0 ?c = (False, rollback (commit (?c\<lparr>cn_open := Some d\<rparr>)))"
    unfolding migrations_from_0 by (simp add: b m)
  then have "apply_migrations ?c = (None, rollback (commit (?c\<lparr>cn_open := Some d\<rparr>)))"
    using assms(1) by (simp add: apply_migrations_def Let_def current_schema_def migrations_def)
  then show ?thesis
    using assms(2) v by (simp add: initialize_db_def Let_def has_tables_def rollback_def)
qed

text \<open>The durable states of a connection only grow in number.\<close>

definition grows :: "conn \<Rightarrow> conn \<Rightarrow> bool" where
  "grows c c' \<longleftrightarrow> set (cn_history c) \<subseteq> set (cn_history c')"

lemma grows_simps [simp]: "grows c c" "grows c (update d c)" "grows c (commit c)" "grows c (rollback c)" "grows c (set_version v c)"
    "grows c (snd (begin_tx c))" "grows c (snd (execute s c))"
  by (auto simp: grows_def update_def commit_def rollback_def set_version_def begin_tx_def execute_def split: option.split)

lemma grows_trans: "grows c c' \<Longrightarrow> grows c' c'' \<Longrightarrow> grows c c''"
  by (auto simp: grows_def)

lemma execute_all_grows: "grows c (snd (execute_all ss c))"
proof (induction ss arbitrary: c)
  case (Cons s ss)
  then show ?case using grows_trans [OF grows_simps(7) [of c s]] by (auto split: prod.split bool.split)
qed simp

lemma executescript_grows: "grows c (snd (executescript ss c))"
  unfolding executescript_def by (rule grows_trans [OF grows_simps(3) execute_all_grows])

lemma migration_grows: "m \<in> set migrations \<Longrightarrow> grows c (snd (m c))"
  by (auto simp: migrations_def drop_latency_stage_check_def add_order_fill_columns_def add_order_correlation_group_column_def
      add_account_snapshot_net_pnl_column_def add_order_post_only_column_def create_fills_table_def
      executescript_grows execute_all_grows simp del: execute_all.simps)

lemma run_pending_grows: "set ms \<subseteq> set migrations \<Longrightarrow> grows c (snd (run_pending ms v c))"
proof (induction ms arbitrary: v c)
  case (Cons m ms)
  obtain b c1 where c1: "begin_tx c = (b, c1)" by fastforce
  obtain b' c2 where c2: "m c1 = (b', c2)" by fastforce
  have g: "grows c c1" "grows c1 c2" using grows_simps(6) [of c] migration_grows [of m c1] c1 c2 Cons.prems by simp_all
  have "grows c2 (commit (set_version (v + 1) c2))" using grows_trans [OF grows_simps(5) grows_simps(3)] .
  moreover have "grows (commit (set_version (v + 1) c2)) (snd (run_pending ms (v + 1) (commit (set_version (v + 1) c2))))"
    using Cons by simp
  moreover have "grows c2 (rollback c2)" by simp
  ultimately have "grows c (snd (run_pending ms (v + 1) (commit (set_version (v + 1) c2))))" "grows c (rollback c2)"
    using g grows_trans by blast+
  then show ?case using g c1 c2 by (simp split: bool.split)
qed simp

lemma initialize_grows:
  assumes "has_tables (connect d)"
  shows "grows (snd (apply_migrations (connect d))) (snd (initialize_db d))"
proof -
  obtain r c1 where a: "apply_migrations (connect d) = (r, c1)" by fastforce
  obtain b c2 where s: "executescript schema_script c1 = (b, c2)" by fastforce
  have "grows c1 c2" using executescript_grows [of c1 schema_script] s by simp
  then have "grows c1 (commit c2)" using grows_trans grows_simps(3) by blast
  then show ?thesis using a s \<open>grows c1 c2\<close> assms by (simp add: initialize_db_def Let_def split: option.split)
qed

text \<open>C23. While a file of the first version is opened it passes through a durable state from which,
  after a crash, no later opening succeeds: the rebuild fails at its first statement, rolls back
  and leaves the file as it was.\<close>
theorem interrupted_rebuild_is_stuck:
  assumes "fl_version d = 0" "fl_tables d ''latency_events'' \<noteq> None" "fl_tables d ''latency_events_new'' = None"
  shows "\<exists>f \<in> set (cn_history (snd (initialize_db d))). \<exists>c. initialize_db f = (False, c) \<and> cn_file c = f"
proof -
  define f where "f = d\<lparr>fl_tables := (fl_tables d)(''latency_events_new'' \<mapsto> fresh_table latency_columns)\<rparr>"
  let ?c = "connect d" and ?c1 = "connect d\<lparr>cn_open := Some d\<rparr>"
  have b: "begin_tx ?c = (True, ?c1)" by (simp add: begin_tx_def connect_def)
  have "view (commit ?c1) = d" by (simp add: view_def)
  then have e: "execute (CreateTable ''latency_events_new'' latency_columns) (commit ?c1) = (True, update f (commit ?c1))"
    using assms(3) by (simp add: execute_def f_def)
  have f: "f \<in> set (cn_history (update f (commit ?c1)))" by (simp add: update_def)
  have "\<exists>rest. drop_latency_stage_check ?c1 = execute_all rest (update f (commit ?c1))"
    unfolding drop_latency_stage_check_def executescript_def append.simps execute_all.simps(2) [of "CreateTable _ _"] e
    by (simp only: prod.case bool.case) (rule exI, rule refl)
  then obtain rest where drop: "drop_latency_stage_check ?c1 = execute_all rest (update f (commit ?c1))" by blast
  have "f \<in> set (cn_history (snd (drop_latency_stage_check ?c1)))"
    unfolding drop by (rule subsetD [OF execute_all_grows [unfolded grows_def] f])
  moreover have "grows (snd (drop_latency_stage_check ?c1)) (snd (run_pending (drop 0 migrations) 0 ?c))"
  proof -
    obtain b2 c2 where m: "drop_latency_stage_check ?c1 = (b2, c2)" by fastforce
    have "grows (commit (set_version 1 c2)) (snd (run_pending (tl migrations) 1 (commit (set_version 1 c2))))"
      by (rule run_pending_grows) (simp add: migrations_def)
    then have "grows c2 (snd (run_pending (tl migrations) 1 (commit (set_version 1 c2))))"
      using grows_trans [OF grows_trans [OF grows_simps(5) grows_simps(3)]] by blast
    then show ?thesis unfolding migrations_from_0 using b m by (simp split: bool.split)
  qed
  moreover have "snd (apply_migrations ?c) = snd (run_pending (drop 0 migrations) 0 ?c)"
    using assms(1) by (simp add: apply_migrations_def Let_def current_schema_def migrations_def split: prod.split bool.split)
  moreover have "has_tables ?c" using assms(2) by (simp add: has_tables_def)
  ultimately have "f \<in> set (cn_history (snd (initialize_db d)))"
    using initialize_grows [of d] by (auto simp: grows_def)
  moreover have "\<exists>c. initialize_db f = (False, c) \<and> cn_file c = f"
    by (rule interrupted_rebuild_fails) (simp_all add: f_def assms rebuild_names)
  ultimately show ?thesis by blast
qed

definition sample_file :: dbfile where
  "sample_file = \<lparr>fl_tables = [''latency_events'' \<mapsto> fresh_table latency_columns], fl_indexes = [], fl_version = 0\<rparr>"

theorem interrupted_rebuild_is_stuck_witness:
  "\<exists>f \<in> set (cn_history (snd (initialize_db sample_file))). \<exists>c. initialize_db f = (False, c) \<and> cn_file c = f"
  by (rule interrupted_rebuild_is_stuck) (simp_all add: sample_file_def)

definition empty_file :: dbfile where
  "empty_file = \<lparr>fl_tables = Map.empty, fl_indexes = [], fl_version = 0\<rparr>"

lemma fresh_opens: "fst (initialize_db empty_file)"
  by code_simp

theorem opening_loses_no_row_witness:
  "\<exists>c c'. initialize_db empty_file = (True, c) \<and> initialize_db (cn_file c) = (True, c') \<and> cn_file c' = cn_file c"
proof -
  obtain c where "initialize_db empty_file = (True, c)" using fresh_opens by (metis prod.collapse)
  then show ?thesis using opening_loses_no_row by blast
qed

end
