(* ===== verification/Signer.thy ===== *)
theory Signer
  imports Rest_Client Python_Text
begin

text \<open>
  auth/signer.py: the message a request signs, and its transport as base64.

  Loading a PEM file and the RSA-PSS signature are arguments of the model: a private key is the
  function that signs bytes, with the random salt of that call already drawn.
\<close>

section \<open>Bytes and base64\<close>

text \<open>UTF-8 of the 256 characters of the model's text.\<close>

definition byte_of :: "nat \<Rightarrow> byte" where "byte_of n = of_nat n"

definition utf8_char :: "char \<Rightarrow> bytes" where
  "utf8_char c = (if code c < 128 then [byte_of (code c)] else [byte_of (192 + code c div 64), byte_of (128 + code c mod 64)])"

definition utf8 :: "string \<Rightarrow> bytes" where "utf8 s = concat (map utf8_char s)"

definition b64_char :: "nat \<Rightarrow> char" where
  "b64_char n =
     (if n < 26 then char_of (65 + n) else if n < 52 then char_of (71 + n) else if n < 62 then char_of (n - 4)
      else if n = 62 then CHR ''+'' else CHR ''/'')"

definition quad :: "nat \<Rightarrow> string" where
  "quad n = map b64_char [n div 262144, n div 4096 mod 64, n div 64 mod 64, n mod 64]"

fun b64encode :: "bytes \<Rightarrow> string" where
  "b64encode [] = []"
| "b64encode [a] = take 2 (quad (unat a * 65536)) @ ''==''"
| "b64encode [a, b] = take 3 (quad (unat a * 65536 + unat b * 256)) @ ''=''"
| "b64encode (a # b # c # bs) = quad (unat a * 65536 + unat b * 256 + unat c) @ b64encode bs"

section \<open>The signer\<close>

datatype private_key = RSA_Key "bytes \<Rightarrow> bytes" | Other_Key

definition new_signer :: "(bytes \<Rightarrow> exc + private_key) \<Rightarrow> bytes \<Rightarrow> exc + (bytes \<Rightarrow> bytes)" where
  "new_signer load_pem content =
     (case load_pem content of Inl e \<Rightarrow> Inl e | Inr (RSA_Key f) \<Rightarrow> Inr f | Inr Other_Key \<Rightarrow> Inl TypeError)"

definition ws_auth_method :: string where "ws_auth_method = ''GET''"
definition ws_auth_path :: string where "ws_auth_path = ''/trade-api/ws/v2''"

definition signed_message :: "string \<Rightarrow> string \<Rightarrow> string \<Rightarrow> string" where
  "signed_message timestamp http_method path = timestamp @ http_method @ path"

definition sign_message :: "(bytes \<Rightarrow> bytes) \<Rightarrow> string \<Rightarrow> string" where
  "sign_message rsa message = b64encode (rsa (utf8 message))"

definition sign :: "(bytes \<Rightarrow> bytes) \<Rightarrow> string \<Rightarrow> string \<Rightarrow> string \<Rightarrow> string" where
  "sign rsa timestamp http_method path = sign_message rsa (signed_message timestamp http_method path)"

definition sign_websocket_auth :: "(bytes \<Rightarrow> bytes) \<Rightarrow> string \<Rightarrow> string" where
  "sign_websocket_auth rsa timestamp = sign_message rsa (signed_message timestamp ws_auth_method ws_auth_path)"

section \<open>The encodings lose nothing\<close>

lemma b64_char_inj: "m < 64 \<Longrightarrow> n < 64 \<Longrightarrow> b64_char m = b64_char n \<Longrightarrow> m = n"
proof -
  have "distinct (map b64_char [0..<64])" by code_simp
  then have "inj_on b64_char {0..<64}" by (simp add: distinct_map)
  then show "m < 64 \<Longrightarrow> n < 64 \<Longrightarrow> b64_char m = b64_char n \<Longrightarrow> m = n" by (simp add: inj_on_def)
qed

lemma b64_char_no_pad: "n < 64 \<Longrightarrow> b64_char n \<noteq> CHR ''=''"
proof -
  have "list_all (\<lambda>n. b64_char n \<noteq> CHR ''='') [0..<64]" by code_simp
  then show "n < 64 \<Longrightarrow> ?thesis" by (simp add: list_all_iff)
qed

lemma quad_eq:
  assumes "m < 16777216" "n < 16777216"
  shows "quad m = quad n \<longleftrightarrow> m = n"
proof
  assume "quad m = quad n"
  then have e: "m div 262144 = n div 262144" "m div 4096 mod 64 = n div 4096 mod 64" "m div 64 mod 64 = n div 64 mod 64" "m mod 64 = n mod 64"
    using assms by (simp_all add: quad_def b64_char_inj less_mult_imp_div_less)
  have d: "k div 4096 = k div 64 div 64" "k div 262144 = k div 64 div 64 div 64" for k :: nat
    by (simp_all add: div_mult2_eq [symmetric])
  have "m div 64 div 64 = n div 64 div 64"
    using e(1,2) unfolding d by (metis div_mult_mod_eq)
  then have "m div 64 = n div 64" using e(3) by (metis div_mult_mod_eq)
  then show "m = n" using e(4) by (metis div_mult_mod_eq)
qed simp

lemma byte_bound: "unat (b :: byte) < 256"
  using unsigned_less [of b] by simp

lemma byte_eqI: "unat (a :: byte) = unat b \<Longrightarrow> a = b"
  by (rule word_unat_eq_iff [THEN iffD2])

lemma base_256: "(b :: nat) < 256 \<Longrightarrow> d < 256 \<Longrightarrow> a * 256 + b = c * 256 + d \<longleftrightarrow> a = c \<and> b = d"
proof
  assume bd: "b < 256" "d < 256" and "a * 256 + b = c * 256 + d"
  then have "(a * 256 + b) div 256 = (c * 256 + d) div 256" "(a * 256 + b) mod 256 = (c * 256 + d) mod 256" by simp_all
  then show "a = c \<and> b = d" using bd by simp
qed simp

lemma three_bytes:
  "unat (a :: byte) * 65536 + unat (b :: byte) * 256 + unat (c :: byte) < 16777216"
  "unat a * 65536 + unat b * 256 + unat c = unat a' * 65536 + unat (b' :: byte) * 256 + unat (c' :: byte)
    \<longleftrightarrow> a = (a' :: byte) \<and> b = b' \<and> c = c'"
proof -
  show "unat a * 65536 + unat b * 256 + unat c < 16777216"
    using byte_bound [of a] byte_bound [of b] byte_bound [of c] by linarith
  have e: "unat x * 65536 + unat y * 256 + unat z = (unat x * 256 + unat y) * 256 + unat z" for x y z :: byte by simp
  show "unat a * 65536 + unat b * 256 + unat c = unat a' * 65536 + unat b' * 256 + unat c' \<longleftrightarrow> a = a' \<and> b = b' \<and> c = c'"
    unfolding e base_256 [OF byte_bound byte_bound] by (auto intro: byte_eqI)
qed

text \<open>The padding tells how many bytes the last group holds.\<close>

lemma length_b64encode: "length (b64encode bs) = 4 * ((length bs + 2) div 3)"
proof (induction bs rule: b64encode.induct)
  case (4 a b c bs)
  have "(length (a # b # c # bs) + 2) div 3 = Suc ((length bs + 2) div 3)" by simp
  then show ?case using "4.IH" by (simp add: quad_def)
qed (simp_all add: quad_def)

lemma padding: "length (filter ((=) (CHR ''='')) (b64encode bs)) = (2 * length bs) mod 3"
proof (induction bs rule: b64encode.induct)
  case (4 a b c bs)
  have "(2 * length (a # b # c # bs)) mod 3 = (2 * length bs) mod 3" by simp presburger
  moreover have "filter ((=) (CHR ''='')) (quad (unat a * 65536 + unat b * 256 + unat c)) = []"
    using three_bytes(1) [of a b c] b64_char_no_pad [symmetric]
    by (simp add: quad_def less_mult_imp_div_less)
  ultimately show ?case using "4.IH" by simp
next
  case (2 a)
  show ?case using byte_bound [of a] b64_char_no_pad [symmetric] by (simp add: quad_def less_mult_imp_div_less)
next
  case (3 a b)
  show ?case using three_bytes(1) [of a b 0] b64_char_no_pad [symmetric] by (simp add: quad_def less_mult_imp_div_less)
qed simp

lemma thirds: "3 * ((n + 2) div 3) = n + 2 * n mod (3 :: nat)"
proof -
  define q r where "q = n div 3" and "r = n mod 3"
  have n: "n = 3 * q + r" and "r < 3" by (simp_all add: q_def r_def)
  have "(3 * q + (r + 2)) div 3 = q + (r + 2) div 3" by (rule div_mult_self4) simp
  then have d: "(n + 2) div 3 = q + (r + 2) div 3" by (simp only: n add.assoc)
  have m: "2 * n mod 3 = 2 * r mod 3" unfolding r_def by (rule mod_mult_right_eq [symmetric])
  from \<open>r < 3\<close> consider "r = 0" | "r = 1" | "r = 2" by linarith
  then show ?thesis unfolding d m by cases (simp_all add: n)
qed

lemma b64encode_length: "b64encode x = b64encode y \<Longrightarrow> length x = length y"
proof -
  assume e: "b64encode x = b64encode y"
  have "4 * ((length x + 2) div 3) = 4 * ((length y + 2) div 3)" "2 * length x mod 3 = 2 * length y mod 3"
    using arg_cong [OF e, of length] arg_cong [OF e, of "\<lambda>s. length (filter ((=) (CHR ''='')) s)"]
    unfolding length_b64encode padding .
  then show ?thesis using thirds [of "length x"] thirds [of "length y"] by linarith
qed

lemma b64encode_inj: "b64encode x = b64encode y \<Longrightarrow> x = y"
proof (induction x arbitrary: y rule: b64encode.induct)
  case 1
  then show ?case using b64encode_length [OF 1] by simp
next
  case (2 a)
  obtain b where y: "y = [b]" using b64encode_length [OF 2] by (auto simp: Suc_length_conv)
  have "quad (unat a * 65536 + unat (0 :: byte) * 256 + unat (0 :: byte)) = quad (unat b * 65536 + unat (0 :: byte) * 256 + unat (0 :: byte))"
    using 2 by (simp add: y quad_def)
  then show ?case using three_bytes y by (simp only: quad_eq)
next
  case (3 a b)
  obtain c d where y: "y = [c, d]"
    using b64encode_length [OF 3] by (auto simp: length_Suc_conv Suc_length_conv)
  have "quad (unat a * 65536 + unat b * 256 + unat (0 :: byte)) = quad (unat c * 65536 + unat d * 256 + unat (0 :: byte))"
    using 3 by (simp add: y quad_def)
  then show ?case using three_bytes y by (simp only: quad_eq)
next
  case (4 a b c bs)
  obtain a' b' c' bs' where y: "y = a' # b' # c' # bs'"
    using b64encode_length [OF "4.prems"] by (auto simp: length_Suc_conv Suc_length_conv)
  have "quad (unat a * 65536 + unat b * 256 + unat c) = quad (unat a' * 65536 + unat b' * 256 + unat c')" "b64encode bs = b64encode bs'"
    using "4.prems" by (simp_all add: y quad_def)
  then show ?case using three_bytes "4.IH" y by (simp only: quad_eq)
qed

lemma unat_byte_of [simp]: "n < 256 \<Longrightarrow> unat (byte_of n) = n"
  by (simp add: byte_of_def unat_of_nat)

lemma byte_of_eq: "m < 256 \<Longrightarrow> n < 256 \<Longrightarrow> byte_of m = byte_of n \<longleftrightarrow> m = n"
  by (metis unat_byte_of)

lemma code_less: "code c < 256"
  by (simp add: code_def)

lemma code_eqI: "code c = code d \<Longrightarrow> c = d"
  by (simp add: code_def)

lemma code_bytes: "192 + code c div 64 < 256" "128 + code c mod 64 < 256" "192 \<le> 192 + code c div 64"
proof -
  have "code c div 64 < 4" using code_less [of c] by (simp add: less_mult_imp_div_less)
  then show "192 + code c div 64 < 256" by simp
  have "code c mod 64 < 64" by simp
  then show "128 + code c mod 64 < 256" by simp
qed simp

lemma utf8_char_inj: "utf8_char c @ x = utf8_char d @ y \<Longrightarrow> c = d \<and> x = y"
proof -
  assume e: "utf8_char c @ x = utf8_char d @ y"
  have mixed: "byte_of (code a) \<noteq> byte_of (192 + code b div 64)" if "code a < 128" for a b
  proof -
    have "code a \<noteq> 192 + code b div 64" using that by simp
    then show ?thesis using byte_of_eq [OF code_less code_bytes(1), of a b] by simp
  qed
  show ?thesis
  proof (cases "code c < 128"; cases "code d < 128")
    assume "code c < 128" "code d < 128"
    then show ?thesis using e code_eqI [of c d] byte_of_eq [OF code_less code_less, of c d] by (simp add: utf8_char_def)
  next
    assume h: "\<not> code c < 128" "\<not> code d < 128"
    then have "byte_of (192 + code c div 64) = byte_of (192 + code d div 64)" "byte_of (128 + code c mod 64) = byte_of (128 + code d mod 64)"
      and xy: "x = y"
      using e by (simp_all add: utf8_char_def)
    then have "code c div 64 = code d div 64" "code c mod 64 = code d mod 64"
      using byte_of_eq [OF code_bytes(1) code_bytes(1), of c d] byte_of_eq [OF code_bytes(2) code_bytes(2), of c d] by simp_all
    then have "code c = code d" by (metis div_mult_mod_eq)
    then show ?thesis using xy code_eqI by simp
  next
    assume "code c < 128" "\<not> code d < 128"
    then show ?thesis using e mixed [of c d] by (simp add: utf8_char_def)
  next
    assume "\<not> code c < 128" "code d < 128"
    then show ?thesis using e mixed [of d c] by (simp add: utf8_char_def)
  qed
qed

lemma utf8_char_ne: "utf8_char c \<noteq> []"
  by (simp add: utf8_char_def)

lemma utf8_inj: "utf8 s = utf8 t \<Longrightarrow> s = t"
proof (induction s arbitrary: t)
  case Nil
  then show ?case using utf8_char_ne by (cases t) (auto simp: utf8_def)
next
  case (Cons c s)
  then obtain d u where t: "t = d # u" using utf8_char_ne by (cases t) (auto simp: utf8_def)
  then have "c = d \<and> utf8 s = utf8 u" using Cons.prems by (intro utf8_char_inj) (simp add: utf8_def)
  then show ?case using Cons.IH t by simp
qed

section \<open>No two requests sign the same message\<close>

lemma split_unique:
  assumes "a @ x = b @ y" "\<forall>c \<in> set a \<union> set b. P c" "x \<noteq> [] \<and> \<not> P (hd x)" "y \<noteq> [] \<and> \<not> P (hd y)"
  shows "a = b \<and> x = y"
proof -
  have "takeWhile P (a @ x) = a" "takeWhile P (b @ y) = b"
    using assms(2-4) by (simp_all add: takeWhile_append2 takeWhile_eq_Nil_iff)
  then show ?thesis using assms(1) by simp
qed

lemma utf8_eq_iff: "utf8 s = utf8 t \<longleftrightarrow> s = t"
  using utf8_inj by blast

lemma digit_not_upper: "is_digit c \<Longrightarrow> \<not> is_upper c"
  by (auto simp: is_digit_def is_upper_def code_def)

lemma message_split:
  assumes "\<forall>c \<in> set ts \<union> set ts'. is_digit c" "m \<noteq> [] \<and> m' \<noteq> []" "\<forall>c \<in> set m \<union> set m'. is_upper c"
  shows "signed_message ts m (CHR ''/'' # p) = signed_message ts' m' (CHR ''/'' # p') \<longleftrightarrow> ts = ts' \<and> m = m' \<and> p = p'"
proof
  assume e: "signed_message ts m (CHR ''/'' # p) = signed_message ts' m' (CHR ''/'' # p')"
  have "is_upper (hd m)" "is_upper (hd m')" using assms(2,3) by simp_all
  then have "\<not> is_digit (hd m)" "\<not> is_digit (hd m')" using digit_not_upper by blast+
  then have "ts = ts' \<and> m @ CHR ''/'' # p = m' @ CHR ''/'' # p'"
    by (intro split_unique [where P = is_digit]) (use e assms(1,2) in \<open>simp_all add: signed_message_def\<close>)
  moreover from this have "m = m' \<and> CHR ''/'' # p = CHR ''/'' # p'"
    by (intro split_unique [where P = is_upper]) (use assms in \<open>auto simp: is_upper_def code_def\<close>)
  ultimately show "ts = ts' \<and> m = m' \<and> p = p'" by simp
qed simp

text \<open>C40. The unseparated concatenation that is signed is unambiguous: for a timestamp of digits, an
  upper-case method and a path that begins with a slash the signed bytes determine all three; no
  request of the REST interface signs the bytes of a stream handshake; and base64 loses nothing of
  a signature.\<close>
theorem signatures_tell_requests_apart:
  assumes "\<forall>c \<in> set ts \<union> set ts'. is_digit c"
    and "m \<noteq> [] \<and> m' \<noteq> []" "\<forall>c \<in> set m \<union> set m'. is_upper c"
  shows "(utf8 (signed_message ts m (CHR ''/'' # p)) = utf8 (signed_message ts' m' (CHR ''/'' # p')) \<longleftrightarrow>
      ts = ts' \<and> m = m' \<and> p = p') \<and>
    utf8 (signed_message ts m (api_prefix @ p)) \<noteq> utf8 (signed_message ts' ws_auth_method ws_auth_path) \<and>
    (sign rsa ts m p = sign rsa' ts' m' p' \<longleftrightarrow> rsa (utf8 (signed_message ts m p)) = rsa' (utf8 (signed_message ts' m' p')))"
proof (intro conjI)
  show "utf8 (signed_message ts m (CHR ''/'' # p)) = utf8 (signed_message ts' m' (CHR ''/'' # p')) \<longleftrightarrow> ts = ts' \<and> m = m' \<and> p = p'"
    unfolding utf8_eq_iff by (rule message_split [OF assms])
  have "\<forall>c \<in> set m \<union> set ws_auth_method. is_upper c" "ws_auth_method \<noteq> []"
    using assms(3) by (auto simp: ws_auth_method_def is_upper_def code_def)
  then show "utf8 (signed_message ts m (api_prefix @ p)) \<noteq> utf8 (signed_message ts' ws_auth_method ws_auth_path)"
    unfolding utf8_eq_iff
    using message_split [of ts ts' m ws_auth_method "''trade-api/v2'' @ p" "''trade-api/ws/v2''"] assms
    by (simp add: api_prefix_def ws_auth_path_def)
  show "sign rsa ts m p = sign rsa' ts' m' p' \<longleftrightarrow> rsa (utf8 (signed_message ts m p)) = rsa' (utf8 (signed_message ts' m' p'))"
    using b64encode_inj by (auto simp: sign_def sign_message_def)
qed

theorem signatures_tell_requests_apart_witness:
  "utf8 (signed_message ''1700000000000'' ''GET'' ''/trade-api/v2/portfolio/orders'') \<noteq>
     utf8 (signed_message ''1700000000000'' ''POST'' ''/trade-api/v2/portfolio/orders'')"
proof -
  have "\<forall>c \<in> set ''1700000000000'' \<union> set ''1700000000000''. is_digit c" "\<forall>c \<in> set ''GET'' \<union> set ''POST''. is_upper c"
    by (simp_all add: is_digit_def is_upper_def code_def)
  then show ?thesis using signatures_tell_requests_apart by simp
qed

end
