(* ===== verification/Market_Stream.thy ===== *)
theory Market_Stream
  imports Signer
begin

text \<open>
  transport/ws_client.py: the client of the market-data stream. What \<open>websockets\<close> and \<open>orjson\<close> do
  is an argument of every step: whether the handshake, a send or a close succeeds, and what each
  receive brings after how many seconds. A connection is any value.
\<close>

section \<open>The client\<close>

definition ws_path :: string where "ws_path = ''/trade-api/ws/v2''"
definition default_message_timeout :: pyfloat where "default_message_timeout = 90"

record 'c ws_client =
  ws_base_url :: string
  ws_key_id :: string
  ws_timeout :: pyfloat
  ws_connection :: "'c option"
  ws_next_command_id :: int

definition new_ws_client :: "string \<Rightarrow> string \<Rightarrow> pyfloat \<Rightarrow> 'c ws_client" where
  "new_ws_client url key timeout =
     \<lparr>ws_base_url = rev (dropWhile (\<lambda>c. c = CHR ''/'') (rev url)), ws_key_id = key, ws_timeout = timeout,
      ws_connection = None, ws_next_command_id = 1\<rparr>"

text \<open>The address and the headers of the handshake; the client keeps the connection only if there is one.\<close>

definition handshake :: "(bytes \<Rightarrow> bytes) \<Rightarrow> pyfloat \<Rightarrow> 'c ws_client \<Rightarrow> string \<times> (string \<times> string) list" where
  "handshake rsa wall c =
     (let ts = timestamp_text wall
      in (ws_base_url c @ ws_path,
          [(''KALSHI-ACCESS-KEY'', ws_key_id c), (''KALSHI-ACCESS-TIMESTAMP'', ts),
           (''KALSHI-ACCESS-SIGNATURE'', sign_websocket_auth rsa ts)]))"

definition ws_connect :: "exc + 'c \<Rightarrow> 'c ws_client \<Rightarrow> (exc + unit) \<times> 'c ws_client" where
  "ws_connect result c =
     (case result of Inl e \<Rightarrow> (Inl e, c) | Inr conn \<Rightarrow> (Inr (), c\<lparr>ws_connection := Some conn\<rparr>))"

definition require_connection :: "'c ws_client \<Rightarrow> exc + 'c" where
  "require_connection c = (case ws_connection c of None \<Rightarrow> Inl RuntimeError | Some conn \<Rightarrow> Inr conn)"

definition subscribe_params :: "string list \<Rightarrow> string list option \<Rightarrow> bool \<Rightarrow> bool option \<Rightarrow> jvalue" where
  "subscribe_params channels market_tickers send_initial_snapshot use_yes_price =
     JObject ([(''channels'', JArray (map jstr channels))] @
       (case market_tickers of None \<Rightarrow> [] | Some ts \<Rightarrow> [(''market_tickers'', JArray (map jstr ts))]) @
       (if send_initial_snapshot then [(''send_initial_snapshot'', JScalar (JBool True))] else []) @
       (case use_yes_price of None \<Rightarrow> [] | Some b \<Rightarrow> [(''use_yes_price'', JScalar (JBool b))]))"

text \<open>The identifier is taken before the send, which may fail. The third result is what was handed to the connection.\<close>

definition subscribe :: "jvalue \<Rightarrow> exc + unit \<Rightarrow> 'c ws_client \<Rightarrow> (exc + unit) \<times> 'c ws_client \<times> ('c \<times> jvalue) list" where
  "subscribe params sent c =
     (case require_connection c of
        Inl e \<Rightarrow> (Inl e, c, [])
      | Inr conn \<Rightarrow>
          (sent, c\<lparr>ws_next_command_id := ws_next_command_id c + 1\<rparr>,
           [(conn, JObject [(''id'', JScalar (JInt (ws_next_command_id c))), (''cmd'', jstr ''subscribe''), (''params'', params)])]))"

text \<open>When closing the connection raises, the client still holds it.\<close>

definition ws_close :: "exc + unit \<Rightarrow> 'c ws_client \<Rightarrow> (exc + unit) \<times> 'c ws_client" where
  "ws_close outcome c =
     (case ws_connection c of
        None \<Rightarrow> (Inr (), c)
      | Some _ \<Rightarrow> (case outcome of Inl e \<Rightarrow> (Inl e, c) | Inr _ \<Rightarrow> (Inr (), c\<lparr>ws_connection := None\<rparr>)))"

section \<open>Messages\<close>

text \<open>
  One receive: after a number of seconds a frame, a clean close, a timeout raised inside, or another
  error; \<open>Silence\<close> never returns. \<open>asyncio.timeout\<close> cancels a receive that is not back in time.
\<close>

datatype receive = Frame pyfloat bytes | ClosedOK pyfloat | InnerTimeout pyfloat | ReceiveRaises pyfloat exc | Silence

fun arrives :: "receive \<Rightarrow> pyfloat option" where
  "arrives (Frame t _) = Some t"
| "arrives (ClosedOK t) = Some t"
| "arrives (InnerTimeout t) = Some t"
| "arrives (ReceiveRaises t _) = Some t"
| "arrives Silence = None"

datatype stream_end = Ended | Watchdog pyfloat | TimedOutInside | StreamRaised exc | Suspended

definition late :: "pyfloat \<Rightarrow> receive \<Rightarrow> bool" where
  "late timeout r = (case arrives r of None \<Rightarrow> True | Some t \<Rightarrow> timeout \<le> t)"

text \<open>The generator run over a list of receives: what it yields and how it ends; \<open>Suspended\<close> when it waits for more.\<close>

fun receive_loop :: "(bytes \<Rightarrow> exc + jvalue) \<Rightarrow> pyfloat \<Rightarrow> receive list \<Rightarrow> jvalue list \<times> stream_end" where
  "receive_loop loads timeout [] = ([], Suspended)"
| "receive_loop loads timeout (r # rs) =
     (if late timeout r then ([], Watchdog timeout)
      else case r of
        Frame _ raw \<Rightarrow>
          (case loads raw of Inl e \<Rightarrow> ([], StreamRaised e)
           | Inr v \<Rightarrow> (let (vs, e) = receive_loop loads timeout rs in (v # vs, e)))
      | ClosedOK _ \<Rightarrow> ([], Ended)
      | InnerTimeout _ \<Rightarrow> ([], TimedOutInside)
      | ReceiveRaises _ e \<Rightarrow> ([], StreamRaised e)
      | Silence \<Rightarrow> ([], Suspended))"

definition messages :: "(bytes \<Rightarrow> exc + jvalue) \<Rightarrow> receive list \<Rightarrow> 'c ws_client \<Rightarrow> jvalue list \<times> stream_end" where
  "messages loads rs c =
     (case require_connection c of Inl e \<Rightarrow> ([], StreamRaised e) | Inr _ \<Rightarrow> receive_loop loads (ws_timeout c) rs)"

section \<open>A quiet stream ends\<close>

text \<open>A message that is read in time and decodes.\<close>

definition delivers :: "(bytes \<Rightarrow> exc + jvalue) \<Rightarrow> pyfloat \<Rightarrow> receive \<Rightarrow> bool" where
  "delivers loads timeout r \<longleftrightarrow> \<not> late timeout r \<and> (\<exists>t raw v. r = Frame t raw \<and> loads raw = Inr v)"

definition payload :: "(bytes \<Rightarrow> exc + jvalue) \<Rightarrow> receive \<Rightarrow> jvalue" where
  "payload loads r = (case r of Frame _ raw \<Rightarrow> (case loads raw of Inr v \<Rightarrow> v | Inl _ \<Rightarrow> JScalar JNull) | _ \<Rightarrow> JScalar JNull)"

definition ends_with :: "(bytes \<Rightarrow> exc + jvalue) \<Rightarrow> pyfloat \<Rightarrow> receive \<Rightarrow> stream_end" where
  "ends_with loads timeout r =
     (if late timeout r then Watchdog timeout
      else case r of ClosedOK _ \<Rightarrow> Ended | InnerTimeout _ \<Rightarrow> TimedOutInside | ReceiveRaises _ e \<Rightarrow> StreamRaised e
        | Frame _ raw \<Rightarrow> (case loads raw of Inl e \<Rightarrow> StreamRaised e | Inr _ \<Rightarrow> Suspended) | Silence \<Rightarrow> Suspended)"

lemma receive_loop_spec:
  "receive_loop loads timeout rs =
     (map (payload loads) (takeWhile (delivers loads timeout) rs),
      case dropWhile (delivers loads timeout) rs of [] \<Rightarrow> Suspended | r # _ \<Rightarrow> ends_with loads timeout r)"
proof (induction rs)
  case (Cons r rs)
  then show ?case
    by (cases r) (auto simp: delivers_def payload_def ends_with_def late_def split: sum.split)
qed simp

lemma ends_with_cases:
  "\<not> delivers loads timeout r \<Longrightarrow> ends_with loads timeout r \<noteq> Suspended"
  "ends_with loads timeout r = Watchdog t \<longleftrightarrow> late timeout r \<and> t = timeout"
  by (cases r; auto simp: delivers_def ends_with_def late_def split: sum.splits)+

lemma late_not_delivers: "late timeout r \<Longrightarrow> \<not> delivers loads timeout r"
  by (simp add: delivers_def)

text \<open>C24. The message stream yields the frames that arrive in time and decode, in order, up to the
  first receive that does not, waits for more only while every receive so far delivered, and ends
  by its watchdog exactly when the first receive that did not deliver was late.\<close>
theorem quiet_stream_is_abandoned:
  assumes "ws_connection c = Some conn"
  shows "fst (messages loads rs c) = map (payload loads) (takeWhile (delivers loads (ws_timeout c)) rs) \<and>
    (snd (messages loads rs c) = Suspended \<longleftrightarrow> (\<forall>r \<in> set rs. delivers loads (ws_timeout c) r)) \<and>
    (snd (messages loads rs c) = Watchdog t \<longleftrightarrow> t = ws_timeout c \<and>
       (\<exists>before r after. rs = before @ r # after \<and> (\<forall>b \<in> set before. delivers loads (ws_timeout c) b) \<and> late (ws_timeout c) r))"
proof -
  let ?D = "delivers loads (ws_timeout c)"
  have m: "messages loads rs c = (map (payload loads) (takeWhile ?D rs),
      case dropWhile ?D rs of [] \<Rightarrow> Suspended | r # _ \<Rightarrow> ends_with loads (ws_timeout c) r)"
    by (simp add: messages_def require_connection_def assms receive_loop_spec)
  show ?thesis
  proof (cases "dropWhile ?D rs")
    case Nil
    then have all: "\<forall>r \<in> set rs. ?D r" by (simp add: dropWhile_eq_Nil_conv)
    then have "\<not> late (ws_timeout c) r" if "rs = before @ r # after" for before r after
      using that late_not_delivers [of "ws_timeout c" r loads] by auto
    moreover have "messages loads rs c = (map (payload loads) (takeWhile ?D rs), Suspended)"
      by (simp only: m Nil list.case)
    ultimately show ?thesis using all by auto
  next
    case (Cons r after)
    have split: "rs = takeWhile ?D rs @ r # after" using Cons takeWhile_dropWhile_id [of ?D rs] by simp
    have r: "\<not> ?D r" using Cons hd_dropWhile [of ?D rs] by simp
    have unique: "r' = r" if "rs = b @ r' # a" "\<forall>x \<in> set b. ?D x" "late (ws_timeout c) r'" for b r' a
    proof -
      have "dropWhile ?D rs = r' # a" using that late_not_delivers by (simp add: dropWhile_append2)
      then show ?thesis using Cons by simp
    qed
    have e: "messages loads rs c = (map (payload loads) (takeWhile ?D rs), ends_with loads (ws_timeout c) r)"
      by (simp only: m Cons list.case)
    have "r \<in> set rs" using split by (metis in_set_conv_decomp)
    then have two: "ends_with loads (ws_timeout c) r = Suspended \<longleftrightarrow> (\<forall>r \<in> set rs. ?D r)"
      using r ends_with_cases(1) [OF r] by blast
    have "\<exists>before r' after. rs = before @ r' # after \<and> (\<forall>b \<in> set before. ?D b) \<and> late (ws_timeout c) r'"
      if "late (ws_timeout c) r"
      using that split set_takeWhileD [of _ ?D rs] by (intro exI [of _ "takeWhile ?D rs"] exI [of _ r] exI [of _ after]) simp
    then have "ends_with loads (ws_timeout c) r = Watchdog t \<longleftrightarrow> t = ws_timeout c \<and>
        (\<exists>before r after. rs = before @ r # after \<and> (\<forall>b \<in> set before. ?D b) \<and> late (ws_timeout c) r)"
      unfolding ends_with_cases(2) using unique by metis
    then show ?thesis unfolding e fst_conv snd_conv two by blast
  qed
qed

section \<open>Command identifiers\<close>

datatype 'c ws_operation = Connect "exc + 'c" | Subscribe jvalue "exc + unit" | Close "exc + unit"

fun ws_run :: "'c ws_operation list \<Rightarrow> 'c ws_client \<Rightarrow> 'c ws_client \<times> ('c \<times> jvalue) list" where
  "ws_run [] c = (c, [])"
| "ws_run (Connect r # ops) c = ws_run ops (snd (ws_connect r c))"
| "ws_run (Close r # ops) c = ws_run ops (snd (ws_close r c))"
| "ws_run (Subscribe params r # ops) c =
     (let (_, c', sent) = subscribe params r c; (c'', later) = ws_run ops c' in (c'', sent @ later))"

definition command_id :: "jvalue \<Rightarrow> int option" where
  "command_id v = (case v of JObject kvs \<Rightarrow> (case map_of kvs ''id'' of Some (JScalar (JInt n)) \<Rightarrow> Some n | _ \<Rightarrow> None) | _ \<Rightarrow> None)"

lemma command_id_subscribe [simp]: "command_id (JObject ((''id'', JScalar (JInt n)) # kvs)) = Some n"
  by (simp add: command_id_def)

lemma ws_run_ids:
  "ws_run ops c = (c', sent) \<Longrightarrow>
   map (command_id \<circ> snd) sent = map (\<lambda>i. Some (ws_next_command_id c + int i)) [0..<length sent] \<and>
   ws_next_command_id c' = ws_next_command_id c + int (length sent)"
proof (induction ops arbitrary: c c' sent)
  case (Cons op ops)
  show ?case
  proof (cases op)
    case (Connect r)
    have "ws_next_command_id (snd (ws_connect r c)) = ws_next_command_id c" by (simp add: ws_connect_def split: sum.split)
    then show ?thesis using Cons.IH [of "snd (ws_connect r c)" c' sent] Cons.prems Connect by simp
  next
    case (Close r)
    have "ws_next_command_id (snd (ws_close r c)) = ws_next_command_id c"
      by (simp add: ws_close_def split: sum.split option.split)
    then show ?thesis using Cons.IH [of "snd (ws_close r c)" c' sent] Cons.prems Close by simp
  next
    case (Subscribe params r)
    show ?thesis
    proof (cases "ws_connection c")
      case None
      then have "subscribe params r c = (Inl RuntimeError, c, [])" by (simp add: subscribe_def require_connection_def)
      moreover obtain c1 later where "ws_run ops c = (c1, later)" by fastforce
      ultimately show ?thesis using Cons.IH [of c c' sent] Cons.prems Subscribe by simp
    next
      case (Some conn)
      let ?c = "c\<lparr>ws_next_command_id := ws_next_command_id c + 1\<rparr>"
      obtain c1 later where run: "ws_run ops ?c = (c1, later)" by fastforce
      obtain cmd where sub: "subscribe params r c = (r, ?c, [(conn, cmd)])" "command_id cmd = Some (ws_next_command_id c)"
        using Some by (simp add: subscribe_def require_connection_def)
      have res: "c' = c1" "sent = (conn, cmd) # later" using Cons.prems Subscribe run sub by simp_all
      have "[0..<length sent] = 0 # map Suc [0..<length later]" by (simp add: res map_Suc_upt upt_conv_Cons del: upt_Suc)
      then show ?thesis using Cons.IH [OF run] sub(2) by (simp add: res add.assoc comp_def del: upt_Suc)
    qed
  qed
qed simp

text \<open>Over any sequence of connects, closes and subscriptions, failed ones included, the commands
  sent are numbered from one without gap or repetition, and a client that is not connected sends
  nothing and raises.\<close>
theorem command_ids_never_repeat:
  fixes ops url key timeout
  defines "r \<equiv> ws_run ops (new_ws_client url key timeout)"
  shows "map (command_id \<circ> snd) (snd r) = map (\<lambda>i. Some (1 + int i)) [0..<length (snd r)] \<and>
    distinct (map (command_id \<circ> snd) (snd r)) \<and> ws_next_command_id (fst r) = 1 + int (length (snd r)) \<and>
    (ws_connection (fst r) = None \<longrightarrow> fst (subscribe params sent (fst r)) = Inl RuntimeError \<and> snd (snd (subscribe params sent (fst r))) = [])"
proof -
  have "map (command_id \<circ> snd) (snd r) = map (\<lambda>i. Some (1 + int i)) [0..<length (snd r)] \<and>
      ws_next_command_id (fst r) = 1 + int (length (snd r))"
    using ws_run_ids [of ops "new_ws_client url key timeout" "fst r" "snd r"] by (simp add: r_def new_ws_client_def)
  moreover have "distinct (map (\<lambda>i. Some (1 + int i)) [0..<length (snd r)])"
    by (simp add: distinct_map inj_on_def)
  ultimately show ?thesis by (simp add: subscribe_def require_connection_def)
qed

definition sample_client :: "unit ws_client" where
  "sample_client = (new_ws_client ''wss://host'' ''key'' default_message_timeout)\<lparr>ws_connection := Some ()\<rparr>"

theorem quiet_stream_is_abandoned_witness:
  "messages (\<lambda>_. Inr (jstr ''tick'')) [Frame 1 [], Frame 89 [], Frame 90 [], Frame 1 []] sample_client =
     ([jstr ''tick'', jstr ''tick''], Watchdog 90)"
proof -
  have c: "ws_connection sample_client = Some ()" "ws_timeout sample_client = 90"
    by (simp_all add: sample_client_def new_ws_client_def default_message_timeout_def)
  note q = quiet_stream_is_abandoned [OF c(1), where loads = "\<lambda>_. Inr (jstr ''tick'')" and t = 90
      and rs = "[Frame 1 [], Frame 89 [], Frame 90 [], Frame 1 []]", unfolded c(2)]
  have d: "delivers (\<lambda>_. Inr (jstr ''tick'')) 90 (Frame t []) \<longleftrightarrow> t < 90" for t
    by (auto simp: delivers_def late_def)
  have "snd (messages (\<lambda>_. Inr (jstr ''tick'')) [Frame 1 [], Frame 89 [], Frame 90 [], Frame 1 []] sample_client) = Watchdog 90"
    by (subst q [THEN conjunct2, THEN conjunct2])
      (intro conjI refl exI [of _ "[Frame 1 [], Frame 89 []]"] exI [of _ "Frame 90 []"] exI [of _ "[Frame 1 []]"];
        simp add: d late_def)
  moreover have "fst (messages (\<lambda>_. Inr (jstr ''tick'')) [Frame 1 [], Frame 89 [], Frame 90 [], Frame 1 []] sample_client) =
      [jstr ''tick'', jstr ''tick'']"
    by (subst q [THEN conjunct1]) (simp add: d payload_def)
  ultimately show ?thesis by (simp add: prod_eq_iff)
qed

end
