(* ===== verification/Logging_Setup.thy ===== *)
theory Logging_Setup
  imports Prelude Draining
begin

text \<open>
  \<open>runtime/logging_setup.py\<close>: the root logger behind a queue, the listener thread that writes to a
  rotating file and to stderr, and the two operations that set it up and take it down. A record
  carries the line its formatter makes of it.
\<close>

section \<open>State\<close>

record log_record =
  lr_level :: int
  lr_line :: string

datatype sink = FileSink string | StderrSink

text \<open>A handler of the root logger: the queue's, or one of another library.\<close>

datatype root_handler = QueueHandler nat | OtherHandler nat

text \<open>
  Queues are numbered as they are made. A rotating file is its segments, the current one first and
  then the backups \<open>.1\<close>, \<open>.2\<close> and so on.
\<close>

record logging =
  lg_root :: "root_handler list"
  lg_level :: int
  lg_listener :: "(nat \<times> sink list) option"
  lg_threads :: "nat list"
  lg_queues :: "nat \<Rightarrow> log_record list"
  lg_next :: nat
  lg_files :: "string \<Rightarrow> string list list"
  lg_stderr :: "string list"
  lg_others :: "nat \<Rightarrow> string list"
  lg_atexit :: nat

definition max_bytes :: nat where "max_bytes = 32 * 1024 * 1024"
definition backup_count :: nat where "backup_count = 5"

section \<open>Handlers\<close>

text \<open>A segment in bytes, one for a character, each line with its newline.\<close>

definition segment_size :: "string list \<Rightarrow> nat" where
  "segment_size seg = sum_list (map (\<lambda>l. length l + 1) seg)"

text \<open>\<open>RotatingFileHandler.emit\<close>: a file that is not empty rolls over when the line would fill it.\<close>

definition write_line :: "string \<Rightarrow> string list list \<Rightarrow> string list list" where
  "write_line line segs =
     (case segs of
        [] \<Rightarrow> [[line]]
      | cur # old \<Rightarrow>
          if cur \<noteq> [] \<and> max_bytes \<le> segment_size cur + length line + 1 then [line] # take backup_count (cur # old)
          else (cur @ [line]) # old)"

definition emit_to :: "log_record \<Rightarrow> sink \<Rightarrow> logging \<Rightarrow> logging" where
  "emit_to r k s =
     (case k of
        FileSink path \<Rightarrow> s\<lparr>lg_files := (lg_files s)(path := write_line (lr_line r) (lg_files s path))\<rparr>
      | StderrSink \<Rightarrow> s\<lparr>lg_stderr := lg_stderr s @ [lr_line r]\<rparr>)"

text \<open>\<open>QueueListener.handle\<close> with \<open>respect_handler_level=False\<close>: every handler gets every record.\<close>

definition deliver :: "sink list \<Rightarrow> log_record \<Rightarrow> logging \<Rightarrow> logging" where
  "deliver sinks r s = fold (emit_to r) sinks s"

text \<open>A log call anywhere in the process.\<close>

definition to_root :: "log_record \<Rightarrow> root_handler \<Rightarrow> logging \<Rightarrow> logging" where
  "to_root r h s =
     (case h of
        QueueHandler q \<Rightarrow> s\<lparr>lg_queues := (lg_queues s)(q := lg_queues s q @ [r])\<rparr>
      | OtherHandler i \<Rightarrow> s\<lparr>lg_others := (lg_others s)(i := lg_others s i @ [lr_line r])\<rparr>)"

definition log_call :: "log_record \<Rightarrow> logging \<Rightarrow> logging" where
  "log_call r s = (if lr_level r < lg_level s then s else fold (to_root r) (lg_root s) s)"

text \<open>A turn of the listener thread of a queue.\<close>

definition listener_turn :: "nat \<Rightarrow> sink list \<Rightarrow> logging \<Rightarrow> logging option" where
  "listener_turn q sinks s =
     (case lg_queues s q of [] \<Rightarrow> None
      | r # rest \<Rightarrow> Some (deliver sinks r (s\<lparr>lg_queues := (lg_queues s)(q := rest)\<rparr>)))"

section \<open>The two operations\<close>

text \<open>\<open>QueueListener.stop\<close>: the sentinel goes behind what is queued, and the thread is joined.\<close>

definition stop_listener :: "nat \<Rightarrow> sink list \<Rightarrow> logging \<Rightarrow> logging" where
  "stop_listener q sinks s =
     (fold (deliver sinks) (lg_queues s q) (s\<lparr>lg_queues := (lg_queues s)(q := [])\<rparr>))
       \<lparr>lg_threads := remove1 q (lg_threads s)\<rparr>"

definition shutdown_logging :: "logging \<Rightarrow> logging" where
  "shutdown_logging s =
     (case lg_listener s of None \<Rightarrow> s | Some (q, sinks) \<Rightarrow> (stop_listener q sinks s)\<lparr>lg_listener := None\<rparr>)"

definition sinks_for :: "string option \<Rightarrow> bool \<Rightarrow> sink list" where
  "sinks_for log_path also_stderr =
     (case log_path of None \<Rightarrow> [] | Some p \<Rightarrow> [FileSink p]) @ (if also_stderr then [StderrSink] else [])"

text \<open>
  The exception it raises, if any, and the state it leaves. Opening the file, which \<open>opens\<close> says
  succeeds, comes after the old listener is gone.
\<close>

definition configure_logging :: "bool \<Rightarrow> string option \<Rightarrow> int \<Rightarrow> bool \<Rightarrow> logging \<Rightarrow> exc option \<times> logging" where
  "configure_logging opens log_path level also_stderr s =
     (if log_path = None \<and> \<not> also_stderr then (Some ValueError, s)
      else (let s1 = shutdown_logging s; q = lg_next s1
            in if log_path \<noteq> None \<and> \<not> opens then (Some OSError, s1)
               else (None, s1\<lparr>lg_root := [QueueHandler q], lg_level := level, lg_next := Suc q,
                 lg_listener := Some (q, sinks_for log_path also_stderr), lg_threads := q # lg_threads s1,
                 lg_atexit := Suc (lg_atexit s1)\<rparr>)))"

section \<open>Runs\<close>

datatype log_event = Logged log_record | ListenerTurn | Configure bool "string option" int bool | Shutdown

definition log_step :: "log_event \<Rightarrow> logging \<Rightarrow> logging" where
  "log_step e s =
     (case e of
        Logged r \<Rightarrow> log_call r s
      | ListenerTurn \<Rightarrow>
          (case lg_listener s of None \<Rightarrow> s
           | Some (q, sinks) \<Rightarrow> (case listener_turn q sinks s of None \<Rightarrow> s | Some s' \<Rightarrow> s'))
      | Configure opens path level stderr \<Rightarrow> snd (configure_logging opens path level stderr s)
      | Shutdown \<Rightarrow> shutdown_logging s)"

definition new_logging :: "root_handler list \<Rightarrow> logging" where
  "new_logging hs =
     \<lparr>lg_root = hs, lg_level = 30, lg_listener = None, lg_threads = [], lg_queues = (\<lambda>_. []), lg_next = 0,
      lg_files = (\<lambda>_. []), lg_stderr = [], lg_others = (\<lambda>_. []), lg_atexit = 0\<rparr>"

lemma deliver_fields [simp]:
  "lg_queues (deliver ks r s) = lg_queues s" "lg_listener (deliver ks r s) = lg_listener s"
  "lg_threads (deliver ks r s) = lg_threads s" "lg_root (deliver ks r s) = lg_root s"
  "lg_next (deliver ks r s) = lg_next s" "lg_level (deliver ks r s) = lg_level s" "lg_atexit (deliver ks r s) = lg_atexit s"
  unfolding deliver_def
  by (induction ks arbitrary: s) (simp_all add: emit_to_def split: sink.split)

lemma deliver_all_fields [simp]:
  "lg_queues (fold (deliver ks) rs s) = lg_queues s" "lg_listener (fold (deliver ks) rs s) = lg_listener s"
  "lg_threads (fold (deliver ks) rs s) = lg_threads s" "lg_root (fold (deliver ks) rs s) = lg_root s"
  "lg_next (fold (deliver ks) rs s) = lg_next s" "lg_level (fold (deliver ks) rs s) = lg_level s"
  "lg_atexit (fold (deliver ks) rs s) = lg_atexit s"
  by (induction rs arbitrary: s) simp_all

text \<open>The thread empties its queue by itself, and leaves what \<open>stop\<close> leaves.\<close>

definition listener_step :: "nat \<Rightarrow> sink list \<Rightarrow> logging \<Rightarrow> logging \<Rightarrow> bool" where
  "listener_step q ks s s' \<longleftrightarrow> listener_turn q ks s = Some s'"

interpretation listening: draining "listener_step q ks" "\<lambda>_. True" "\<lambda>s. length (lg_queues s q)" "\<lambda>s. lg_queues s q = []" for q ks
  by unfold_locales (auto simp: listener_step_def listener_turn_def split: list.splits)

lemma emit_to_marks:
  "emit_to r k (s\<lparr>lg_queues := f\<rparr>) = (emit_to r k s)\<lparr>lg_queues := f\<rparr>"
  "emit_to r k (s\<lparr>lg_threads := ts\<rparr>) = (emit_to r k s)\<lparr>lg_threads := ts\<rparr>"
  "emit_to r k (s\<lparr>lg_listener := l\<rparr>) = (emit_to r k s)\<lparr>lg_listener := l\<rparr>"
  by (simp_all add: emit_to_def split: sink.split)

lemma deliver_queues: "deliver ks r (s\<lparr>lg_queues := f\<rparr>) = (deliver ks r s)\<lparr>lg_queues := f\<rparr>"
  unfolding deliver_def by (induction ks arbitrary: s) (simp_all add: emit_to_marks)

lemma deliver_all_queues: "fold (deliver ks) rs (s\<lparr>lg_queues := f\<rparr>) = (fold (deliver ks) rs s)\<lparr>lg_queues := f\<rparr>"
  by (induction rs arbitrary: s) (simp_all add: deliver_queues)

lemma deliver_marks:
  "deliver ks r (s\<lparr>lg_threads := ts\<rparr>) = (deliver ks r s)\<lparr>lg_threads := ts\<rparr>"
  "deliver ks r (s\<lparr>lg_listener := l\<rparr>) = (deliver ks r s)\<lparr>lg_listener := l\<rparr>"
  unfolding deliver_def by (induction ks arbitrary: s) (simp_all add: emit_to_marks)

text \<open>A turn of the thread takes nothing from what \<open>stop\<close> leaves.\<close>

lemma stop_after_turn:
  assumes "listener_turn q ks s = Some s'"
  shows "stop_listener q ks s' = stop_listener q ks s"
proof -
  obtain r rest where q: "lg_queues s q = r # rest"
      "s' = deliver ks r (s\<lparr>lg_queues := (lg_queues s)(q := rest)\<rparr>)"
    using assms by (auto simp: listener_turn_def split: list.splits)
  then show ?thesis by (simp add: stop_listener_def deliver_queues)
qed

lemma stop_after_thread:
  "(listener_step q ks)\<^sup>*\<^sup>* s s' \<Longrightarrow> stop_listener q ks s' = stop_listener q ks s"
  by (induction rule: rtranclp_induct) (simp_all add: stop_after_turn listener_step_def)

text \<open>Left alone, the thread writes everything \<open>stop\<close> would.\<close>

lemma thread_empties_its_queue:
  "\<exists>s'. (listener_step q ks)\<^sup>*\<^sup>* s s' \<and> lg_queues s' q = [] \<and>
     lg_files s' = lg_files (stop_listener q ks s) \<and> lg_stderr s' = lg_stderr (stop_listener q ks s)"
proof -
  obtain s' where s': "(listener_step q ks)\<^sup>*\<^sup>* s s'" "lg_queues s' q = []" using listening.drains [OF TrueI] by blast
  have "stop_listener q ks s = stop_listener q ks s'" by (rule stop_after_thread [OF s'(1), symmetric])
  then show ?thesis using s' by (auto simp: stop_listener_def)
qed

section \<open>One listener at a time\<close>

definition log_inv :: "logging \<Rightarrow> bool" where
  "log_inv s \<longleftrightarrow>
     (case lg_listener s of None \<Rightarrow> lg_threads s = []
      | Some (q, ks) \<Rightarrow> lg_threads s = [q] \<and> lg_root s = [QueueHandler q]) \<and>
     (\<forall>q \<ge> lg_next s. lg_queues s q = [] \<and> QueueHandler q \<notin> set (lg_root s))"

lemma shutdown_fields [simp]:
  "lg_listener (shutdown_logging s) = None" "lg_root (shutdown_logging s) = lg_root s"
  "lg_next (shutdown_logging s) = lg_next s" "lg_level (shutdown_logging s) = lg_level s"
  by (simp_all add: shutdown_logging_def stop_listener_def split: option.split)

lemma shutdown_nothing: "lg_listener s = None \<Longrightarrow> shutdown_logging s = s"
  by (simp add: shutdown_logging_def)

lemma shutdown_queues:
  "lg_queues (shutdown_logging s) =
     (case lg_listener s of None \<Rightarrow> lg_queues s | Some (q, _) \<Rightarrow> (lg_queues s)(q := []))"
  by (auto simp: shutdown_logging_def stop_listener_def split: option.split)

lemma log_inv_shutdown: "log_inv s \<Longrightarrow> log_inv (shutdown_logging s)"
  by (auto simp: log_inv_def shutdown_queues shutdown_logging_def stop_listener_def split: option.split)

lemma to_root_fields:
  "lg_listener (fold (to_root r) hs s) = lg_listener s \<and> lg_threads (fold (to_root r) hs s) = lg_threads s \<and>
   lg_root (fold (to_root r) hs s) = lg_root s \<and> lg_next (fold (to_root r) hs s) = lg_next s \<and>
   lg_files (fold (to_root r) hs s) = lg_files s \<and>
   (\<forall>q. QueueHandler q \<notin> set hs \<longrightarrow> lg_queues (fold (to_root r) hs s) q = lg_queues s q)"
  by (induction hs arbitrary: s) (auto simp: to_root_def split: root_handler.split)

lemma log_inv_step:
  assumes "log_inv s"
  shows "log_inv (log_step e s)"
proof (cases e)
  case (Logged r)
  then show ?thesis using assms to_root_fields [of r "lg_root s" s]
    by (auto simp: log_step_def log_call_def log_inv_def split: option.split)
next
  case ListenerTurn
  then show ?thesis using assms
    by (auto simp: log_step_def listener_turn_def log_inv_def split: option.splits list.splits)
next
  case (Configure opens path level stderr)
  show ?thesis
  proof (cases "path = None \<and> \<not> stderr")
    case True
    then show ?thesis using assms Configure by (simp add: log_step_def configure_logging_def)
  next
    case False
    then show ?thesis using log_inv_shutdown [OF assms] Configure
      by (auto simp: log_step_def configure_logging_def log_inv_def Let_def)
  qed
next
  case Shutdown
  then show ?thesis using log_inv_shutdown [OF assms] by (simp add: log_step_def)
qed

lemma log_inv_run: "log_inv s \<Longrightarrow> log_inv (fold log_step es s)"
  by (induction es arbitrary: s) (simp_all add: log_inv_step)

lemma log_inv_new: "list_all (\<lambda>h. case h of OtherHandler _ \<Rightarrow> True | QueueHandler _ \<Rightarrow> False) hs \<Longrightarrow> log_inv (new_logging hs)"
  by (auto simp: log_inv_def new_logging_def list_all_iff split: root_handler.splits)

section \<open>Nothing is lost or reordered\<close>

definition logged :: "int \<Rightarrow> log_event list \<Rightarrow> log_record list" where
  "logged level es = filter (\<lambda>r. level \<le> lr_level r) (concat (map (\<lambda>e. case e of Logged r \<Rightarrow> [r] | _ \<Rightarrow> []) es))"

definition ordinary :: "log_event \<Rightarrow> bool" where
  "ordinary e \<longleftrightarrow> (case e of Logged _ \<Rightarrow> True | ListenerTurn \<Rightarrow> True | _ \<Rightarrow> False)"

lemma shutdown_after_call:
  assumes "lg_listener s = Some (q, ks)" "lg_root s = [QueueHandler q]" "lg_level s \<le> lr_level r"
  shows "shutdown_logging (log_call r s) = deliver ks r (shutdown_logging s)"
proof -
  have "log_call r s = s\<lparr>lg_queues := (lg_queues s)(q := lg_queues s q @ [r])\<rparr>"
    using assms by (simp add: log_call_def to_root_def)
  then show ?thesis using assms(1)
    by (simp add: shutdown_logging_def stop_listener_def deliver_all_queues deliver_marks deliver_queues)
qed

lemma shutdown_after_step:
  assumes "lg_listener s = Some (q, ks)" "lg_root s = [QueueHandler q]" "ordinary e"
  shows "shutdown_logging (log_step e s) = fold (deliver ks) (logged (lg_level s) [e]) (shutdown_logging s) \<and>
    lg_listener (log_step e s) = Some (q, ks) \<and> lg_root (log_step e s) = [QueueHandler q] \<and>
    lg_level (log_step e s) = lg_level s"
proof (cases e)
  case (Logged r)
  then show ?thesis using assms shutdown_after_call [OF assms(1,2), of r]
    by (auto simp: log_step_def logged_def log_call_def to_root_def)
next
  case ListenerTurn
  show ?thesis
  proof (cases "listener_turn q ks s")
    case (Some s')
    have "lg_listener s' = lg_listener s \<and> lg_root s' = lg_root s \<and> lg_level s' = lg_level s"
      using Some by (auto simp: listener_turn_def split: list.splits)
    then show ?thesis using assms ListenerTurn Some stop_after_turn [OF Some]
      by (simp add: log_step_def logged_def shutdown_logging_def)
  qed (use assms ListenerTurn in \<open>simp add: log_step_def logged_def\<close>)
qed (use assms(3) in \<open>simp_all add: ordinary_def\<close>)

lemma logged_Cons: "logged level (e # es) = logged level [e] @ logged level es"
  by (simp add: logged_def)

lemma shutdown_after_run:
  assumes "lg_listener s = Some (q, ks)" "lg_root s = [QueueHandler q]" "list_all ordinary es"
  shows "shutdown_logging (fold log_step es s) = fold (deliver ks) (logged (lg_level s) es) (shutdown_logging s)"
  using assms
proof (induction es arbitrary: s)
  case (Cons e es)
  then show ?case using shutdown_after_step [OF Cons.prems(1,2), of e]
    by (subst logged_Cons) simp
qed (simp add: logged_def)

lemma delivered:
  "lg_stderr (fold (deliver (sinks_for path stderr)) rs s) =
     lg_stderr s @ (if stderr then map lr_line rs else [])"
  "lg_files (fold (deliver (sinks_for path stderr)) rs s) p =
     (if path = Some p then fold write_line (map lr_line rs) (lg_files s p) else lg_files s p)"
  by (induction rs arbitrary: s) (auto simp: deliver_def sinks_for_def emit_to_def split: option.split)

text \<open>Between a configuration and the next shutdown every record at or above the level reaches each
  requested sink once and in the order it was logged, however the listener thread was scheduled,
  and no other sink is touched.\<close>
text \<open>C35. Between a configuration and the next shutdown every record at or above the level reaches
  each requested sink once and in the order it was logged, however the listener thread was
  scheduled, and no other sink is touched.\<close>
theorem shutdown_flushes_the_log:
  assumes "list_all (\<lambda>h. case h of OtherHandler _ \<Rightarrow> True | QueueHandler _ \<Rightarrow> False) hs"
    and "configure_logging opens path level stderr (fold log_step history (new_logging hs)) = (None, s)"
    and "list_all ordinary es"
  shows "let lines = map lr_line (logged level es); end = shutdown_logging (fold log_step es s) in
    lg_stderr end = lg_stderr s @ (if stderr then lines else []) \<and>
    lg_files end p = (if path = Some p then fold write_line lines (lg_files s p) else lg_files s p) \<and>
    lg_threads end = [] \<and> shutdown_logging end = end"
proof -
  let ?before = "shutdown_logging (fold log_step history (new_logging hs))"
  have inv: "log_inv ?before" using log_inv_shutdown log_inv_run log_inv_new [OF assms(1)] by blast
  define q where "q = lg_next ?before"
  have s: "s = ?before\<lparr>lg_root := [QueueHandler q], lg_level := level, lg_next := Suc q,
      lg_listener := Some (q, sinks_for path stderr), lg_threads := q # lg_threads ?before, lg_atexit := Suc (lg_atexit ?before)\<rparr>"
    using assms(2) by (auto simp: configure_logging_def Let_def q_def split: if_splits)
  have fresh: "lg_queues s q = []" "lg_threads s = [q]" using inv by (simp_all add: s log_inv_def q_def)
  have "shutdown_logging s = s\<lparr>lg_queues := (lg_queues s)(q := []), lg_threads := [], lg_listener := None\<rparr>"
    using fresh by (simp add: shutdown_logging_def stop_listener_def s)
  then have same: "lg_files (shutdown_logging s) = lg_files s" "lg_stderr (shutdown_logging s) = lg_stderr s"
      "lg_threads (shutdown_logging s) = []"
    by simp_all
  have "shutdown_logging (fold log_step es s) =
      fold (deliver (sinks_for path stderr)) (logged level es) (shutdown_logging s)"
    using shutdown_after_run [of s q "sinks_for path stderr" es] assms(3) by (simp add: s)
  moreover define e where "e = shutdown_logging (fold log_step es s)"
  ultimately have e: "e = fold (deliver (sinks_for path stderr)) (logged level es) (shutdown_logging s)" by simp
  have "shutdown_logging e = e" by (simp add: shutdown_nothing e_def)
  moreover have "lg_stderr e = lg_stderr s @ (if stderr then map lr_line (logged level es) else [])"
      "lg_files e p = (if path = Some p then fold write_line (map lr_line (logged level es)) (lg_files s p) else lg_files s p)"
      "lg_threads e = []"
    unfolding e by (simp_all add: delivered same)
  ultimately show ?thesis by (simp add: Let_def flip: e_def)
qed

text \<open>
  Without a listener the root logger keeps the queue of the last one, so what is logged after a
  shutdown, or after a configuration whose file does not open, waits in a queue nobody reads.
\<close>

lemma logged_to_nobody:
  assumes "lg_listener s = None" "lg_root s = [QueueHandler q]" "lg_level s \<le> lr_level r"
  shows "shutdown_logging (log_call r s) = log_call r s \<and> lg_files (log_call r s) = lg_files s \<and>
    lg_stderr (log_call r s) = lg_stderr s \<and> lg_queues (log_call r s) q = lg_queues s q @ [r]"
  using assms by (simp add: log_call_def to_root_def shutdown_logging_def)

lemma failed_configuration_is_a_shutdown:
  "configure_logging opens path level stderr s = (Some OSError, s') \<Longrightarrow> s' = shutdown_logging s"
  by (auto simp: configure_logging_def Let_def split: if_splits)

section \<open>The size of the files\<close>

text \<open>What every file satisfies when no line is as large as a whole segment.\<close>

definition file_ok :: "string list list \<Rightarrow> bool" where
  "file_ok segs \<longleftrightarrow> length segs \<le> Suc backup_count \<and> list_all (\<lambda>seg. segment_size seg < max_bytes) segs"

lemma write_line_ok:
  assumes "file_ok segs" "length line + 1 < max_bytes"
  shows "file_ok (write_line line segs)"
proof (cases segs)
  case (Cons cur old)
  have "list_all P (take n xs)" if "list_all P xs" for P n and xs :: "string list list"
    using that by (auto simp: list_all_iff dest: in_set_takeD)
  then show ?thesis using assms Cons
    by (auto simp: file_ok_def write_line_def segment_size_def backup_count_def)
qed (use assms in \<open>simp add: file_ok_def write_line_def segment_size_def backup_count_def\<close>)

text \<open>Rotation forgets the oldest lines first: what is left is an end of what was written.\<close>

lemma write_line_keeps_end:
  "\<exists>lost. lost @ concat (rev (write_line line segs)) = concat (rev segs) @ [line]"
proof (cases segs)
  case (Cons cur old)
  have "concat (rev (drop backup_count (cur # old))) @ concat (rev (take backup_count (cur # old))) = concat (rev (cur # old))"
    by (metis append_take_drop_id concat_append rev_append)
  then show ?thesis using Cons
    by (cases "cur \<noteq> [] \<and> max_bytes \<le> segment_size cur + length line + 1")
      (auto simp: write_line_def intro: exI [of _ "concat (rev (drop backup_count (cur # old)))"])
qed (simp add: write_line_def)

definition short :: "log_event \<Rightarrow> bool" where
  "short e \<longleftrightarrow> (case e of Logged r \<Rightarrow> length (lr_line r) + 1 < max_bytes | _ \<Rightarrow> True)"

definition short_inv :: "logging \<Rightarrow> bool" where
  "short_inv s \<longleftrightarrow> (\<forall>q. list_all (\<lambda>r. length (lr_line r) + 1 < max_bytes) (lg_queues s q)) \<and> (\<forall>p. file_ok (lg_files s p))"

lemma short_deliver:
  "length (lr_line r) + 1 < max_bytes \<Longrightarrow> short_inv s \<Longrightarrow> short_inv (deliver ks r s)"
  unfolding deliver_def
  by (induction ks arbitrary: s) (simp_all add: short_inv_def emit_to_def write_line_ok split: sink.split)

lemma short_deliver_all:
  "list_all (\<lambda>r. length (lr_line r) + 1 < max_bytes) rs \<Longrightarrow> short_inv s \<Longrightarrow> short_inv (fold (deliver ks) rs s)"
  by (induction rs arbitrary: s) (simp_all add: short_deliver)

lemma short_shutdown:
  assumes "short_inv s"
  shows "short_inv (shutdown_logging s)"
proof (cases "lg_listener s")
  case (Some l)
  obtain q ks where l: "l = (q, ks)" by force
  have "short_inv (s\<lparr>lg_queues := (lg_queues s)(q := [])\<rparr>)" using assms by (simp add: short_inv_def)
  then have "short_inv (fold (deliver ks) (lg_queues s q) (s\<lparr>lg_queues := (lg_queues s)(q := [])\<rparr>))"
    using assms by (intro short_deliver_all) (simp_all add: short_inv_def)
  then show ?thesis using Some l by (simp add: shutdown_logging_def stop_listener_def short_inv_def)
qed (use assms in \<open>simp add: shutdown_logging_def\<close>)

lemma short_step:
  assumes "short_inv s" "short e"
  shows "short_inv (log_step e s)"
proof (cases e)
  case (Logged r)
  have "short_inv (fold (to_root r) hs t)" if "short_inv t" for hs t
    using that assms(2) Logged
    by (induction hs arbitrary: t) (simp_all add: to_root_def short_inv_def short_def split: root_handler.split)
  then show ?thesis using assms(1) Logged by (simp add: log_step_def log_call_def)
next
  case ListenerTurn
  have "short_inv s'" if t: "listener_turn q ks s = Some s'" for q ks s'
  proof -
    obtain r rest where q: "lg_queues s q = r # rest" "s' = deliver ks r (s\<lparr>lg_queues := (lg_queues s)(q := rest)\<rparr>)"
      using t by (auto simp: listener_turn_def split: list.splits)
    have "list_all (\<lambda>r. length (lr_line r) + 1 < max_bytes) (r # rest)" using assms(1) q(1) by (metis short_inv_def)
    then show ?thesis using assms(1) unfolding q(2) by (intro short_deliver) (simp_all add: short_inv_def)
  qed
  then show ?thesis using assms(1) ListenerTurn by (auto simp: log_step_def split: option.split)
next
  case (Configure opens path level stderr)
  then show ?thesis using short_shutdown [OF assms(1)] assms(1)
    by (auto simp: log_step_def configure_logging_def Let_def short_inv_def)
next
  case Shutdown
  then show ?thesis using short_shutdown [OF assms(1)] by (simp add: log_step_def)
qed

lemma short_run: "short_inv s \<Longrightarrow> list_all short es \<Longrightarrow> short_inv (fold log_step es s)"
  by (induction es arbitrary: s) (simp_all add: short_step)

text \<open>Whatever is logged and however often logging is set up again, at most one listener thread runs, and
  the log at a path never takes more than 192 MB, six segments of less than 32 MB each.\<close>
theorem logging_stays_bounded:
  assumes "list_all (\<lambda>h. case h of OtherHandler _ \<Rightarrow> True | QueueHandler _ \<Rightarrow> False) hs" "list_all short es"
  shows "let s = fold log_step es (new_logging hs) in
    length (lg_threads s) \<le> 1 \<and> sum_list (map segment_size (lg_files s p)) \<le> 6 * (32 * 1024 * 1024)"
proof -
  let ?s = "fold log_step es (new_logging hs)"
  have "log_inv ?s" by (rule log_inv_run [OF log_inv_new [OF assms(1)]])
  then have one: "length (lg_threads ?s) \<le> 1" by (auto simp: log_inv_def split: option.splits)
  have "short_inv (new_logging hs)" by (simp add: short_inv_def new_logging_def file_ok_def)
  from short_run [OF this assms(2)] have ok: "file_ok (lg_files ?s p)" by (simp add: short_inv_def)
  have "sum_list (map segment_size segs) \<le> length segs * max_bytes"
    if "list_all (\<lambda>seg. segment_size seg < max_bytes) segs" for segs
    using that by (induction segs) simp_all
  then have "sum_list (map segment_size (lg_files ?s p)) \<le> length (lg_files ?s p) * max_bytes"
    using ok by (simp add: file_ok_def)
  also have "\<dots> \<le> 6 * max_bytes" using ok by (intro mult_le_mono1) (simp add: file_ok_def backup_count_def)
  finally show ?thesis using one by (simp add: Let_def max_bytes_def)
qed

section \<open>Witnesses\<close>

theorem shutdown_flushes_the_log_witness:
  "\<exists>s. configure_logging True (Some ''bot.log'') 20 True (new_logging [OtherHandler 0]) = (None, s) \<and>
    lg_files (shutdown_logging (fold log_step
      [Logged \<lparr>lr_level = 20, lr_line = ''a''\<rparr>, ListenerTurn, Logged \<lparr>lr_level = 10, lr_line = ''b''\<rparr>,
       Logged \<lparr>lr_level = 40, lr_line = ''c''\<rparr>] s)) ''bot.log'' = [[''a'', ''c'']]"
proof -
  obtain s where s: "configure_logging True (Some ''bot.log'') 20 True (fold log_step [] (new_logging [OtherHandler 0])) = (None, s)"
    by (simp add: configure_logging_def Let_def)
  have start: "lg_files s ''bot.log'' = []"
    using s by (auto simp: configure_logging_def shutdown_logging_def new_logging_def Let_def)
  have h: "list_all (\<lambda>h. case h of OtherHandler _ \<Rightarrow> True | QueueHandler _ \<Rightarrow> False) [OtherHandler 0]" by simp
  let ?es = "[Logged \<lparr>lr_level = 20, lr_line = ''a''\<rparr>, ListenerTurn, Logged \<lparr>lr_level = 10, lr_line = ''b''\<rparr>,
       Logged \<lparr>lr_level = 40, lr_line = ''c''\<rparr>]"
  have es: "list_all ordinary ?es" by (simp add: ordinary_def)
  have "lg_files (shutdown_logging (fold log_step ?es s)) ''bot.log'' =
      fold write_line (map lr_line (logged 20 ?es)) (lg_files s ''bot.log'')"
    using shutdown_flushes_the_log [OF h s es, of "''bot.log''"] by (simp add: Let_def)
  also have "map lr_line (logged 20 ?es) = [''a'', ''c'']" by (simp add: logged_def)
  also have "fold write_line [''a'', ''c''] (lg_files s ''bot.log'') = [[''a'', ''c'']]"
    by (simp add: start write_line_def segment_size_def max_bytes_def)
  finally show ?thesis using s by auto
qed

theorem logging_stays_bounded_witness:
  "let s = fold log_step [Configure True (Some ''bot.log'') 20 True, Logged \<lparr>lr_level = 20, lr_line = ''a''\<rparr>, Shutdown] (new_logging []) in
    length (lg_threads s) \<le> 1 \<and> sum_list (map segment_size (lg_files s ''bot.log'')) \<le> 6 * (32 * 1024 * 1024)"
proof -
  have "list_all short [Configure True (Some ''bot.log'') 20 True, Logged \<lparr>lr_level = 20, lr_line = ''a''\<rparr>, Shutdown]"
    by (simp add: short_def max_bytes_def)
  from logging_stays_bounded [OF _ this, of "[]"] show ?thesis by simp
qed

end
