(* ===== verification/Spec2Isabelle.thy ===== *)
theory Spec2Isabelle
  imports Risk_Restart Retention_Schedule Wake_To_Order Executor_Lifecycle Executor_Process
    Matching_Gate Normalize_Facts Configuration Migrations Market_Stream Logging_Setup
begin

text \<open>
  A verification development for \<open>kalshi_bot\<close>, a bot for prediction markets. All paths below are
  relative to \<open>src/src/kalshi_bot\<close>.

  \<^bold>\<open>The program.\<close> Two processes trade. The poller decides to buy and hands a wake message to a
  non-blocking client (\<open>ipc/poller_client.py\<close>), whose background task writes it as a length-prefixed
  frame (\<open>ipc/protocol.py\<close>) on a Unix socket. The executor (\<open>ipc/executor_server.py\<close>) acknowledges each
  frame and spawns a fire task: it checks the price, sizes the stake (\<open>execution/position_sizing.py\<close>),
  asks the kill switch (\<open>runtime/killswitch.py\<close>) and the risk gate (\<open>execution/risk.py\<close>), and has the
  dispatcher (\<open>execution/order_dispatcher.py\<close>) post the order through the signed, rate-limited and
  retried REST client (\<open>auth\<close>, \<open>transport\<close>). Each order leaves a pending and a resolved row in the
  telemetry database (\<open>telemetry\<close>), which one writer thread feeds from a bounded queue, migrations
  upgrade, a periodic prune keeps small, and a restarted risk gate replays. The cross-venue package
  (\<open>crossvenue\<close>) is apart from this: it lowers the payloads of three venues to one market model,
  matches markets by wording, and says whether a matched pair settles alike.

  \<^bold>\<open>The theories.\<close> A record has a field for each attribute of its class, and an operation is a function from
  the old state to the new one; what it reads from outside (clocks, random draws, replies, files) is
  an argument. Behaviour that depends on scheduling is an inductive step relation.
  \<^item> \<open>Float64\<close>, \<open>Float_Error\<close>, \<open>Prelude\<close>, \<open>Bytes\<close>, \<open>Python_Text\<close>, \<open>Draining\<close>: binary64 arithmetic on the
    rationals with rounding to even and its error bounds; Python's exceptions, dictionaries, string
    methods and regular expressions; rolling windows over logs; and the contract of a shutdown.
  \<^item> \<open>Risk_Gate\<close> models \<open>execution/risk.py\<close>. \<open>Risk_Replay\<close> says what \<open>warm_start\<close> makes of the audit
    trail. \<open>Risk_Invariants\<close> reads \<open>check\<close> as a conjunction of caps on the unpruned state and proves the
    rolling caps, the cooldown and the concurrency bound of every run, over a restart as well.
    \<open>Risk_Ledger\<close> compares the gate with a ghost list of all fills, \<open>Risk_Restart\<close> a gate rebuilt by
    \<open>warm_start\<close> with the one that was lost.
  \<^item> \<open>Order_Sizing\<close>, \<open>Order_Dispatch\<close>, \<open>Order_Pipeline\<close>: the size and the template, a dispatch as its two
    segments around the POST with the rows they record, and these rows in the database.
  \<^item> \<open>Kill_Switch\<close>, \<open>Single_Instance\<close>, \<open>Rate_Limit\<close>, \<open>Retry\<close>, \<open>Rest_Client\<close>, \<open>Signer\<close>, \<open>Market_Stream\<close>,
    \<open>Configuration\<close>, \<open>Logging_Setup\<close>: one theory for each of these files of \<open>runtime\<close>, \<open>transport\<close>,
    \<open>auth\<close> and \<open>config.py\<close>, with the theorem that makes it correct.
  \<^item> \<open>Wake_Protocol\<close>, \<open>Executor_Connection\<close>, \<open>Poller_Client\<close>, \<open>Poller_Connection\<close>: frames and codecs, one
    connection on the executor's side as a loop over bytes, the poller's queue and loops, and the
    client over any number of connections.
  \<^item> \<open>Executor_Fire\<close>, \<open>Executor_Safety\<close>: a fire as its two segments, then the executor as any interleaving
    of fires, answers, reconciliations and balance polls, which the risk gate's runs simulate.
  \<^item> \<open>Executor_Lifecycle\<close>, \<open>Executor_Process\<close>: binding the socket, its connections and fire tasks, \<open>close\<close>,
    and executors that share one socket path under the instance lock.
  \<^item> \<open>Wake_To_Order\<close>: the composition, from the wakes offered to the poller to the orders on the wire.
  \<^item> \<open>Telemetry_Store\<close>, \<open>Telemetry_Queue\<close>, \<open>Telemetry_Audit\<close>, \<open>Retention\<close>, \<open>Retention_Schedule\<close>,
    \<open>Migrations\<close>: the statements under the constraints of the schema, the queue with its writer, what
    the writer keeps invariant, the prune and its schedule, and the opening of old files.
  \<^item> \<open>Venues\<close>, \<open>Fees\<close>, \<open>Books\<close>, \<open>Wording\<close>, \<open>Wording_Facts\<close>, \<open>Matching\<close>, \<open>Matching_Gate\<close>, \<open>Normalize\<close>,
    \<open>Normalize_Facts\<close>: the cross-venue package and what its gate, index and lowering guarantee.

  \<^bold>\<open>Interfaces.\<close> Laws that a client uses of a provider are locales, interpreted on the model's own
  definitions: \<open>rounding\<close> (the arithmetic of \<open>Float64\<close>), \<open>framing\<close> and \<open>cut_framing\<close> (frames that are
  read back, whole and cut short), \<open>admission\<close> (the risk gate as the executor sees it), \<open>draining\<close>
  (closing the server, stopping the log listener) and \<open>contextual\<close> (text clean-up that looks one
  character around).

  \<^bold>\<open>Loops and bounds.\<close> Every loop that ends is recursion with a measure. A loop that runs for ever
  (the write loop, the message stream, the heartbeat, the periodic prune) is a function of the list of
  readings it gets, or a step relation, so no fuel is chosen anywhere; where a theorem says that
  something finishes, it bounds the number of steps. Python's integers are unbounded here too;
  bytes, the length prefix and the mode of the socket are words.

  \<^bold>\<open>Arguments of the model.\<close> Packages and services whose code is not in the repository: the JSON codec,
  the RSA signature and the PEM loader, the \<open>websockets\<close> package, the exchange's replies, the libm
  logarithm, the time-zone database, \<open>datetime.fromisoformat\<close> and the iteration order of sets. Where a
  theorem needs one of them to behave, it says so: that the codec reads back what it wrote.

  \<^bold>\<open>What is standard library or kernel\<close> is modelled as far as the sources use it and as it is
  documented: \<open>flock\<close>, the queues, the rotation of a log file, the statements and conflict clauses of
  SQLite with \<open>executescript\<close>'s implicit commit, and asyncio's rule that a task runs until it awaits
  and that \<open>Server.wait_closed\<close> waits for every handler.

  \<^bold>\<open>Outside the model.\<close> Infinities and not-a-number, float texts with underscores, and text beyond
  Latin-1; the wording of log lines and of the prose in refusals, evidence and blockers, which are
  constructors instead; type affinity and \<open>PRAGMA\<close>s of SQLite other than the enforcement of foreign
  keys, and the checkpoint of its log; the creation of parent directories; rows that others write
  while a prune is under way. The entry points that start these processes, the strategy
  that decides to fire and the account monitor are not in the repository; what they do to the modelled state
  is a step of the runs. The benchmarks are measurement scripts and are left out.
\<close>

end
